(* ===== verification/Prelude.thy ===== *)
theory Prelude
  imports Main "HOL-Library.Word"
begin

text \<open>
  What every component of the development shares: the named collections of simplification rules,
  the names of the model's basic types, and generic lemmas on lists (keyset pages, ceiling
  chunks, first matches), sums and signed 64-bit arithmetic.

  Conventions. A Go \<open>string\<close> is a byte sequence and so is Isabelle's \<^typ>\<open>string\<close> (a list of
  8-bit characters). A Go \<open>int64\<close> (and \<open>int\<close>, on the 64-bit targets the Dockerfile builds) is an
  \<^typ>\<open>int\<close>; wherever the code computes with it and the result may leave the range, the
  wrap-around is written out with \<open>wrap64\<close>. A nil-able pointer is an option.
\<close>

named_theorems ro_intros \<open>programs that leave the tables and the counters alone\<close>
named_theorems grow_intros \<open>programs that never take an auto-increment value back\<close>
named_theorems inv_intros \<open>programs that keep the invariant of the database\<close>

type_synonym int64 = int
type_synonym duration = int

subsection \<open>Signed 64-bit arithmetic\<close>

definition wrap64 :: "int \<Rightarrow> int" where
  "wrap64 x = (x + 2 ^ 63) mod 2 ^ 64 - 2 ^ 63"

definition in_int64 :: "int \<Rightarrow> bool" where
  "in_int64 x \<longleftrightarrow> - (2 ^ 63) \<le> x \<and> x < 2 ^ 63"

lemma wrap64_id: "in_int64 x \<Longrightarrow> wrap64 x = x"
  by (simp add: in_int64_def wrap64_def)

lemma wrap64_in_int64: "in_int64 (wrap64 x)"
proof -
  have "0 \<le> (x + 2 ^ 63) mod 2 ^ 64" and "(x + 2 ^ 63) mod 2 ^ 64 < 2 ^ 64"
    by simp_all
  then show ?thesis by (simp add: in_int64_def wrap64_def)
qed

lemma wrap64_sint: "wrap64 x = sint (word_of_int x :: 64 word)"
proof -
  have "signed_take_bit 63 x = (x + 2 ^ 63) mod 2 ^ 64 - 2 ^ 63"
    by (simp add: signed_take_bit_eq_take_bit_shift take_bit_eq_mod)
  then show ?thesis by (simp add: wrap64_def sint_sbintrunc')
qed

subsection \<open>First matches and unique keys\<close>

lemma find_Some_iff_mem:
  "find P xs = Some x \<Longrightarrow> x \<in> set xs \<and> P x"
  by (auto simp: find_Some_iff)

lemma find_None_all: "find P xs = None \<Longrightarrow> x \<in> set xs \<Longrightarrow> \<not> P x"
  by (auto simp: find_None_iff)

lemma find_map_obtain:
  assumes "find P (map g xs) = Some r"
  obtains x where "x \<in> set xs" and "r = g x" and "P (g x)"
  using assms by (induction xs) (auto split: if_splits)

lemma find_key_unique:
  assumes "distinct (map key xs)" and "x \<in> set xs"
  shows "find (\<lambda>y. key y = key x) xs = Some x"
  using assms
proof (induction xs)
  case Nil
  then show ?case by simp
next
  case (Cons y ys)
  then show ?case by (cases "y = x") (auto simp: rev_image_eqI)
qed

lemma distinct_keys_eq:
  "distinct (map key xs) \<Longrightarrow> x \<in> set xs \<Longrightarrow> y \<in> set xs \<Longrightarrow> key x = key y \<Longrightarrow> x = y"
  by (auto simp: distinct_map inj_on_def)

lemma map_upd_key [simp]:
  "(\<And>x. key (f x) = key x) \<Longrightarrow> map key (map (\<lambda>x. if P x then f x else x) xs) = map key xs"
  by (induction xs) auto

lemma image_upd_key:
  "(\<And>x. key (f x) = key x) \<Longrightarrow> key ` set (map (\<lambda>x. if P x then f x else x) xs) = key ` set xs"
  by (induction xs) auto

lemma filter_key_unique:
  assumes "distinct (map key xs)" and "x \<in> set xs"
  shows "filter (\<lambda>y. key y = key x) xs = [x]"
  using assms by (induction xs) (auto simp: filter_empty_conv rev_image_eqI)

lemma list_all2_right_mem: "list_all2 P xs ys \<Longrightarrow> y \<in> set ys \<Longrightarrow> \<exists>x \<in> set xs. P x y"
  by (induction rule: list_all2_induct) auto

subsection \<open>Stable sorting\<close>

text \<open>Sorting by a key keeps the order of the input among equal keys.\<close>

lemma sorted_wrt_insort_key:
  assumes "sorted_wrt (\<lambda>u v. f u < f v \<or> f u = f v \<and> R u v) ys" and "\<forall>y \<in> set ys. R x y"
  shows "sorted_wrt (\<lambda>u v. (f u :: 'k :: linorder) < f v \<or> f u = f v \<and> R u v) (insort_key f x ys)"
  using assms
proof (induction ys)
  case (Cons y ys)
  then show ?case by (fastforce simp: set_insort_key)
qed simp

lemma sorted_wrt_sort_key:
  "sorted_wrt R xs \<Longrightarrow>
     sorted_wrt (\<lambda>u v. (f u :: 'k :: linorder) < f v \<or> f u = f v \<and> R u v) (sort_key f xs)"
  by (induction xs) (simp_all add: sorted_wrt_insort_key)

lemma find_last: "\<forall>x \<in> set xs. \<not> P x \<Longrightarrow> P y \<Longrightarrow> find P (xs @ [y]) = Some y"
  by (induction xs) auto

end
