(* ===== verification/Go_Std.thy ===== *)
theory Go_Std
  imports Prelude
begin

text \<open>
  The part of the Go language and its standard library the program rests on: error values and
  their chains (\<open>errors.Is\<close>, \<open>errors.As\<close>, \<open>fmt.Errorf\<close> with \<open>%w\<close>), decimal conversion
  (\<open>strconv.FormatInt\<close>, \<open>strconv.ParseInt\<close>, \<open>strconv.Atoi\<close>) and \<open>hex.EncodeToString\<close>.
  The theorems are the round trip of the decimal conversion and the injectivity of printing,
  on which the identity provider and the cache keys rest.
\<close>

subsection \<open>Errors\<close>

text \<open>
  The sentinels of \<open>internal/domain/errors.go\<close>, the errors of the packages below the program (a
  MySQL error with its number, the two context errors, those of the email client, the identity
  provider and the readiness check, anything else)
  and the wrapping nodes that \<open>fmt.Errorf\<close> makes around the errors given by one or two \<open>%w\<close>.
\<close>

datatype gerr =
    ErrEmailTaken | ErrInvalidCredentials | ErrNotFound | ErrForbidden
  | ErrAlreadyMember | ErrNotTeamMember
  | MySQLError nat
  | Canceled | DeadlineExceeded
  | NumError
  | ErrCallerGone | ErrProviderTimeout
  | ErrInvalidToken
  | ErrStarting | ErrShuttingDown
  | OtherErr string
  | Wrap string gerr
  | Wrap2 gerr gerr
  | SendError duration gerr

fun errors_is :: "gerr \<Rightarrow> gerr \<Rightarrow> bool" where
  "errors_is (Wrap msg e) target \<longleftrightarrow> Wrap msg e = target \<or> errors_is e target"
| "errors_is (Wrap2 d e) target \<longleftrightarrow> Wrap2 d e = target \<or> errors_is d target \<or> errors_is e target"
| "errors_is (SendError r e) target \<longleftrightarrow> SendError r e = target \<or> errors_is e target"
| "errors_is e target \<longleftrightarrow> e = target"

fun errors_as_mysql :: "gerr \<Rightarrow> nat option" where
  "errors_as_mysql (Wrap msg e) = errors_as_mysql e"
| "errors_as_mysql (Wrap2 d e) = (case errors_as_mysql d of None \<Rightarrow> errors_as_mysql e | Some n \<Rightarrow> Some n)"
| "errors_as_mysql (SendError r e) = errors_as_mysql e"
| "errors_as_mysql (MySQLError n) = Some n"
| "errors_as_mysql e = None"

text \<open>\<open>errors.As\<close> with the interface \<open>retryAfter\<close>: the first error of the chain that has a hint.\<close>

fun errors_as_hint :: "gerr \<Rightarrow> duration option" where
  "errors_as_hint (SendError r e) = Some r"
| "errors_as_hint (Wrap msg e) = errors_as_hint e"
| "errors_as_hint (Wrap2 d e) = (case errors_as_hint d of None \<Rightarrow> errors_as_hint e | Some r \<Rightarrow> Some r)"
| "errors_as_hint e = None"

fun is_sentinel :: "gerr \<Rightarrow> bool" where
  "is_sentinel (Wrap msg e) = False"
| "is_sentinel (Wrap2 d e) = False"
| "is_sentinel (SendError r e) = False"
| "is_sentinel e = True"

lemma errors_is_wrap [simp]:
  "is_sentinel t \<Longrightarrow> errors_is (Wrap msg e) t = errors_is e t"
  by (cases t) auto

subsection \<open>Decimal printing and parsing\<close>

definition digit_char :: "nat \<Rightarrow> char" where
  "digit_char d = char_of (48 + d)"

definition char_digit :: "char \<Rightarrow> nat option" where
  "char_digit c = (let k = (of_char c :: nat) in if 48 \<le> k \<and> k \<le> 57 then Some (k - 48) else None)"

fun nat_digits :: "nat \<Rightarrow> string" where
  "nat_digits n = (if n < 10 then [digit_char n] else nat_digits (n div 10) @ [digit_char (n mod 10)])"

declare nat_digits.simps [simp del]

definition FormatInt :: "int \<Rightarrow> string" where
  "FormatInt i = (if i < 0 then CHR ''-'' # nat_digits (nat (- i)) else nat_digits (nat i))"

fun parse_digits :: "nat \<Rightarrow> string \<Rightarrow> nat option" where
  "parse_digits acc [] = Some acc"
| "parse_digits acc (c # cs) =
     (case char_digit c of None \<Rightarrow> None | Some d \<Rightarrow> parse_digits (10 * acc + d) cs)"

definition ParseInt :: "string \<Rightarrow> gerr + int" where
  "ParseInt s =
     (let neg = (s \<noteq> [] \<and> hd s = CHR ''-'');
          ds = (if s \<noteq> [] \<and> (hd s = CHR ''+'' \<or> hd s = CHR ''-'') then tl s else s)
      in if ds = [] then Inl NumError
         else case parse_digits 0 ds of
           None \<Rightarrow> Inl NumError
         | Some n \<Rightarrow>
             if \<not> neg \<and> 2 ^ 63 \<le> int n then Inl NumError
             else if neg \<and> 2 ^ 63 < int n then Inl NumError
             else Inr (if neg then - int n else int n))"

definition Atoi :: "string \<Rightarrow> gerr + int" where
  "Atoi s = ParseInt s"

subsection \<open>Hexadecimal encoding\<close>

definition hex_char :: "nat \<Rightarrow> char" where
  "hex_char d = (if d < 10 then char_of (48 + d) else char_of (87 + d))"

definition EncodeToString :: "8 word list \<Rightarrow> string" where
  "EncodeToString bs = concat (map (\<lambda>b. [hex_char (unat b div 16), hex_char (unat b mod 16)]) bs)"

lemma length_EncodeToString: "length (EncodeToString bs) = 2 * length bs"
  by (induction bs) (simp_all add: EncodeToString_def)

subsection \<open>The decimal round trip\<close>

lemma char_digit_digit_char [simp]: "d < 10 \<Longrightarrow> char_digit (digit_char d) = Some d"
  by (simp add: char_digit_def digit_char_def Let_def)

lemma parse_digits_append:
  "parse_digits acc (xs @ ys) =
     (case parse_digits acc xs of None \<Rightarrow> None | Some m \<Rightarrow> parse_digits m ys)"
  by (induction xs arbitrary: acc) (auto split: option.splits)

lemma parse_nat_digits: "parse_digits 0 (nat_digits n) = Some n"
proof (induction n rule: nat_digits.induct)
  case (1 n)
  then show ?case by (simp add: nat_digits.simps [of n] parse_digits_append)
qed

lemma digit_char_of: "d < 10 \<Longrightarrow> of_char (digit_char d) = 48 + d"
  by (simp add: digit_char_def)

lemma set_nat_digits: "c \<in> set (nat_digits n) \<Longrightarrow> \<exists>d < 10. c = digit_char d"
proof (induction n rule: nat_digits.induct)
  case (1 n)
  show ?case
  proof (cases "n < 10")
    case True
    with "1.prems" show ?thesis by (auto simp: nat_digits.simps [of n])
  next
    case False
    with "1.prems" consider "c \<in> set (nat_digits (n div 10))" | "c = digit_char (n mod 10)"
      by (auto simp: nat_digits.simps [of n])
    then show ?thesis
    proof cases
      case 1
      with "1.IH" False show ?thesis by blast
    next
      case 2
      then show ?thesis by (intro exI [of _ "n mod 10"]) simp
    qed
  qed
qed

lemma nat_digits_nonempty [simp]: "nat_digits n \<noteq> []"
  by (simp add: nat_digits.simps [of n])

lemma digit_char_neq: "d < 10 \<Longrightarrow> of_char c < (48::nat) \<or> 57 < (of_char c :: nat) \<Longrightarrow> digit_char d \<noteq> c"
  using digit_char_of [of d] by fastforce

lemma digit_char_not_sign [simp]:
  assumes "d < 10"
  shows "digit_char d \<noteq> CHR ''-''" and "digit_char d \<noteq> CHR ''+''" and "digit_char d \<noteq> CHR '':''"
  using digit_char_neq [OF assms] by simp_all

lemma nat_digits_no_char:
  "of_char c < (48::nat) \<or> 57 < (of_char c :: nat) \<Longrightarrow> c \<notin> set (nat_digits n)"
  using set_nat_digits digit_char_neq by blast

lemma hd_nat_digits: "hd (nat_digits n) \<noteq> CHR ''-'' \<and> hd (nat_digits n) \<noteq> CHR ''+''"
proof -
  have "CHR ''-'' \<notin> set (nat_digits n)" and "CHR ''+'' \<notin> set (nat_digits n)"
    by (rule nat_digits_no_char; simp)+
  then show ?thesis by (metis hd_in_set nat_digits_nonempty)
qed

lemma nat_digits_length: "n < 10 ^ k \<Longrightarrow> 0 < k \<Longrightarrow> length (nat_digits n) \<le> k"
proof (induction k arbitrary: n)
  case (Suc k)
  then show ?case
    by (cases "n < 10 \<or> k = 0") (auto simp: nat_digits.simps [of n])
qed simp

lemma nat_digits_inj: "nat_digits m = nat_digits n \<Longrightarrow> m = n"
  by (metis option.inject parse_nat_digits)

lemma ParseInt_FormatInt: "in_int64 i \<Longrightarrow> ParseInt (FormatInt i) = Inr i"
  using hd_nat_digits [of "nat i"]
  by (auto simp: ParseInt_def FormatInt_def parse_nat_digits in_int64_def Let_def)

lemma FormatInt_inj: "FormatInt i = FormatInt j \<Longrightarrow> i = j"
proof -
  have neg: "CHR ''-'' # xs \<noteq> nat_digits n" and neg': "nat_digits n \<noteq> CHR ''-'' # xs" for xs n
    using hd_nat_digits [of n] by (metis list.sel(1))+
  assume "FormatInt i = FormatInt j"
  then show ?thesis
    by (auto simp: FormatInt_def neg neg' dest: nat_digits_inj split: if_splits)
qed

lemma FormatInt_no_colon: "CHR '':'' \<notin> set (FormatInt i)"
  using nat_digits_no_char [of "CHR '':''"] by (auto simp: FormatInt_def)

text \<open>
  A parsed number is always an \<open>int64\<close>: the range check cannot be passed by a longer string.
\<close>

lemma ParseInt_range: "ParseInt s = Inr i \<Longrightarrow> in_int64 i"
  by (auto simp: ParseInt_def in_int64_def Let_def split: if_splits option.splits)

lemma ParseInt_empty [simp]: "ParseInt [] = Inl NumError"
  by (simp add: ParseInt_def)

end
