(* ===== verification/Domain.thy ===== *)
theory Domain
  imports Go_Std
begin

text \<open>
  The entities of \<open>internal/domain\<close> and of \<open>internal/infrastructure/outbox/message.go\<close>: users,
  teams and their roles, tasks with their filter and change records, comments, the rows of the
  reports, outbox messages. \<open>TaskStatus\<close>, \<open>TeamRole\<close> and \<open>Role\<close> are Go string types with named
  constants and stay strings here, since any string can flow through them. The theorems say that
  \<open>AtLeast\<close> is the order member, admin, owner and that an unknown role is below all of them.
\<close>

subsection \<open>Tasks\<close>

type_synonym TaskStatus = string

definition TaskStatusTodo :: TaskStatus where "TaskStatusTodo = ''todo''"
definition TaskStatusInProgress :: TaskStatus where "TaskStatusInProgress = ''in_progress''"
definition TaskStatusDone :: TaskStatus where "TaskStatusDone = ''done''"

lemmas status_defs = TaskStatusTodo_def TaskStatusInProgress_def TaskStatusDone_def

record Task =
  task_CreatedAt :: int
  task_UpdatedAt :: int
  task_CompletedAt :: "int option"
  task_AssigneeID :: "int64 option"
  task_Title :: string
  task_Description :: string
  task_Status :: TaskStatus
  task_ID :: int64
  task_TeamID :: int64
  task_CreatedBy :: int64

definition ChangeFieldCreated :: string where "ChangeFieldCreated = ''created''"

record TaskChange =
  tc_ChangedAt :: int
  tc_GroupID :: string
  tc_Field :: string
  tc_OldValue :: string
  tc_NewValue :: string
  tc_ChangedBy :: int64

record TaskFilter =
  tf_Status :: "TaskStatus option"
  tf_AssigneeID :: "int64 option"
  tf_TeamID :: int64
  tf_Limit :: int
  tf_AfterID :: int64

subsection \<open>Teams and roles\<close>

type_synonym TeamRole = string

definition TeamRoleMember :: TeamRole where "TeamRoleMember = ''member''"
definition TeamRoleAdmin :: TeamRole where "TeamRoleAdmin = ''admin''"
definition TeamRoleOwner :: TeamRole where "TeamRoleOwner = ''owner''"

lemmas team_role_defs = TeamRoleMember_def TeamRoleAdmin_def TeamRoleOwner_def

text \<open>Indexing the Go map with a missing key gives the zero value.\<close>

definition teamRoleRank :: "TeamRole \<Rightarrow> int" where
  "teamRoleRank r =
     (if r = TeamRoleMember then 1 else if r = TeamRoleAdmin then 2
      else if r = TeamRoleOwner then 3 else 0)"

definition AtLeast :: "TeamRole \<Rightarrow> TeamRole \<Rightarrow> bool" where
  "AtLeast r least = (teamRoleRank r \<ge> teamRoleRank least)"

record TeamMembership =
  tm_Name :: string
  tm_Role :: TeamRole
  tm_ID :: int64

subsection \<open>Users\<close>

type_synonym Role = string

definition RoleUser :: Role where "RoleUser = ''user''"
definition RoleAdmin :: Role where "RoleAdmin = ''admin''"

lemmas role_defs = RoleUser_def RoleAdmin_def

record User =
  user_CreatedAt :: int
  user_Email :: string
  user_Name :: string
  user_PasswordHash :: string
  user_Role :: Role
  user_ID :: int64

subsection \<open>Comments\<close>

record TaskComment =
  co_CreatedAt :: int
  co_UpdatedAt :: int
  co_Body :: string
  co_ID :: int64
  co_TaskID :: int64
  co_UserID :: int64

record CommentFilter =
  cf_TaskID :: int64
  cf_Limit :: int
  cf_AfterID :: int64

subsection \<open>Reports\<close>

record TeamStats =
  ts_Name :: string
  ts_ID :: int64
  ts_Members :: int64
  ts_DoneLast7Days :: int64

record TeamTopCreator =
  tp_TeamName :: string
  tp_UserName :: string
  tp_TeamID :: int64
  tp_UserID :: int64
  tp_TasksCreated :: int64
  tp_Rank :: int64

record OrphanAssignee =
  oa_Title :: string
  oa_TaskID :: int64
  oa_TeamID :: int64
  oa_AssigneeID :: int64

subsection \<open>Outbox messages\<close>

record Message =
  msg_Recipient :: string
  msg_Subject :: string
  msg_Body :: string

record Claimed =
  cl_Message :: Message
  cl_ID :: int64
  cl_Attempts :: int

record Retry =
  rt_LastErr :: string
  rt_Delay :: duration
  rt_ID :: int64

record Failure =
  fl_LastErr :: string
  fl_ID :: int64

subsection \<open>The role order\<close>

lemma AtLeast_Member: "AtLeast r TeamRoleMember \<longleftrightarrow> r \<in> {TeamRoleMember, TeamRoleAdmin, TeamRoleOwner}"
  by (auto simp: AtLeast_def teamRoleRank_def team_role_defs)

lemma AtLeast_Admin: "AtLeast r TeamRoleAdmin \<longleftrightarrow> r \<in> {TeamRoleAdmin, TeamRoleOwner}"
  by (auto simp: AtLeast_def teamRoleRank_def team_role_defs)

lemma AtLeast_Owner: "AtLeast r TeamRoleOwner \<longleftrightarrow> r = TeamRoleOwner"
  by (auto simp: AtLeast_def teamRoleRank_def team_role_defs)

lemmas AtLeast_simps = AtLeast_Member AtLeast_Admin AtLeast_Owner

lemma AtLeast_refl [simp]: "AtLeast r r"
  by (simp add: AtLeast_def)

lemma AtLeast_trans: "AtLeast a b \<Longrightarrow> AtLeast b c \<Longrightarrow> AtLeast a c"
  by (simp add: AtLeast_def)

lemma AtLeast_linear: "AtLeast a b \<or> AtLeast b a"
  by (auto simp: AtLeast_def)

end
