(* ===== verification/Database.thy ===== *)
theory Database
  imports Domain
begin

text \<open>
  The relational store the repositories write their SQL against: the tables of \<open>migrations/\<close>
  as records of rows, auto-increment counters, and the execution of a statement or of a
  transaction.

  What is language and what is environment. The SQL text is part of the program, so a
  statement's effect (its \<open>WHERE\<close>, \<open>ORDER BY\<close>, \<open>LIMIT\<close>, defaults, keys and foreign keys of the
  schema) is modelled. What the server, the driver and the network decide is a parameter, the
  record \<open>env\<close>: whether the n-th driver call fails, and if so whether its effect took place all
  the same (a lost acknowledgement), the two clocks, the bytes of \<open>crypto/rand\<close>, the collation
  that compares \<open>VARCHAR\<close> values, the rows other transactions have locked and the calendar. A
  statement the server refuses for a reason not written out here (a value longer than its
  column, an invalid character, a deadlock) is a failing call. Every theorem holds for every such
  environment, in particular for every schedule of failures.

  Times are microseconds. A \<open>TIMESTAMP\<close> column keeps whole seconds, \<open>DATETIME(3)\<close> milliseconds;
  a value with more digits is rounded on assignment, while \<open>NOW()\<close> and \<open>NOW(3)\<close> are cut.
\<close>

subsection \<open>Rows and tables\<close>

record user_row =
  u_id :: int64
  u_email :: string
  u_password_hash :: string
  u_name :: string
  u_role :: string
  u_created_at :: int

record team_row =
  t_id :: int64
  t_name :: string
  t_created_by :: int64
  t_created_at :: int

record member_row =
  m_team_id :: int64
  m_user_id :: int64
  m_role :: string
  m_joined_at :: int

record task_row =
  k_id :: int64
  k_team_id :: int64
  k_title :: string
  k_description :: "string option"
  k_status :: string
  k_assignee_id :: "int64 option"
  k_created_by :: int64
  k_created_at :: int
  k_updated_at :: int
  k_completed_at :: "int option"

record history_row =
  h_id :: int64
  h_task_id :: int64
  h_changed_by :: int64
  h_change_group_id :: string
  h_field :: string
  h_old_value :: "string option"
  h_new_value :: "string option"
  h_changed_at :: int

record comment_row =
  c_id :: int64
  c_task_id :: int64
  c_user_id :: int64
  c_body :: string
  c_created_at :: int
  c_updated_at :: int

record outbox_row =
  o_id :: int64
  o_recipient :: string
  o_subject :: string
  o_body :: string
  o_status :: string
  o_attempts :: int
  o_next_retry_at :: "int option"
  o_last_error :: "string option"
  o_created_at :: int

record tables =
  users :: "user_row list"
  teams :: "team_row list"
  team_members :: "member_row list"
  tasks :: "task_row list"
  task_history :: "history_row list"
  task_comments :: "comment_row list"
  email_outbox :: "outbox_row list"

text \<open>The next auto-increment value of each table that has one.\<close>

record counters =
  n_users :: int
  n_teams :: int
  n_tasks :: int
  n_history :: int
  n_comments :: int
  n_outbox :: int

record db =
  tbl :: tables
  cnt :: counters
  stmt :: nat \<comment> \<open>number of driver calls made so far\<close>

definition empty_tables :: tables where
  "empty_tables = \<lparr>users = [], teams = [], team_members = [], tasks = [], task_history = [],
     task_comments = [], email_outbox = []\<rparr>"

definition empty_db :: db where
  "empty_db = \<lparr>tbl = empty_tables,
     cnt = \<lparr>n_users = 1, n_teams = 1, n_tasks = 1, n_history = 1, n_comments = 1, n_outbox = 1\<rparr>,
     stmt = 0\<rparr>"

subsection \<open>The environment and the execution of a statement\<close>

datatype fault = NoFault | FailBefore gerr | FailAfter gerr

record env =
  fault :: "nat \<Rightarrow> fault"
  clock :: "nat \<Rightarrow> int" \<comment> \<open>the server's clock at the n-th call\<close>
  wall :: "nat \<Rightarrow> int" \<comment> \<open>\<open>time.Now\<close> before the n-th call\<close>
  rnd :: "nat \<Rightarrow> nat \<Rightarrow> 8 word" \<comment> \<open>the i-th byte \<open>rand.Read\<close> gives before the n-th call\<close>
  collate :: "string \<Rightarrow> string" \<comment> \<open>the collation key of a \<open>VARCHAR\<close> value\<close>
  locked :: "nat \<Rightarrow> int64 \<Rightarrow> bool" \<comment> \<open>outbox rows other transactions hold at the n-th call\<close>
  month_before :: "int \<Rightarrow> int" \<comment> \<open>the server's calendar: \<open>- INTERVAL 1 MONTH\<close>\<close>

type_synonym 'a prog = "db \<Rightarrow> (gerr + 'a) \<times> db"

definition ret :: "'a \<Rightarrow> 's \<Rightarrow> (gerr + 'a) \<times> 's" where
  "ret a s = (Inr a, s)"

definition fail :: "gerr \<Rightarrow> 's \<Rightarrow> (gerr + 'a) \<times> 's" where
  "fail e s = (Inl e, s)"

text \<open>
  The Go idiom \<open>x, err := m; if err != nil { return f(err) }; k(x)\<close>. The map \<open>f\<close> is the identity
  where the code returns \<open>err\<close> as it is and a \<open>Wrap\<close> where it formats it with \<open>%w\<close>.
\<close>

definition go_try ::
  "('s \<Rightarrow> (gerr + 'a) \<times> 's) \<Rightarrow> (gerr \<Rightarrow> gerr) \<Rightarrow> ('a \<Rightarrow> 's \<Rightarrow> (gerr + 'b) \<times> 's) \<Rightarrow> 's \<Rightarrow> (gerr + 'b) \<times> 's" where
  "go_try m f k s = (case m s of (Inl e, s') \<Rightarrow> (Inl (f e), s') | (Inr x, s') \<Rightarrow> k x s')"

text \<open>One driver call: a statement with its effect on the tables, at the server's time.\<close>

definition exec :: "env \<Rightarrow> (int \<Rightarrow> 'a prog) \<Rightarrow> 'a prog" where
  "exec E body s =
     (let n = stmt s; s1 = s\<lparr>stmt := Suc n\<rparr>
      in case fault E n of
           NoFault \<Rightarrow> body (clock E n) s1
         | FailBefore e \<Rightarrow> (Inl e, s1)
         | FailAfter e \<Rightarrow> (Inl e, snd (body (clock E n) s1)))"

text \<open>A driver call without effect on the tables: \<open>LastInsertId\<close>, \<open>rows.Scan\<close>, \<open>rows.Err\<close>.\<close>

definition driver_call :: "env \<Rightarrow> 'a \<Rightarrow> 'a prog" where
  "driver_call E a = exec E (\<lambda>_. ret a)"

text \<open>A query: the rows it selects, read at the server's time; no effect on the tables.\<close>

definition query :: "env \<Rightarrow> (int \<Rightarrow> tables \<Rightarrow> 'a) \<Rightarrow> 'a prog" where
  "query E sel = exec E (\<lambda>now s. (Inr (sel now (tbl s)), s))"

text \<open>
  \<open>tx.Do\<close> (the interfaces \<open>TxManager\<close> of \<open>service/teams.go\<close> and \<open>outbox/relay.go\<close>): \<open>BEGIN\<close>, the
  body, \<open>COMMIT\<close> when it returns nil and \<open>ROLLBACK\<close> when it returns an error. A rollback gives
  back the tables of the \<open>BEGIN\<close>; auto-increment values are not given back. A failing \<open>COMMIT\<close>
  may have taken effect.
\<close>

definition rollback_to :: "db \<Rightarrow> db \<Rightarrow> db" where
  "rollback_to s0 s = s\<lparr>tbl := tbl s0\<rparr>"

definition commit :: "env \<Rightarrow> db \<Rightarrow> 'a \<Rightarrow> 'a prog" where
  "commit E s0 a s =
     (let n = stmt s; s1 = s\<lparr>stmt := Suc n\<rparr>
      in case fault E n of
           NoFault \<Rightarrow> (Inr a, s1)
         | FailBefore e \<Rightarrow> (Inl e, rollback_to s0 s1)
         | FailAfter e \<Rightarrow> (Inl e, s1))"

definition tx_do :: "env \<Rightarrow> 'a prog \<Rightarrow> 'a prog" where
  "tx_do E fn =
     go_try (driver_call E ()) id (\<lambda>_ s0.
       case fn s0 of
         (Inl e, s1) \<Rightarrow> (Inl e, rollback_to s0 s1)
       | (Inr a, s1) \<Rightarrow> commit E s0 a s1)"

subsection \<open>Column conversions\<close>

definition timestamp_round :: "int \<Rightarrow> int" where
  "timestamp_round t = (t + 500000) div 1000000 * 1000000"

definition current_timestamp :: "int \<Rightarrow> int" where
  "current_timestamp t = t div 1000000 * 1000000"

definition datetime3_round :: "int \<Rightarrow> int" where
  "datetime3_round t = (t + 500) div 1000 * 1000"

definition now3 :: "int \<Rightarrow> int" where
  "now3 t = t div 1000 * 1000"

text \<open>Server error numbers: duplicate entry, foreign key, value out of range, bad enum value.\<close>

definition duplicateEntryCode :: nat where "duplicateEntryCode = 1062"
definition foreignKeyViolationCode :: nat where "foreignKeyViolationCode = 1452"
definition outOfRangeCode :: nat where "outOfRangeCode = 1264"
definition dataTruncatedCode :: nat where "dataTruncatedCode = 1265"

lemmas sql_code_defs =
  duplicateEntryCode_def foreignKeyViolationCode_def outOfRangeCode_def dataTruncatedCode_def

definition user_ids :: "tables \<Rightarrow> int64 set" where
  "user_ids T = u_id ` set (users T)"

definition team_ids :: "tables \<Rightarrow> int64 set" where
  "team_ids T = t_id ` set (teams T)"

definition task_ids :: "tables \<Rightarrow> int64 set" where
  "task_ids T = k_id ` set (tasks T)"

definition member_pairs :: "tables \<Rightarrow> (int64 \<times> int64) set" where
  "member_pairs T = (\<lambda>r. (m_team_id r, m_user_id r)) ` set (team_members T)"

lemmas id_set_defs = user_ids_def team_ids_def task_ids_def member_pairs_def

subsection \<open>Lemmas on execution\<close>

lemma go_try_Inr:
  "go_try m f k s = (Inr y, s') \<longleftrightarrow> (\<exists>x s1. m s = (Inr x, s1) \<and> k x s1 = (Inr y, s'))"
  by (auto simp: go_try_def split: prod.splits sum.splits)

lemma go_try_Inl:
  "go_try m f k s = (Inl e, s') \<longleftrightarrow>
     (\<exists>e'. m s = (Inl e', s') \<and> e = f e') \<or> (\<exists>x s1. m s = (Inr x, s1) \<and> k x s1 = (Inl e, s'))"
  by (auto simp: go_try_def split: prod.splits sum.splits)

lemma exec_Inr:
  "exec E body s = (Inr y, s') \<longleftrightarrow>
     fault E (stmt s) = NoFault \<and> body (clock E (stmt s)) (s\<lparr>stmt := Suc (stmt s)\<rparr>) = (Inr y, s')"
  by (auto simp: exec_def Let_def split: fault.splits)

lemma query_Inr:
  "query E sel s = (Inr y, s') \<longleftrightarrow>
     fault E (stmt s) = NoFault \<and> y = sel (clock E (stmt s)) (tbl s) \<and> s' = s\<lparr>stmt := Suc (stmt s)\<rparr>"
  by (auto simp: query_def exec_Inr)

lemma driver_call_Inr:
  "driver_call E a s = (Inr y, s') \<longleftrightarrow>
     fault E (stmt s) = NoFault \<and> y = a \<and> s' = s\<lparr>stmt := Suc (stmt s)\<rparr>"
  by (auto simp: driver_call_def exec_Inr ret_def)

lemma query_snd [simp]: "snd (query E sel s) = s\<lparr>stmt := Suc (stmt s)\<rparr>"
  by (simp add: query_def exec_def Let_def split: fault.splits)

lemma driver_call_snd [simp]: "snd (driver_call E a s) = s\<lparr>stmt := Suc (stmt s)\<rparr>"
  by (simp add: driver_call_def exec_def ret_def Let_def split: fault.splits)

lemma commit_Inr:
  "commit E s0 a s = (Inr b, s') \<longleftrightarrow>
     fault E (stmt s) = NoFault \<and> b = a \<and> s' = s\<lparr>stmt := Suc (stmt s)\<rparr>"
  by (auto simp: commit_def Let_def split: fault.splits)

lemma tx_do_Inr:
  "tx_do E fn s = (Inr a, s') \<longleftrightarrow>
     fault E (stmt s) = NoFault \<and>
     (\<exists>s1. fn (s\<lparr>stmt := Suc (stmt s)\<rparr>) = (Inr a, s1) \<and> fault E (stmt s1) = NoFault \<and>
       s' = s1\<lparr>stmt := Suc (stmt s1)\<rparr>)"
  by (auto simp: tx_do_def go_try_Inr driver_call_Inr commit_Inr split: prod.splits sum.splits)

text \<open>
  Atomicity: whatever the body does and whatever fails, the tables after the transaction are
  those before it or those the completed body left; an error can only come with the second
  when the \<open>COMMIT\<close> itself took effect without being acknowledged.
\<close>

lemma tx_do_atomic:
  assumes "tx_do E fn s = (res, s')"
  shows "tbl s' = tbl s \<or>
    (\<exists>a s1. fn (s\<lparr>stmt := Suc (stmt s)\<rparr>) = (Inr a, s1) \<and> tbl s' = tbl s1 \<and>
       (res = Inr a \<or> (\<exists>e. fault E (stmt s1) = FailAfter e \<and> res = Inl e)))"
proof (cases "fault E (stmt s)")
  case NoFault
  then have tx: "tx_do E fn s = (case fn (s\<lparr>stmt := Suc (stmt s)\<rparr>) of
      (Inl e, s1) \<Rightarrow> (Inl e, rollback_to (s\<lparr>stmt := Suc (stmt s)\<rparr>) s1)
    | (Inr a, s1) \<Rightarrow> commit E (s\<lparr>stmt := Suc (stmt s)\<rparr>) a s1)"
    by (simp add: tx_do_def go_try_def driver_call_def exec_def ret_def)
  show ?thesis
    using assms unfolding tx
    by (auto simp: commit_def rollback_to_def Let_def split: prod.splits sum.splits fault.splits)
next
  case (FailBefore e)
  with assms show ?thesis
    by (auto simp: tx_do_def go_try_def driver_call_def exec_def Let_def)
next
  case (FailAfter e)
  with assms show ?thesis
    by (auto simp: tx_do_def go_try_def driver_call_def exec_def ret_def Let_def)
qed

subsection \<open>Read-only programs and growing counters\<close>

definition read_only :: "'a prog \<Rightarrow> bool" where
  "read_only m \<longleftrightarrow> (\<forall>s. tbl (snd (m s)) = tbl s \<and> cnt (snd (m s)) = cnt s)"

definition cnt_le :: "counters \<Rightarrow> counters \<Rightarrow> bool" where
  "cnt_le a b \<longleftrightarrow> n_users a \<le> n_users b \<and> n_teams a \<le> n_teams b \<and> n_tasks a \<le> n_tasks b \<and>
     n_history a \<le> n_history b \<and> n_comments a \<le> n_comments b \<and> n_outbox a \<le> n_outbox b"

definition cnt_grows :: "'a prog \<Rightarrow> bool" where
  "cnt_grows m \<longleftrightarrow> (\<forall>s. cnt_le (cnt s) (cnt (snd (m s))))"

lemma cnt_le_refl [simp]: "cnt_le a a"
  by (simp add: cnt_le_def)

lemma cnt_le_trans: "cnt_le a b \<Longrightarrow> cnt_le b c \<Longrightarrow> cnt_le a c"
  by (auto simp: cnt_le_def)

lemma read_onlyD: "read_only m \<Longrightarrow> m s = (x, s') \<Longrightarrow> tbl s' = tbl s \<and> cnt s' = cnt s"
  by (metis read_only_def snd_conv)

lemma cnt_growsD: "cnt_grows m \<Longrightarrow> m s = (x, s') \<Longrightarrow> cnt_le (cnt s) (cnt s')"
  by (metis cnt_grows_def snd_conv)

lemma ro_ret [ro_intros]: "read_only (ret a)"
  and ro_fail [ro_intros]: "read_only (fail e)"
  and ro_query [ro_intros]: "read_only (query E sel)"
  and ro_driver_call [ro_intros]: "read_only (driver_call E a)"
  by (simp_all add: read_only_def ret_def fail_def)

lemma ro_try [ro_intros]:
  "read_only m \<Longrightarrow> (\<And>x. read_only (k x)) \<Longrightarrow> read_only (go_try m f k)"
  by (auto simp: read_only_def go_try_def split: prod.splits sum.splits) (metis snd_conv)+

lemma ro_if [ro_intros]: "read_only m \<Longrightarrow> read_only n \<Longrightarrow> read_only (if b then m else n)"
  by simp

lemma ro_option [ro_intros]:
  "read_only m \<Longrightarrow> (\<And>x. read_only (k x)) \<Longrightarrow>
     read_only (case v of None \<Rightarrow> m | Some x \<Rightarrow> k x)"
  by (cases v) simp_all

lemma grow_read_only [grow_intros]: "read_only m \<Longrightarrow> cnt_grows m"
  by (simp add: read_only_def cnt_grows_def)

lemma grow_try [grow_intros]:
  assumes "cnt_grows m" and "\<And>x. cnt_grows (k x)"
  shows "cnt_grows (go_try m f k)"
  unfolding cnt_grows_def
proof
  fix s
  obtain r s1 where m: "m s = (r, s1)" by fastforce
  with assms(1) have "cnt_le (cnt s) (cnt s1)" by (rule cnt_growsD)
  moreover have "cnt_le (cnt s1) (cnt (snd (k x s1)))" for x
    using assms(2) by (simp add: cnt_grows_def)
  ultimately show "cnt_le (cnt s) (cnt (snd (go_try m f k s)))"
    by (auto simp: go_try_def m split: sum.splits intro: cnt_le_trans)
qed

lemma grow_exec:
  assumes "\<And>now. cnt_grows (body now)"
  shows "cnt_grows (exec E body)"
  unfolding cnt_grows_def
proof
  fix s
  have "cnt_le (cnt s) (cnt (snd (body t (s\<lparr>stmt := k\<rparr>))))" for t k
    using assms [unfolded cnt_grows_def, rule_format, of "s\<lparr>stmt := k\<rparr>" t] by simp
  then show "cnt_le (cnt s) (cnt (snd (exec E body s)))"
    by (simp add: exec_def Let_def split: fault.splits)
qed

lemma grow_if [grow_intros]: "cnt_grows m \<Longrightarrow> cnt_grows n \<Longrightarrow> cnt_grows (if b then m else n)"
  by simp

lemma grow_option [grow_intros]:
  "cnt_grows m \<Longrightarrow> (\<And>x. cnt_grows (k x)) \<Longrightarrow>
     cnt_grows (case v of None \<Rightarrow> m | Some x \<Rightarrow> k x)"
  by (cases v) simp_all

lemma grow_tx [grow_intros]:
  assumes "cnt_grows fn"
  shows "cnt_grows (tx_do E fn)"
  unfolding tx_do_def
proof (rule grow_try)
  show "cnt_grows (driver_call E ())"
    by (intro grow_read_only ro_driver_call)
  show "cnt_grows (\<lambda>s0. case fn s0 of (Inl e, s1) \<Rightarrow> (Inl e, rollback_to s0 s1)
      | (Inr a, s1) \<Rightarrow> commit E s0 a s1)" for x :: unit
    using assms
    by (auto simp: cnt_grows_def commit_def rollback_to_def Let_def
        split: prod.splits sum.splits fault.splits) (metis snd_conv)+
qed

text \<open>Whatever a statement's fate, its effect is that of its body or none.\<close>

lemma exec_snd:
  assumes "P (s\<lparr>stmt := Suc (stmt s)\<rparr>)"
    and "\<And>now. P (snd (body now (s\<lparr>stmt := Suc (stmt s)\<rparr>)))"
  shows "P (snd (exec E body s))"
  using assms by (simp add: exec_def Let_def split: fault.splits)

subsection \<open>Programs that answer\<close>

text \<open>A program that never fails, from any state: what a store without failures allows.\<close>

definition answers :: "('s \<Rightarrow> (gerr + 'a) \<times> 's) \<Rightarrow> bool" where
  "answers m \<longleftrightarrow> (\<forall>s. \<exists>v s'. m s = (Inr v, s'))"

lemma answersD: "answers m \<Longrightarrow> m s = (r, s') \<Longrightarrow> \<exists>v. r = Inr v"
  unfolding answers_def by (metis prod.inject)

lemma answers_ret [intro]: "answers (ret a)"
  by (simp add: answers_def ret_def)

lemma answers_try [intro]: "answers m \<Longrightarrow> (\<And>x. answers (k x)) \<Longrightarrow> answers (go_try m f k)"
  unfolding answers_def go_try_def by (metis (no_types, lifting) old.prod.case old.sum.simps(6))

lemma answers_exec:
  assumes "\<forall>n. fault E n = NoFault" and "\<And>now. answers (body now)"
  shows "answers (exec E body)"
  using assms unfolding answers_def exec_def by (simp add: Let_def)

lemma answers_query: "\<forall>n. fault E n = NoFault \<Longrightarrow> answers (query E sel)"
  unfolding query_def by (rule answers_exec) (auto simp: answers_def)

lemma answers_driver_call: "\<forall>n. fault E n = NoFault \<Longrightarrow> answers (driver_call E a)"
  unfolding driver_call_def by (rule answers_exec) auto

lemma answers_tx:
  assumes "\<forall>n. fault E n = NoFault" and "answers fn"
  shows "answers (tx_do E fn)"
  unfolding answers_def
proof
  fix s
  obtain v s1 where "fn (s\<lparr>stmt := Suc (stmt s)\<rparr>) = (Inr v, s1)" using assms(2) unfolding answers_def by blast
  with assms(1) have "tx_do E fn s = (Inr v, s1\<lparr>stmt := Suc (stmt s1)\<rparr>)" by (simp add: tx_do_Inr)
  then show "\<exists>v s'. tx_do E fn s = (Inr v, s')" by blast
qed

end
