(* ===== verification/User_Repo.thy ===== *)
theory User_Repo
  imports Database
begin

text \<open>
  \<open>internal/infrastructure/persistence/user.go\<close>: the users table behind the interface
  \<open>UserRepository\<close>. For each method, what a successful call returns and leaves, and that the
  reading methods leave the tables alone.
\<close>

subsection \<open>Statements and methods\<close>

definition sql_insert_user :: "env \<Rightarrow> string \<Rightarrow> string \<Rightarrow> string \<Rightarrow> int64 prog" where
  "sql_insert_user E email password_hash name = exec E (\<lambda>now s.
     let id = n_users (cnt s); s1 = s\<lparr>cnt := (cnt s)\<lparr>n_users := id + 1\<rparr>\<rparr>
     in if \<exists>u \<in> set (users (tbl s)). collate E (u_email u) = collate E email
        then (Inl (MySQLError duplicateEntryCode), s1)
        else (Inr id, s1\<lparr>tbl := (tbl s)\<lparr>users := users (tbl s) @
          [\<lparr>u_id = id, u_email = email, u_password_hash = password_hash, u_name = name,
            u_role = RoleUser, u_created_at = current_timestamp now\<rparr>]\<rparr>\<rparr>))"

definition UserRepo_Create :: "env \<Rightarrow> User \<Rightarrow> int64 prog" where
  "UserRepo_Create E u =
     go_try (sql_insert_user E (user_Email u) (user_PasswordHash u) (user_Name u))
       (\<lambda>e. if errors_as_mysql e = Some duplicateEntryCode then ErrEmailTaken
            else Wrap ''insert user'' e)
       (\<lambda>res. go_try (driver_call E res) (Wrap ''last insert id'') ret)"

definition UserRepo_ByID :: "env \<Rightarrow> int64 \<Rightarrow> User prog" where
  "UserRepo_ByID E userID =
     go_try (query E (\<lambda>_ T. find (\<lambda>r. u_id r = userID) (users T))) (Wrap ''select user by id'')
       (\<lambda>row. case row of
          None \<Rightarrow> fail ErrNotFound
        | Some r \<Rightarrow> ret \<lparr>user_CreatedAt = u_created_at r, user_Email = u_email r,
            user_Name = u_name r, user_PasswordHash = [], user_Role = u_role r, user_ID = u_id r\<rparr>)"

definition UserRepo_ByEmail :: "env \<Rightarrow> string \<Rightarrow> User prog" where
  "UserRepo_ByEmail E email =
     go_try (query E (\<lambda>_ T. find (\<lambda>r. collate E (u_email r) = collate E email) (users T)))
       (Wrap ''select user by email'')
       (\<lambda>row. case row of
          None \<Rightarrow> fail ErrNotFound
        | Some r \<Rightarrow> ret \<lparr>user_CreatedAt = u_created_at r, user_Email = u_email r,
            user_Name = u_name r, user_PasswordHash = u_password_hash r, user_Role = u_role r,
            user_ID = u_id r\<rparr>)"

text \<open>The driver reports the rows whose value changed, not the rows that matched.\<close>

definition sql_grant_admin :: "env \<Rightarrow> string \<Rightarrow> nat prog" where
  "sql_grant_admin E email = exec E (\<lambda>_ s.
     let hit = (\<lambda>r. collate E (u_email r) = collate E email)
     in (Inr (length (filter (\<lambda>r. hit r \<and> u_role r \<noteq> RoleAdmin) (users (tbl s)))),
         s\<lparr>tbl := (tbl s)\<lparr>users := map (\<lambda>r. if hit r then r\<lparr>u_role := RoleAdmin\<rparr> else r)
                                     (users (tbl s))\<rparr>\<rparr>))"

definition UserRepo_GrantAdmin :: "env \<Rightarrow> string \<Rightarrow> unit prog" where
  "UserRepo_GrantAdmin E email =
     go_try (sql_grant_admin E email) (Wrap ''grant admin'')
       (\<lambda>res. go_try (driver_call E res) (Wrap ''rows affected'')
         (\<lambda>affected. if affected = 0 then go_try (UserRepo_ByEmail E email) id (\<lambda>_. ret ())
                     else ret ()))"

subsection \<open>Behaviour\<close>

lemma UserRepo_Create_Inr:
  assumes "UserRepo_Create E u s = (Inr uid, s')"
  shows "uid = n_users (cnt s) \<and> cnt s' = (cnt s)\<lparr>n_users := uid + 1\<rparr> \<and>
    (\<forall>r \<in> set (users (tbl s)). collate E (u_email r) \<noteq> collate E (user_Email u)) \<and>
    tbl s' = (tbl s)\<lparr>users := users (tbl s) @
      [\<lparr>u_id = uid, u_email = user_Email u, u_password_hash = user_PasswordHash u,
        u_name = user_Name u, u_role = RoleUser,
        u_created_at = current_timestamp (clock E (stmt s))\<rparr>]\<rparr>"
  using assms
  by (auto simp: UserRepo_Create_def sql_insert_user_def go_try_Inr exec_Inr driver_call_Inr
      ret_def Let_def split: if_splits)

lemma UserRepo_ByID_Inr:
  "UserRepo_ByID E userID s = (Inr u, s') \<longleftrightarrow>
     fault E (stmt s) = NoFault \<and> s' = s\<lparr>stmt := Suc (stmt s)\<rparr> \<and>
     (\<exists>r. find (\<lambda>r. u_id r = userID) (users (tbl s)) = Some r \<and>
       u = \<lparr>user_CreatedAt = u_created_at r, user_Email = u_email r, user_Name = u_name r,
            user_PasswordHash = [], user_Role = u_role r, user_ID = u_id r\<rparr>)"
  by (auto simp: UserRepo_ByID_def go_try_Inr query_Inr ret_def fail_def split: option.splits)

lemma UserRepo_ByID_ro [ro_intros]: "read_only (UserRepo_ByID E userID)"
  unfolding UserRepo_ByID_def by (intro ro_intros)

lemma UserRepo_ByEmail_Inr:
  "UserRepo_ByEmail E email s = (Inr u, s') \<longleftrightarrow>
     fault E (stmt s) = NoFault \<and> s' = s\<lparr>stmt := Suc (stmt s)\<rparr> \<and>
     (\<exists>r. find (\<lambda>r. collate E (u_email r) = collate E email) (users (tbl s)) = Some r \<and>
       u = \<lparr>user_CreatedAt = u_created_at r, user_Email = u_email r, user_Name = u_name r,
            user_PasswordHash = u_password_hash r, user_Role = u_role r, user_ID = u_id r\<rparr>)"
  by (auto simp: UserRepo_ByEmail_def go_try_Inr query_Inr ret_def fail_def split: option.splits)

lemma UserRepo_ByEmail_ro [ro_intros]: "read_only (UserRepo_ByEmail E email)"
  unfolding UserRepo_ByEmail_def by (intro ro_intros)

end
