(* ===== verification/Team_Repo.thy ===== *)
theory Team_Repo
  imports Database
begin

text \<open>
  \<open>internal/infrastructure/persistence/team.go\<close>: teams and their members behind the interface
  \<open>TeamRepository\<close>. The primary key (team, user) and the two foreign keys decide the outcome of
  \<open>AddMember\<close>; the lemmas state it branch by branch.
\<close>

subsection \<open>Statements and methods\<close>

definition sql_insert_team :: "env \<Rightarrow> string \<Rightarrow> int64 \<Rightarrow> int64 prog" where
  "sql_insert_team E name created_by = exec E (\<lambda>now s.
     if created_by < 0 then (Inl (MySQLError outOfRangeCode), s)
     else let id = n_teams (cnt s); s1 = s\<lparr>cnt := (cnt s)\<lparr>n_teams := id + 1\<rparr>\<rparr>
       in if created_by \<notin> user_ids (tbl s) then (Inl (MySQLError foreignKeyViolationCode), s1)
          else (Inr id, s1\<lparr>tbl := (tbl s)\<lparr>teams := teams (tbl s) @
            [\<lparr>t_id = id, t_name = name, t_created_by = created_by,
              t_created_at = current_timestamp now\<rparr>]\<rparr>\<rparr>))"

definition TeamRepo_Create :: "env \<Rightarrow> string \<Rightarrow> int64 \<Rightarrow> int64 prog" where
  "TeamRepo_Create E name creatorID =
     go_try (sql_insert_team E name creatorID)
       (\<lambda>e. if errors_as_mysql e = Some foreignKeyViolationCode then ErrNotFound
            else Wrap ''insert team'' e)
       (\<lambda>res. go_try (driver_call E res) (Wrap ''last insert id'') ret)"

definition sel_teams_by_user :: "int64 \<Rightarrow> tables \<Rightarrow> TeamMembership list" where
  "sel_teams_by_user userID T =
     sort_key tm_ID (concat (map (\<lambda>m.
       map (\<lambda>t. \<lparr>tm_Name = t_name t, tm_Role = m_role m, tm_ID = t_id t\<rparr>)
           (filter (\<lambda>t. t_id t = m_team_id m) (teams T)))
       (filter (\<lambda>m. m_user_id m = userID) (team_members T))))"

definition TeamRepo_ListByUser :: "env \<Rightarrow> int64 \<Rightarrow> TeamMembership list prog" where
  "TeamRepo_ListByUser E userID =
     go_try (query E (\<lambda>_. sel_teams_by_user userID)) (Wrap ''select teams by user'')
       (\<lambda>rows. go_try (driver_call E rows) (Wrap ''rows'') ret)"

definition TeamRepo_MemberRole :: "env \<Rightarrow> int64 \<Rightarrow> int64 \<Rightarrow> TeamRole prog" where
  "TeamRepo_MemberRole E teamID userID =
     go_try (query E (\<lambda>_ T. find (\<lambda>r. m_team_id r = teamID \<and> m_user_id r = userID) (team_members T)))
       (Wrap ''select member role'')
       (\<lambda>row. case row of None \<Rightarrow> fail ErrNotFound | Some r \<Rightarrow> ret (m_role r))"

definition team_role_enum :: "string list" where
  "team_role_enum = [TeamRoleOwner, TeamRoleAdmin, TeamRoleMember]"

definition sql_insert_member :: "env \<Rightarrow> int64 \<Rightarrow> int64 \<Rightarrow> string \<Rightarrow> unit prog" where
  "sql_insert_member E teamID userID role = exec E (\<lambda>now s.
     if teamID < 0 \<or> userID < 0 then (Inl (MySQLError outOfRangeCode), s)
     else if role \<notin> set team_role_enum then (Inl (MySQLError dataTruncatedCode), s)
     else if (teamID, userID) \<in> member_pairs (tbl s) then (Inl (MySQLError duplicateEntryCode), s)
     else if teamID \<notin> team_ids (tbl s) \<or> userID \<notin> user_ids (tbl s)
       then (Inl (MySQLError foreignKeyViolationCode), s)
     else (Inr (), s\<lparr>tbl := (tbl s)\<lparr>team_members := team_members (tbl s) @
       [\<lparr>m_team_id = teamID, m_user_id = userID, m_role = role,
         m_joined_at = current_timestamp now\<rparr>]\<rparr>\<rparr>))"

definition TeamRepo_AddMember :: "env \<Rightarrow> int64 \<Rightarrow> int64 \<Rightarrow> TeamRole \<Rightarrow> unit prog" where
  "TeamRepo_AddMember E teamID userID role =
     go_try (sql_insert_member E teamID userID role)
       (\<lambda>e. case errors_as_mysql e of
          Some n \<Rightarrow> if n = duplicateEntryCode then ErrAlreadyMember
                    else if n = foreignKeyViolationCode then ErrNotFound
                    else Wrap ''insert member'' e
        | None \<Rightarrow> Wrap ''insert member'' e)
       ret"

subsection \<open>Behaviour\<close>

lemma TeamRepo_Create_Inr:
  assumes "TeamRepo_Create E name creatorID s = (Inr tid, s')"
  shows "tid = n_teams (cnt s) \<and> cnt s' = (cnt s)\<lparr>n_teams := tid + 1\<rparr> \<and>
    creatorID \<in> user_ids (tbl s) \<and>
    tbl s' = (tbl s)\<lparr>teams := teams (tbl s) @
      [\<lparr>t_id = tid, t_name = name, t_created_by = creatorID,
        t_created_at = current_timestamp (clock E (stmt s))\<rparr>]\<rparr>"
  using assms
  by (auto simp: TeamRepo_Create_def sql_insert_team_def go_try_Inr exec_Inr driver_call_Inr
      ret_def Let_def split: if_splits)

lemma TeamRepo_MemberRole_Inr:
  "TeamRepo_MemberRole E teamID userID s = (Inr role, s') \<longleftrightarrow>
     fault E (stmt s) = NoFault \<and> s' = s\<lparr>stmt := Suc (stmt s)\<rparr> \<and>
     (\<exists>r. find (\<lambda>r. m_team_id r = teamID \<and> m_user_id r = userID) (team_members (tbl s)) = Some r \<and>
       role = m_role r)"
  by (auto simp: TeamRepo_MemberRole_def go_try_Inr query_Inr ret_def fail_def split: option.splits)

lemma TeamRepo_MemberRole_ro [ro_intros]: "read_only (TeamRepo_MemberRole E teamID userID)"
  unfolding TeamRepo_MemberRole_def by (intro ro_intros)

lemma TeamRepo_ListByUser_ro [ro_intros]: "read_only (TeamRepo_ListByUser E userID)"
  unfolding TeamRepo_ListByUser_def by (intro ro_intros)

lemma TeamRepo_AddMember_Inr:
  assumes "TeamRepo_AddMember E teamID userID role s = (Inr u, s')"
  shows "cnt s' = cnt s \<and> role \<in> set team_role_enum \<and> (teamID, userID) \<notin> member_pairs (tbl s) \<and>
    teamID \<in> team_ids (tbl s) \<and> userID \<in> user_ids (tbl s) \<and>
    tbl s' = (tbl s)\<lparr>team_members := team_members (tbl s) @
      [\<lparr>m_team_id = teamID, m_user_id = userID, m_role = role,
        m_joined_at = current_timestamp (clock E (stmt s))\<rparr>]\<rparr>"
  using assms
  by (auto simp: TeamRepo_AddMember_def sql_insert_member_def go_try_Inr exec_Inr ret_def
      split: if_splits)

lemma TeamRepo_AddMember_duplicate:
  assumes "fault E (stmt s) = NoFault" and "0 \<le> teamID" and "0 \<le> userID"
    and "role \<in> set team_role_enum" and "(teamID, userID) \<in> member_pairs (tbl s)"
  shows "TeamRepo_AddMember E teamID userID role s = (Inl ErrAlreadyMember, s\<lparr>stmt := Suc (stmt s)\<rparr>)"
  using assms by (simp add: TeamRepo_AddMember_def sql_insert_member_def go_try_def exec_def)

subsection \<open>Counters\<close>

lemma TeamRepo_Create_grows [grow_intros]: "cnt_grows (TeamRepo_Create E name creatorID)"
proof -
  have "cnt_grows (sql_insert_team E name creatorID)"
    unfolding sql_insert_team_def by (rule grow_exec) (simp add: cnt_grows_def cnt_le_def Let_def)
  then show ?thesis
    unfolding TeamRepo_Create_def by (rule grow_try) (intro grow_read_only ro_intros)
qed

lemma TeamRepo_AddMember_grows [grow_intros]: "cnt_grows (TeamRepo_AddMember E teamID userID role)"
proof -
  have "cnt_grows (sql_insert_member E teamID userID role)"
    unfolding sql_insert_member_def by (rule grow_exec) (simp add: cnt_grows_def)
  then show ?thesis
    unfolding TeamRepo_AddMember_def by (rule grow_try) (intro grow_read_only ro_intros)
qed

end
