(* ===== verification/Task_Repo.thy ===== *)
theory Task_Repo
  imports Database
begin

text \<open>
  \<open>internal/infrastructure/persistence/task.go\<close>: tasks and their audit trail behind the interface
  \<open>TaskRepository\<close>. \<open>Update\<close> writes the row and one history row per field that moved;
  the lemmas give the exact rows a successful \<open>Create\<close> and \<open>Update\<close> leave, whatever the number of
  changed fields.
\<close>

subsection \<open>Helpers\<close>

definition go_now :: "env \<Rightarrow> int prog" where
  "go_now E s = (Inr (wall E (stmt s)), s)"

definition newChangeGroupID :: "env \<Rightarrow> string prog" where
  "newChangeGroupID E s = (Inr (EncodeToString (map (rnd E (stmt s)) [0..<16])), s)"

fun formatID :: "int64 option \<Rightarrow> string" where
  "formatID None = []"
| "formatID (Some i) = FormatInt i"

record FieldChange =
  fc_Field :: string
  fc_OldValue :: string
  fc_NewValue :: string

definition addChange :: "FieldChange list \<Rightarrow> string \<Rightarrow> string \<Rightarrow> string \<Rightarrow> FieldChange list" where
  "addChange changes field oldV newV =
     (if oldV = newV then changes
      else changes @ [\<lparr>fc_Field = field, fc_OldValue = oldV, fc_NewValue = newV\<rparr>])"

definition null_string :: "string option \<Rightarrow> string" where
  "null_string v = (case v of None \<Rightarrow> [] | Some x \<Rightarrow> x)"

lemma null_string_simps [simp]: "null_string None = []" "null_string (Some x) = x"
  by (simp_all add: null_string_def)

definition scan_task :: "task_row \<Rightarrow> Task" where
  "scan_task r = \<lparr>task_CreatedAt = k_created_at r, task_UpdatedAt = k_updated_at r,
     task_CompletedAt = k_completed_at r, task_AssigneeID = k_assignee_id r,
     task_Title = k_title r, task_Description = null_string (k_description r),
     task_Status = k_status r, task_ID = k_id r, task_TeamID = k_team_id r,
     task_CreatedBy = k_created_by r\<rparr>"

definition task_status_enum :: "string list" where
  "task_status_enum = [TaskStatusTodo, TaskStatusInProgress, TaskStatusDone]"

subsection \<open>Create\<close>

definition sql_insert_task :: "env \<Rightarrow> Task \<Rightarrow> int option \<Rightarrow> int64 prog" where
  "sql_insert_task E t completedAt = exec E (\<lambda>now s.
     if task_TeamID t < 0 \<or> task_CreatedBy t < 0 \<or> (\<exists>a \<in> set_option (task_AssigneeID t). a < 0)
       then (Inl (MySQLError outOfRangeCode), s)
     else if task_Status t \<notin> set task_status_enum then (Inl (MySQLError dataTruncatedCode), s)
     else let i = n_tasks (cnt s); s1 = s\<lparr>cnt := (cnt s)\<lparr>n_tasks := i + 1\<rparr>\<rparr>
       in if task_TeamID t \<notin> team_ids (tbl s) \<or> task_CreatedBy t \<notin> user_ids (tbl s) \<or>
             (\<exists>a \<in> set_option (task_AssigneeID t). a \<notin> user_ids (tbl s))
          then (Inl (MySQLError foreignKeyViolationCode), s1)
          else (Inr i, s1\<lparr>tbl := (tbl s)\<lparr>tasks := tasks (tbl s) @
            [\<lparr>k_id = i, k_team_id = task_TeamID t, k_title = task_Title t,
              k_description = Some (task_Description t), k_status = task_Status t,
              k_assignee_id = task_AssigneeID t, k_created_by = task_CreatedBy t,
              k_created_at = current_timestamp now, k_updated_at = current_timestamp now,
              k_completed_at = map_option timestamp_round completedAt\<rparr>]\<rparr>\<rparr>))"

definition sql_insert_history ::
  "env \<Rightarrow> int64 \<Rightarrow> int64 \<Rightarrow> string \<Rightarrow> string \<Rightarrow> string option \<Rightarrow> string option \<Rightarrow> unit prog" where
  "sql_insert_history E taskID changedBy groupID field oldV newV = exec E (\<lambda>now s.
     if taskID < 0 \<or> changedBy < 0 then (Inl (MySQLError outOfRangeCode), s)
     else let i = n_history (cnt s); s1 = s\<lparr>cnt := (cnt s)\<lparr>n_history := i + 1\<rparr>\<rparr>
       in if taskID \<notin> task_ids (tbl s) \<or> changedBy \<notin> user_ids (tbl s)
          then (Inl (MySQLError foreignKeyViolationCode), s1)
          else (Inr (), s1\<lparr>tbl := (tbl s)\<lparr>task_history := task_history (tbl s) @
            [\<lparr>h_id = i, h_task_id = taskID, h_changed_by = changedBy,
              h_change_group_id = groupID, h_field = field, h_old_value = oldV,
              h_new_value = newV, h_changed_at = current_timestamp now\<rparr>]\<rparr>\<rparr>))"

definition initial_completed_at :: "env \<Rightarrow> Task \<Rightarrow> int option prog" where
  "initial_completed_at E t =
     (if task_Status t = TaskStatusDone then go_try (go_now E) id (\<lambda>now. ret (Some now))
      else ret None)"

definition TaskRepo_Create :: "env \<Rightarrow> Task \<Rightarrow> int64 prog" where
  "TaskRepo_Create E t =
     go_try (initial_completed_at E t) id
       (\<lambda>completedAt.
     go_try (sql_insert_task E t completedAt)
       (\<lambda>e. if errors_as_mysql e = Some foreignKeyViolationCode then ErrNotFound
            else Wrap ''insert task'' e)
       (\<lambda>res.
     go_try (driver_call E res) (Wrap ''last insert id'')
       (\<lambda>i.
     go_try (newChangeGroupID E) id
       (\<lambda>groupID.
     go_try (sql_insert_history E i (task_CreatedBy t) groupID ChangeFieldCreated None None)
       (Wrap ''insert created event'')
       (\<lambda>_. ret i)))))"

subsection \<open>ByID and List\<close>

definition TaskRepo_ByID :: "env \<Rightarrow> int64 \<Rightarrow> Task prog" where
  "TaskRepo_ByID E taskID =
     go_try (query E (\<lambda>_ T. find (\<lambda>r. k_id r = taskID) (tasks T))) (Wrap ''scan task'')
       (\<lambda>row. case row of None \<Rightarrow> fail ErrNotFound | Some r \<Rightarrow> ret (scan_task r))"

text \<open>The \<open>WHERE\<close> clause \<open>List\<close> builds, then \<open>ORDER BY id LIMIT ?\<close>. The index hints choose a plan only.\<close>

definition task_filter_match :: "TaskFilter \<Rightarrow> task_row \<Rightarrow> bool" where
  "task_filter_match f r \<longleftrightarrow> k_team_id r = tf_TeamID f \<and>
     (case tf_Status f of None \<Rightarrow> True | Some st \<Rightarrow> k_status r = st) \<and>
     (case tf_AssigneeID f of None \<Rightarrow> True | Some a \<Rightarrow> k_assignee_id r = Some a) \<and>
     (tf_AfterID f > 0 \<longrightarrow> k_id r > tf_AfterID f)"

definition sel_task_list :: "TaskFilter \<Rightarrow> tables \<Rightarrow> task_row list" where
  "sel_task_list f T =
     take (nat (tf_Limit f)) (sort_key k_id (filter (task_filter_match f) (tasks T)))"

definition TaskRepo_List :: "env \<Rightarrow> TaskFilter \<Rightarrow> Task list prog" where
  "TaskRepo_List E f =
     go_try (if tf_Limit f < 0 then fail (OtherErr ''negative limit'')
             else query E (\<lambda>_. sel_task_list f)) (Wrap ''select tasks'')
       (\<lambda>rows. go_try (driver_call E (map scan_task rows)) (Wrap ''rows'') ret)"

subsection \<open>Update\<close>

text \<open>
  \<open>ON UPDATE CURRENT_TIMESTAMP\<close> moves \<open>updated_at\<close> only when some column takes a new value.
\<close>

definition set_task_row :: "Task \<Rightarrow> int option \<Rightarrow> int \<Rightarrow> task_row \<Rightarrow> task_row" where
  "set_task_row t completedAt now r =
     (let r' = r\<lparr>k_title := task_Title t, k_description := Some (task_Description t),
                 k_status := task_Status t, k_assignee_id := task_AssigneeID t,
                 k_completed_at := map_option timestamp_round completedAt\<rparr>
      in if r' = r then r else r'\<lparr>k_updated_at := current_timestamp now\<rparr>)"

definition sql_update_task :: "env \<Rightarrow> Task \<Rightarrow> int option \<Rightarrow> unit prog" where
  "sql_update_task E t completedAt = exec E (\<lambda>now s.
     if task_ID t \<notin> task_ids (tbl s) then (Inr (), s)
     else if task_Status t \<notin> set task_status_enum then (Inl (MySQLError dataTruncatedCode), s)
     else if \<exists>a \<in> set_option (task_AssigneeID t). a < 0 then (Inl (MySQLError outOfRangeCode), s)
     else if \<exists>a \<in> set_option (task_AssigneeID t). a \<notin> user_ids (tbl s)
       then (Inl (MySQLError foreignKeyViolationCode), s)
     else (Inr (), s\<lparr>tbl := (tbl s)\<lparr>tasks := map (\<lambda>r. if k_id r = task_ID t
               then set_task_row t completedAt now r else r) (tasks (tbl s))\<rparr>\<rparr>))"

fun insert_changes :: "env \<Rightarrow> int64 \<Rightarrow> int64 \<Rightarrow> string \<Rightarrow> FieldChange list \<Rightarrow> unit prog" where
  "insert_changes E taskID actorID groupID [] = ret ()"
| "insert_changes E taskID actorID groupID (ch # chs) =
     go_try (sql_insert_history E taskID actorID groupID (fc_Field ch)
               (Some (fc_OldValue ch)) (Some (fc_NewValue ch))) (Wrap ''insert history'')
       (\<lambda>_. insert_changes E taskID actorID groupID chs)"

definition task_changes :: "task_row \<Rightarrow> Task \<Rightarrow> FieldChange list" where
  "task_changes old t =
     addChange (addChange (addChange (addChange [] ''title'' (k_title old) (task_Title t))
       ''description'' (null_string (k_description old)) (task_Description t))
       ''status'' (k_status old) (task_Status t))
       ''assignee_id'' (formatID (k_assignee_id old)) (formatID (task_AssigneeID t))"

definition new_completed_at :: "env \<Rightarrow> task_row \<Rightarrow> Task \<Rightarrow> int option prog" where
  "new_completed_at E old t =
     (if task_Status t = TaskStatusDone \<and> k_status old = TaskStatusDone then ret (k_completed_at old)
      else if task_Status t = TaskStatusDone then go_try (go_now E) id (\<lambda>now. ret (Some now))
      else ret None)"

definition TaskRepo_Update :: "env \<Rightarrow> int64 \<Rightarrow> Task \<Rightarrow> Task prog" where
  "TaskRepo_Update E actorID t =
     go_try (query E (\<lambda>_ T. find (\<lambda>r. k_id r = task_ID t) (tasks T))) (Wrap ''lock task'')
       (\<lambda>row. case row of
          None \<Rightarrow> fail ErrNotFound
        | Some old \<Rightarrow>
     go_try (new_completed_at E old t) id
       (\<lambda>completedAt.
     go_try (sql_update_task E t completedAt) (Wrap ''update task'')
       (\<lambda>_.
     go_try (newChangeGroupID E) id
       (\<lambda>groupID.
     go_try (insert_changes E (task_ID t) actorID groupID (task_changes old t)) id
       (\<lambda>_.
     go_try (query E (\<lambda>_ T. find (\<lambda>r. k_id r = task_ID t) (tasks T))) (Wrap ''scan updated task'')
       (\<lambda>row'. case row' of
          None \<Rightarrow> fail (Wrap ''scan updated task'' (OtherErr ''sql: no rows in result set''))
        | Some r \<Rightarrow> ret (scan_task r)))))))"

subsection \<open>History\<close>

definition scan_change :: "history_row \<Rightarrow> TaskChange" where
  "scan_change h = \<lparr>tc_ChangedAt = h_changed_at h, tc_GroupID = h_change_group_id h,
     tc_Field = h_field h, tc_OldValue = null_string (h_old_value h),
     tc_NewValue = null_string (h_new_value h), tc_ChangedBy = h_changed_by h\<rparr>"

definition sel_history :: "int64 \<Rightarrow> tables \<Rightarrow> history_row list" where
  "sel_history taskID T = sort_key h_id (filter (\<lambda>h. h_task_id h = taskID) (task_history T))"

definition TaskRepo_History :: "env \<Rightarrow> int64 \<Rightarrow> TaskChange list prog" where
  "TaskRepo_History E taskID =
     go_try (query E (\<lambda>_. sel_history taskID)) (Wrap ''select history'')
       (\<lambda>rows. go_try (driver_call E (map scan_change rows)) (Wrap ''rows'') ret)"

subsection \<open>Behaviour\<close>

lemma go_now_Inr [simp]: "go_now E s = (Inr t, s') \<longleftrightarrow> t = wall E (stmt s) \<and> s' = s"
  by (auto simp: go_now_def)

lemma newChangeGroupID_Inr [simp]:
  "newChangeGroupID E s = (Inr g, s') \<longleftrightarrow> g = EncodeToString (map (rnd E (stmt s)) [0..<16]) \<and> s' = s"
  by (auto simp: newChangeGroupID_def)

lemma go_now_ro [ro_intros]: "read_only (go_now E)"
  and newChangeGroupID_ro [ro_intros]: "read_only (newChangeGroupID E)"
  by (simp_all add: read_only_def go_now_def newChangeGroupID_def)

lemma new_completed_at_ro [ro_intros]: "read_only (new_completed_at E old t)"
  unfolding new_completed_at_def by (intro ro_intros)

lemma TaskRepo_ByID_ro [ro_intros]: "read_only (TaskRepo_ByID E taskID)"
  unfolding TaskRepo_ByID_def by (intro ro_intros)

lemma TaskRepo_List_ro [ro_intros]: "read_only (TaskRepo_List E f)"
  unfolding TaskRepo_List_def by (intro ro_intros)

lemma TaskRepo_History_ro [ro_intros]: "read_only (TaskRepo_History E taskID)"
  unfolding TaskRepo_History_def by (intro ro_intros)

lemma TaskRepo_ByID_Inr:
  "TaskRepo_ByID E taskID s = (Inr t, s') \<longleftrightarrow>
     fault E (stmt s) = NoFault \<and> s' = s\<lparr>stmt := Suc (stmt s)\<rparr> \<and>
     (\<exists>r. find (\<lambda>r. k_id r = taskID) (tasks (tbl s)) = Some r \<and> t = scan_task r)"
  by (auto simp: TaskRepo_ByID_def go_try_Inr query_Inr ret_def fail_def split: option.splits)

lemma TaskRepo_List_Inr:
  "TaskRepo_List E f s = (Inr ts, s') \<Longrightarrow>
     ts = map scan_task (sel_task_list f (tbl s)) \<and> 0 \<le> tf_Limit f"
  by (auto simp: TaskRepo_List_def go_try_Inr query_Inr driver_call_Inr ret_def fail_def split: if_splits)

lemma TaskRepo_History_Inr:
  "TaskRepo_History E taskID s = (Inr hs, s') \<Longrightarrow> hs = map scan_change (sel_history taskID (tbl s))"
  by (auto simp: TaskRepo_History_def go_try_Inr query_Inr driver_call_Inr ret_def)

text \<open>The rows a list of changes becomes: consecutive ids, one group, each at its own time.\<close>

definition history_rows ::
  "int64 \<Rightarrow> int64 \<Rightarrow> int64 \<Rightarrow> string \<Rightarrow> FieldChange list \<Rightarrow> history_row list \<Rightarrow> bool" where
  "history_rows n taskID actorID g chs hs \<longleftrightarrow> length hs = length chs \<and>
     (\<forall>i < length chs. h_id (hs ! i) = n + int i \<and> h_task_id (hs ! i) = taskID \<and>
        h_changed_by (hs ! i) = actorID \<and> h_change_group_id (hs ! i) = g \<and>
        h_field (hs ! i) = fc_Field (chs ! i) \<and> h_old_value (hs ! i) = Some (fc_OldValue (chs ! i)) \<and>
        h_new_value (hs ! i) = Some (fc_NewValue (chs ! i)))"

lemma sql_insert_history_Inr:
  assumes "sql_insert_history E taskID by' g f ov nv s = (Inr u, s')"
  shows "taskID \<in> task_ids (tbl s) \<and> by' \<in> user_ids (tbl s) \<and>
    cnt s' = (cnt s)\<lparr>n_history := n_history (cnt s) + 1\<rparr> \<and>
    tbl s' = (tbl s)\<lparr>task_history := task_history (tbl s) @
      [\<lparr>h_id = n_history (cnt s), h_task_id = taskID, h_changed_by = by',
        h_change_group_id = g, h_field = f, h_old_value = ov,
        h_new_value = nv, h_changed_at = current_timestamp (clock E (stmt s))\<rparr>]\<rparr>"
  using assms by (auto simp: sql_insert_history_def exec_Inr Let_def split: if_splits)

lemma insert_changes_Inr:
  assumes "insert_changes E taskID actorID g chs s = (Inr u, s')"
  shows "\<exists>hs. history_rows (n_history (cnt s)) taskID actorID g chs hs \<and>
    cnt s' = (cnt s)\<lparr>n_history := n_history (cnt s) + int (length chs)\<rparr> \<and>
    tbl s' = (tbl s)\<lparr>task_history := task_history (tbl s) @ hs\<rparr> \<and>
    (chs \<noteq> [] \<longrightarrow> taskID \<in> task_ids (tbl s) \<and> actorID \<in> user_ids (tbl s))"
  using assms
proof (induction chs arbitrary: s)
  case Nil
  then show ?case by (simp add: history_rows_def ret_def)
next
  case (Cons ch chs)
  then obtain s1 where h: "sql_insert_history E taskID actorID g (fc_Field ch)
        (Some (fc_OldValue ch)) (Some (fc_NewValue ch)) s = (Inr (), s1)"
      and rest: "insert_changes E taskID actorID g chs s1 = (Inr u, s')"
    by (auto simp: go_try_Inr)
  note h = sql_insert_history_Inr [OF h]
  from Cons.IH [OF rest] obtain hs where hs:
    "history_rows (n_history (cnt s1)) taskID actorID g chs hs"
    "cnt s' = (cnt s1)\<lparr>n_history := n_history (cnt s1) + int (length chs)\<rparr>"
    "tbl s' = (tbl s1)\<lparr>task_history := task_history (tbl s1) @ hs\<rparr>"
    by blast
  let ?h = "\<lparr>h_id = n_history (cnt s), h_task_id = taskID, h_changed_by = actorID,
        h_change_group_id = g, h_field = fc_Field ch, h_old_value = Some (fc_OldValue ch),
        h_new_value = Some (fc_NewValue ch), h_changed_at = current_timestamp (clock E (stmt s))\<rparr>"
  have "history_rows (n_history (cnt s)) taskID actorID g (ch # chs) (?h # hs)"
    using hs(1) h by (auto simp: history_rows_def nth_Cons split: nat.splits)
  with hs h show ?case by (intro exI [of _ "?h # hs"]) (simp add: algebra_simps)
qed

lemma TaskRepo_Create_Inr:
  assumes "TaskRepo_Create E t s = (Inr i, s')"
  obtains completedAt g now1 now2 where "i = n_tasks (cnt s)"
    and "cnt s' = (cnt s)\<lparr>n_tasks := i + 1, n_history := n_history (cnt s) + 1\<rparr>"
    and "task_TeamID t \<in> team_ids (tbl s)" and "task_CreatedBy t \<in> user_ids (tbl s)"
    and "task_Status t \<in> set task_status_enum"
    and "completedAt \<noteq> None \<longleftrightarrow> task_Status t = TaskStatusDone"
    and "length g = 32"
    and "tbl s' = (tbl s)\<lparr>tasks := tasks (tbl s) @
            [\<lparr>k_id = i, k_team_id = task_TeamID t, k_title = task_Title t,
              k_description = Some (task_Description t), k_status = task_Status t,
              k_assignee_id = task_AssigneeID t, k_created_by = task_CreatedBy t,
              k_created_at = now1, k_updated_at = now1,
              k_completed_at = completedAt\<rparr>],
          task_history := task_history (tbl s) @
            [\<lparr>h_id = n_history (cnt s), h_task_id = i, h_changed_by = task_CreatedBy t,
              h_change_group_id = g, h_field = ChangeFieldCreated, h_old_value = None,
              h_new_value = None, h_changed_at = now2\<rparr>]\<rparr>"
proof -
  obtain c s1 s2 where c: "initial_completed_at E t s = (Inr c, s1)"
    and ins: "sql_insert_task E t c s1 = (Inr i, s2)"
    and h: "sql_insert_history E i (task_CreatedBy t)
        (EncodeToString (map (rnd E (Suc (stmt s2))) [0..<16])) ChangeFieldCreated None None
        (s2\<lparr>stmt := Suc (stmt s2)\<rparr>) = (Inr (), s')"
    using assms by (auto simp: TaskRepo_Create_def go_try_Inr driver_call_Inr ret_def)
  have c': "c \<noteq> None \<longleftrightarrow> task_Status t = TaskStatusDone" and s1: "s1 = s"
    using c by (auto simp: initial_completed_at_def go_try_Inr ret_def split: if_splits)
  have ins': "i = n_tasks (cnt s)" "cnt s2 = (cnt s)\<lparr>n_tasks := i + 1\<rparr>"
    "task_TeamID t \<in> team_ids (tbl s)" "task_CreatedBy t \<in> user_ids (tbl s)"
    "task_Status t \<in> set task_status_enum"
    "tbl s2 = (tbl s)\<lparr>tasks := tasks (tbl s) @
            [\<lparr>k_id = i, k_team_id = task_TeamID t, k_title = task_Title t,
              k_description = Some (task_Description t), k_status = task_Status t,
              k_assignee_id = task_AssigneeID t, k_created_by = task_CreatedBy t,
              k_created_at = current_timestamp (clock E (stmt s)),
              k_updated_at = current_timestamp (clock E (stmt s)),
              k_completed_at = map_option timestamp_round c\<rparr>]\<rparr>"
    using ins unfolding s1 by (auto simp: sql_insert_task_def exec_Inr Let_def split: if_splits)
  note h' = sql_insert_history_Inr [OF h]
  show ?thesis
    by (rule that [of "map_option timestamp_round c"
          "EncodeToString (map (rnd E (Suc (stmt s2))) [0..<16])"
          "current_timestamp (clock E (Suc (stmt s2)))" "current_timestamp (clock E (stmt s))"])
      (use ins' h' c' in \<open>simp_all add: length_EncodeToString\<close>)
qed

definition completed_after :: "task_row \<Rightarrow> Task \<Rightarrow> int \<Rightarrow> int option" where
  "completed_after old t now =
     (if task_Status t \<noteq> TaskStatusDone then None
      else if k_status old = TaskStatusDone then k_completed_at old else Some now)"

lemma new_completed_at_Inr:
  "new_completed_at E old t s = (Inr c, s') \<Longrightarrow> c = completed_after old t (wall E (stmt s)) \<and> s' = s"
  by (auto simp: new_completed_at_def completed_after_def go_try_Inr ret_def split: if_splits)

definition updated_tasks :: "Task \<Rightarrow> int option \<Rightarrow> int \<Rightarrow> task_row list \<Rightarrow> task_row list" where
  "updated_tasks t completedAt now rs =
     map (\<lambda>r. if k_id r = task_ID t then set_task_row t completedAt now r else r) rs"

lemma find_task_ids: "find (\<lambda>r. k_id r = i) (tasks T) = Some r \<Longrightarrow> i \<in> task_ids T"
  by (auto simp: task_ids_def find_Some_iff)

lemma sql_update_task_Inr:
  assumes "sql_update_task E t c s = (Inr u, s')" and "task_ID t \<in> task_ids (tbl s)"
  shows "task_Status t \<in> set task_status_enum \<and>
    (\<forall>a. task_AssigneeID t = Some a \<longrightarrow> a \<in> user_ids (tbl s)) \<and> cnt s' = cnt s \<and>
    tbl s' = (tbl s)\<lparr>tasks := updated_tasks t c (clock E (stmt s)) (tasks (tbl s))\<rparr>"
  using assms by (auto simp: sql_update_task_def updated_tasks_def exec_Inr split: if_splits)

lemma TaskRepo_Update_Inr:
  assumes "TaskRepo_Update E actorID t s = (Inr u, s')"
  obtains old w now g hs r where "find (\<lambda>r. k_id r = task_ID t) (tasks (tbl s)) = Some old"
    and "task_Status t \<in> set task_status_enum"
    and "\<forall>a. task_AssigneeID t = Some a \<longrightarrow> a \<in> user_ids (tbl s)"
    and "history_rows (n_history (cnt s)) (task_ID t) actorID g (task_changes old t) hs"
    and "length g = 32"
    and "task_changes old t \<noteq> [] \<longrightarrow> actorID \<in> user_ids (tbl s)"
    and "cnt s' = (cnt s)\<lparr>n_history := n_history (cnt s) + int (length (task_changes old t))\<rparr>"
    and "tbl s' = (tbl s)\<lparr>tasks := updated_tasks t (completed_after old t w) now (tasks (tbl s)),
           task_history := task_history (tbl s) @ hs\<rparr>"
    and "find (\<lambda>r. k_id r = task_ID t) (tasks (tbl s')) = Some r" and "u = scan_task r"
proof -
  let ?s1 = "s\<lparr>stmt := Suc (stmt s)\<rparr>"
  from assms obtain old c s1 s2 s4 r where
    old: "find (\<lambda>r. k_id r = task_ID t) (tasks (tbl s)) = Some old"
    and c: "new_completed_at E old t ?s1 = (Inr c, s1)"
    and upd: "sql_update_task E t c s1 = (Inr (), s2)"
    and ch: "insert_changes E (task_ID t) actorID (EncodeToString (map (rnd E (stmt s2)) [0..<16]))
      (task_changes old t) s2 = (Inr (), s4)"
    and r: "find (\<lambda>r. k_id r = task_ID t) (tasks (tbl s4)) = Some r" "u = scan_task r"
      "s' = s4\<lparr>stmt := Suc (stmt s4)\<rparr>"
    by (auto simp: TaskRepo_Update_def go_try_Inr query_Inr ret_def fail_def split: option.splits)
  let ?g = "EncodeToString (map (rnd E (stmt s2)) [0..<16])"
  from new_completed_at_Inr [OF c] have c': "c = completed_after old t (wall E (Suc (stmt s)))"
    and s1: "s1 = ?s1" by simp_all
  note upd = upd [unfolded s1]
  have "task_ID t \<in> task_ids (tbl ?s1)" using find_task_ids [OF old] by simp
  note upd' = sql_update_task_Inr [OF upd this]
  from insert_changes_Inr [OF ch] obtain hs where hs:
    "history_rows (n_history (cnt s2)) (task_ID t) actorID ?g (task_changes old t) hs"
    "cnt s4 = (cnt s2)\<lparr>n_history := n_history (cnt s2) + int (length (task_changes old t))\<rparr>"
    "tbl s4 = (tbl s2)\<lparr>task_history := task_history (tbl s2) @ hs\<rparr>"
    "task_changes old t \<noteq> [] \<longrightarrow> actorID \<in> user_ids (tbl s2)"
    by blast
  have "length ?g = 32" by (simp add: length_EncodeToString)
  with old upd' hs c' r show ?thesis
    by (intro that [of old ?g hs "wall E (Suc (stmt s))" "clock E (Suc (stmt s))" r])
      (simp_all add: user_ids_def)
qed

subsection \<open>Counters\<close>

lemma grow_insert_task [grow_intros]: "cnt_grows (sql_insert_task E t c)"
  unfolding sql_insert_task_def by (rule grow_exec) (simp add: cnt_grows_def cnt_le_def Let_def)

lemma grow_insert_history [grow_intros]: "cnt_grows (sql_insert_history E i j g f ov nv)"
  unfolding sql_insert_history_def by (rule grow_exec) (simp add: cnt_grows_def cnt_le_def Let_def)

lemma grow_update_task [grow_intros]: "cnt_grows (sql_update_task E t c)"
  unfolding sql_update_task_def by (rule grow_exec) (simp add: cnt_grows_def cnt_le_def Let_def)

lemma grow_insert_changes [grow_intros]: "cnt_grows (insert_changes E i j g chs)"
  by (induction chs) (simp_all add: grow_read_only ro_ret grow_try grow_insert_history)

lemma initial_completed_at_ro [ro_intros]: "read_only (initial_completed_at E t)"
  unfolding initial_completed_at_def by (intro ro_intros)

lemma TaskRepo_Create_grows [grow_intros]: "cnt_grows (TaskRepo_Create E t)"
  unfolding TaskRepo_Create_def by (intro grow_intros ro_intros)

lemma TaskRepo_Update_grows [grow_intros]: "cnt_grows (TaskRepo_Update E actorID t)"
  unfolding TaskRepo_Update_def by (intro grow_intros ro_intros)

end
