(* ===== verification/Comment_Repo.thy ===== *)
theory Comment_Repo
  imports Database
begin

text \<open>
  \<open>internal/infrastructure/persistence/comment.go\<close>: task comments behind the interface
  \<open>CommentRepository\<close>, with the exact tables each successful method leaves.
\<close>

subsection \<open>Statements and methods\<close>

definition scan_comment :: "comment_row \<Rightarrow> TaskComment" where
  "scan_comment r = \<lparr>co_CreatedAt = c_created_at r, co_UpdatedAt = c_updated_at r,
     co_Body = c_body r, co_ID = c_id r, co_TaskID = c_task_id r, co_UserID = c_user_id r\<rparr>"

definition sql_insert_comment :: "env \<Rightarrow> int64 \<Rightarrow> int64 \<Rightarrow> string \<Rightarrow> int64 prog" where
  "sql_insert_comment E taskID userID body = exec E (\<lambda>now s.
     if taskID < 0 \<or> userID < 0 then (Inl (MySQLError outOfRangeCode), s)
     else let i = n_comments (cnt s); s1 = s\<lparr>cnt := (cnt s)\<lparr>n_comments := i + 1\<rparr>\<rparr>
       in if taskID \<notin> task_ids (tbl s) \<or> userID \<notin> user_ids (tbl s)
          then (Inl (MySQLError foreignKeyViolationCode), s1)
          else (Inr i, s1\<lparr>tbl := (tbl s)\<lparr>task_comments := task_comments (tbl s) @
            [\<lparr>c_id = i, c_task_id = taskID, c_user_id = userID, c_body = body,
              c_created_at = current_timestamp now, c_updated_at = current_timestamp now\<rparr>]\<rparr>\<rparr>))"

definition CommentRepo_Create :: "env \<Rightarrow> TaskComment \<Rightarrow> int64 prog" where
  "CommentRepo_Create E c =
     go_try (sql_insert_comment E (co_TaskID c) (co_UserID c) (co_Body c)) (Wrap ''insert comment'')
       (\<lambda>res. go_try (driver_call E res) (Wrap ''last insert id'') ret)"

definition CommentRepo_ByID :: "env \<Rightarrow> int64 \<Rightarrow> TaskComment prog" where
  "CommentRepo_ByID E commentID =
     go_try (query E (\<lambda>_ T. find (\<lambda>r. c_id r = commentID) (task_comments T))) (Wrap ''scan comment'')
       (\<lambda>row. case row of None \<Rightarrow> fail ErrNotFound | Some r \<Rightarrow> ret (scan_comment r))"

definition comment_filter_match :: "CommentFilter \<Rightarrow> comment_row \<Rightarrow> bool" where
  "comment_filter_match f r \<longleftrightarrow> c_task_id r = cf_TaskID f \<and> (cf_AfterID f > 0 \<longrightarrow> c_id r > cf_AfterID f)"

definition sel_comment_list :: "CommentFilter \<Rightarrow> tables \<Rightarrow> comment_row list" where
  "sel_comment_list f T =
     take (nat (cf_Limit f)) (sort_key c_id (filter (comment_filter_match f) (task_comments T)))"

definition CommentRepo_List :: "env \<Rightarrow> CommentFilter \<Rightarrow> TaskComment list prog" where
  "CommentRepo_List E f =
     go_try (if cf_Limit f < 0 then fail (OtherErr ''negative limit'')
             else query E (\<lambda>_. sel_comment_list f)) (Wrap ''select comments'')
       (\<lambda>rows. go_try (driver_call E (map scan_comment rows)) (Wrap ''rows'') ret)"

definition set_comment_row :: "string \<Rightarrow> int \<Rightarrow> comment_row \<Rightarrow> comment_row" where
  "set_comment_row body now r =
     (if c_body r = body then r
      else r\<lparr>c_body := body, c_updated_at := current_timestamp now\<rparr>)"

definition sql_update_comment :: "env \<Rightarrow> int64 \<Rightarrow> string \<Rightarrow> unit prog" where
  "sql_update_comment E commentID body = exec E (\<lambda>now s.
     (Inr (), s\<lparr>tbl := (tbl s)\<lparr>task_comments :=
        map (\<lambda>r. if c_id r = commentID then set_comment_row body now r else r)
          (task_comments (tbl s))\<rparr>\<rparr>))"

definition CommentRepo_Update :: "env \<Rightarrow> int64 \<Rightarrow> string \<Rightarrow> TaskComment prog" where
  "CommentRepo_Update E commentID body =
     go_try (sql_update_comment E commentID body) (Wrap ''update comment'')
       (\<lambda>_.
     go_try (query E (\<lambda>_ T. find (\<lambda>r. c_id r = commentID) (task_comments T)))
       (Wrap ''scan updated comment'')
       (\<lambda>row. case row of None \<Rightarrow> fail ErrNotFound | Some r \<Rightarrow> ret (scan_comment r)))"

definition sql_delete_comment :: "env \<Rightarrow> int64 \<Rightarrow> unit prog" where
  "sql_delete_comment E commentID = exec E (\<lambda>_ s.
     (Inr (), s\<lparr>tbl := (tbl s)\<lparr>task_comments :=
        filter (\<lambda>r. c_id r \<noteq> commentID) (task_comments (tbl s))\<rparr>\<rparr>))"

definition CommentRepo_Delete :: "env \<Rightarrow> int64 \<Rightarrow> unit prog" where
  "CommentRepo_Delete E commentID =
     go_try (sql_delete_comment E commentID) (Wrap ''delete comment'') ret"

subsection \<open>Behaviour\<close>

lemma CommentRepo_ByID_ro [ro_intros]: "read_only (CommentRepo_ByID E commentID)"
  unfolding CommentRepo_ByID_def by (intro ro_intros)

lemma CommentRepo_List_ro [ro_intros]: "read_only (CommentRepo_List E f)"
  unfolding CommentRepo_List_def by (intro ro_intros)

lemma CommentRepo_Create_Inr:
  assumes "CommentRepo_Create E c s = (Inr i, s')"
  shows "i = n_comments (cnt s) \<and> cnt s' = (cnt s)\<lparr>n_comments := i + 1\<rparr> \<and>
    co_TaskID c \<in> task_ids (tbl s) \<and> co_UserID c \<in> user_ids (tbl s) \<and>
    tbl s' = (tbl s)\<lparr>task_comments := task_comments (tbl s) @
      [\<lparr>c_id = i, c_task_id = co_TaskID c, c_user_id = co_UserID c, c_body = co_Body c,
        c_created_at = current_timestamp (clock E (stmt s)),
        c_updated_at = current_timestamp (clock E (stmt s))\<rparr>]\<rparr>"
  using assms
  by (auto simp: CommentRepo_Create_def sql_insert_comment_def go_try_Inr exec_Inr driver_call_Inr
      ret_def Let_def split: if_splits)

lemma CommentRepo_ByID_Inr:
  "CommentRepo_ByID E i s = (Inr c, s') \<longleftrightarrow>
     fault E (stmt s) = NoFault \<and> s' = s\<lparr>stmt := Suc (stmt s)\<rparr> \<and>
     (\<exists>r. find (\<lambda>r. c_id r = i) (task_comments (tbl s)) = Some r \<and> c = scan_comment r)"
  by (auto simp: CommentRepo_ByID_def go_try_Inr query_Inr ret_def fail_def split: option.splits)

lemma CommentRepo_List_Inr:
  "CommentRepo_List E f s = (Inr cs, s') \<Longrightarrow>
     cs = map scan_comment (sel_comment_list f (tbl s)) \<and> 0 \<le> cf_Limit f"
  by (auto simp: CommentRepo_List_def go_try_Inr query_Inr driver_call_Inr ret_def fail_def split: if_splits)

lemma CommentRepo_Update_Inr:
  assumes "CommentRepo_Update E i body s = (Inr c, s')"
  shows "cnt s' = cnt s \<and> tbl s' = (tbl s)\<lparr>task_comments :=
        map (\<lambda>r. if c_id r = i then set_comment_row body (clock E (stmt s)) r else r)
          (task_comments (tbl s))\<rparr> \<and>
     (\<exists>r. find (\<lambda>r. c_id r = i) (task_comments (tbl s')) = Some r \<and> c = scan_comment r)"
  using assms
  by (auto simp: CommentRepo_Update_def sql_update_comment_def go_try_Inr exec_Inr query_Inr
      ret_def fail_def split: option.splits)

lemma CommentRepo_Delete_Inr:
  assumes "CommentRepo_Delete E i s = (Inr u, s')"
  shows "cnt s' = cnt s \<and> tbl s' = (tbl s)\<lparr>task_comments :=
        filter (\<lambda>r. c_id r \<noteq> i) (task_comments (tbl s))\<rparr>"
  using assms
  by (auto simp: CommentRepo_Delete_def sql_delete_comment_def go_try_Inr exec_Inr ret_def)

subsection \<open>Counters\<close>

lemma CommentRepo_Create_grows [grow_intros]: "cnt_grows (CommentRepo_Create E c)"
proof -
  have "cnt_grows (sql_insert_comment E i j b)" for i j b
    unfolding sql_insert_comment_def by (rule grow_exec) (simp add: cnt_grows_def cnt_le_def Let_def)
  then show ?thesis
    unfolding CommentRepo_Create_def by (rule grow_try) (intro grow_read_only ro_intros)
qed

lemma CommentRepo_Update_grows [grow_intros]: "cnt_grows (CommentRepo_Update E i body)"
proof -
  have "cnt_grows (sql_update_comment E i body)"
    unfolding sql_update_comment_def by (rule grow_exec) (simp add: cnt_grows_def)
  then show ?thesis
    unfolding CommentRepo_Update_def by (rule grow_try) (intro grow_read_only ro_intros)
qed

lemma CommentRepo_Delete_grows [grow_intros]: "cnt_grows (CommentRepo_Delete E i)"
proof -
  have "cnt_grows (sql_delete_comment E i)"
    unfolding sql_delete_comment_def by (rule grow_exec) (simp add: cnt_grows_def)
  then show ?thesis
    unfolding CommentRepo_Delete_def by (rule grow_try) (intro grow_read_only ro_intros)
qed

end
