(* ===== verification/Utf8.thy ===== *)
theory Utf8
  imports Go_Std
begin

text \<open>
  UTF-8 as Go's \<open>unicode/utf8\<close> and \<open>strings.ToValidUTF8\<close> see it, and \<open>truncateUTF8\<close> of
  \<open>internal/infrastructure/persistence/outbox.go\<close>, which cuts an error text to the width of a
  utf8mb4 column. The lemmas show that the result is always valid UTF-8 and within the limit, and
  that for a valid text it is a prefix which gives up at most three bytes.
\<close>

subsection \<open>Runes\<close>

abbreviation byte :: "char \<Rightarrow> nat" where
  "byte c \<equiv> of_char c"

definition RuneStart :: "char \<Rightarrow> bool" where
  "RuneStart c \<longleftrightarrow> \<not> (128 \<le> byte c \<and> byte c < 192)"

definition cont :: "char \<Rightarrow> bool" where
  "cont c \<longleftrightarrow> 128 \<le> byte c \<and> byte c < 192"

text \<open>The second byte of a three- or four-byte rune is narrowed by the first one.\<close>

definition second_ok :: "nat \<Rightarrow> char \<Rightarrow> bool" where
  "second_ok b0 c \<longleftrightarrow>
     (if b0 = 224 then 160 \<le> byte c \<and> byte c < 192
      else if b0 = 237 then 128 \<le> byte c \<and> byte c < 160
      else if b0 = 240 then 144 \<le> byte c \<and> byte c < 192
      else if b0 = 244 then 128 \<le> byte c \<and> byte c < 144
      else cont c)"

text \<open>The width of the rune at the head of a string, 0 when no valid rune starts there.\<close>

fun rune_width :: "string \<Rightarrow> nat" where
  "rune_width [] = 0"
| "rune_width (a # s) =
     (let b0 = byte a
      in if b0 < 128 then 1
         else if b0 < 194 then 0
         else if b0 < 224 then (case s of b # _ \<Rightarrow> if cont b then 2 else 0 | _ \<Rightarrow> 0)
         else if b0 < 240 then
           (case s of b # c # _ \<Rightarrow> if second_ok b0 b \<and> cont c then 3 else 0 | _ \<Rightarrow> 0)
         else if b0 < 245 then
           (case s of b # c # d # _ \<Rightarrow> if second_ok b0 b \<and> cont c \<and> cont d then 4 else 0 | _ \<Rightarrow> 0)
         else 0)"

declare rune_width.simps(2) [simp del]

lemma rune_width_le: "rune_width s \<le> 4 \<and> rune_width s \<le> length s"
  by (cases s) (auto simp: rune_width.simps(2) Let_def split: list.splits)

function ToValidUTF8 :: "string \<Rightarrow> string" where
  "ToValidUTF8 s =
     (if s = [] then []
      else if rune_width s = 0 then ToValidUTF8 (tl s)
      else take (rune_width s) s @ ToValidUTF8 (drop (rune_width s) s))"
  by pat_completeness auto
termination
  by (relation "measure length") auto

function ValidString :: "string \<Rightarrow> bool" where
  "ValidString s =
     (if s = [] then True
      else if rune_width s = 0 then False
      else ValidString (drop (rune_width s) s))"
  by pat_completeness auto
termination
  by (relation "measure length") auto

declare ToValidUTF8.simps [simp del] ValidString.simps [simp del]

lemma ToValidUTF8_Nil [simp]: "ToValidUTF8 [] = []"
  and ValidString_Nil [simp]: "ValidString []"
  by (simp_all add: ToValidUTF8.simps ValidString.simps)

subsection \<open>Truncation\<close>

fun back_off :: "string \<Rightarrow> nat \<Rightarrow> nat" where
  "back_off s 0 = 0"
| "back_off s (Suc m) = (if RuneStart (s ! Suc m) then Suc m else back_off s m)"

definition truncateUTF8 :: "string \<Rightarrow> nat \<Rightarrow> string" where
  "truncateUTF8 s maxBytes =
     (if length s \<le> maxBytes then ToValidUTF8 s
      else ToValidUTF8 (take (back_off s maxBytes) s))"

definition maxErrLen :: nat where
  "maxErrLen = 1024"

subsection \<open>The first rune\<close>

lemma RuneStart_cont: "RuneStart c \<longleftrightarrow> \<not> cont c"
  by (auto simp: RuneStart_def cont_def)

lemma second_ok_cont: "second_ok b0 c \<Longrightarrow> cont c"
  by (auto simp: second_ok_def cont_def split: if_splits)

text \<open>A rune is read off its own bytes alone, and only its first byte starts a rune.\<close>

lemma short_list_cases:
  assumes "r \<noteq> []" and "length r \<le> 4"
  obtains a where "r = [a]" | a b where "r = [a, b]" | a b c where "r = [a, b, c]"
    | a b c d where "r = [a, b, c, d]"
proof -
  from assms consider "length r = 1" | "length r = 2" | "length r = 3" | "length r = 4"
    by (cases r) (auto simp: le_Suc_eq numeral_eq_Suc)
  then show ?thesis
    using that by cases (auto simp: numeral_eq_Suc length_Suc_conv)
qed

lemma rune_width_prefix:
  assumes "r \<noteq> []" and "rune_width (r @ t) = length r"
  shows "rune_width (r @ t') = length r"
proof -
  from rune_width_le [of "r @ t"] assms(2) have "length r \<le> 4" by simp
  with assms(1) show ?thesis
    using assms(2)
    by (cases rule: short_list_cases [of r])
      (auto simp: rune_width.simps(2) Let_def split: list.splits if_splits)
qed

lemma rune_tail_cont:
  assumes "0 < i" and "i < rune_width s"
  shows "cont (s ! i)"
proof (cases s)
  case Nil
  then show ?thesis using assms by simp
next
  case (Cons a r)
  from assms rune_width_le [of s] have "i = 1 \<or> i = 2 \<or> i = 3" by linarith
  then show ?thesis
    using Cons assms
    by (auto simp: rune_width.simps(2) Let_def numeral_eq_Suc
        split: list.splits if_splits dest: second_ok_cont)
qed

lemma rune_head_start: "0 < rune_width s \<Longrightarrow> RuneStart (s ! 0)"
  by (cases s) (auto simp: rune_width.simps(2) Let_def RuneStart_def split: list.splits if_splits)

subsection \<open>Validity\<close>

lemma ValidString_rune:
  assumes "length r = rune_width (r @ t)" and "0 < rune_width (r @ t)"
  shows "ValidString (r @ t) = ValidString t"
  using assms by (subst ValidString.simps) auto

lemma ValidString_ToValidUTF8: "ValidString (ToValidUTF8 s)"
proof (induction s rule: ToValidUTF8.induct)
  case (1 s)
  show ?case
  proof (cases "s = [] \<or> rune_width s = 0")
    case True
    with 1 show ?thesis by (auto simp: ToValidUTF8.simps [of s])
  next
    case False
    let ?w = "rune_width s" and ?t = "ToValidUTF8 (drop (rune_width s) s)"
    have len: "length (take ?w s) = ?w" using rune_width_le [of s] by simp
    have "take ?w s \<noteq> []" using False by auto
    then have "rune_width (take ?w s @ ?t) = ?w"
      using rune_width_prefix [of "take ?w s" "drop ?w s" ?t] len by simp
    with False len 1 show ?thesis
      by (simp add: ToValidUTF8.simps [of s] ValidString_rune)
  qed
qed

lemma ToValidUTF8_length: "length (ToValidUTF8 s) \<le> length s"
proof (induction s rule: ToValidUTF8.induct)
  case (1 s)
  then show ?case
    using rune_width_le [of s]
    by (subst ToValidUTF8.simps) (auto simp: diff_le_mono)
qed

lemma ToValidUTF8_valid: "ValidString s \<Longrightarrow> ToValidUTF8 s = s"
proof (induction s rule: ToValidUTF8.induct)
  case (1 s)
  then show ?case
    by (auto simp: ValidString.simps [of s] ToValidUTF8.simps [of s] split: if_splits)
qed

text \<open>Splitting a valid string off its first rune.\<close>

lemma ValidString_step:
  assumes "ValidString s" and "s \<noteq> []"
  obtains r t where "s = r @ t" and "r \<noteq> []" and "length r \<le> 4" and "rune_width s = length r"
    and "ValidString t"
proof (rule that [of "take (rune_width s) s" "drop (rune_width s) s"])
  show "take (rune_width s) s \<noteq> []" and "ValidString (drop (rune_width s) s)"
    using assms by (auto simp: ValidString.simps [of s] split: if_splits)
qed (use rune_width_le [of s] in auto)

lemma ValidString_take_start:
  assumes "ValidString s" and "m < length s" and "m = 0 \<or> RuneStart (s ! m)"
  shows "ValidString (take m s)"
  using assms
proof (induction "length s" arbitrary: s m rule: less_induct)
  case less
  obtain r t where rt: "s = r @ t" "r \<noteq> []" "rune_width s = length r" "ValidString t"
    using ValidString_step [OF less.prems(1)] less.prems(2) by (metis list.size(3) not_less0)
  show ?case
  proof (cases "m < length r")
    case True
    then have "m = 0"
      using less.prems(3) rune_tail_cont [of m s] rt(3) by (auto simp: RuneStart_cont)
    then show ?thesis by simp
  next
    case False
    have start: "m - length r = 0 \<or> RuneStart (t ! (m - length r))"
      using less.prems(3) False rt(1,2) by (auto simp: nth_append)
    have "ValidString (take (m - length r) t)"
      using less.hyps [OF _ rt(4) _ start] less.prems(2) False rt(1,2) by simp
    moreover have "take m s = r @ take (m - length r) t"
      using rt(1) False by simp
    moreover have "rune_width (r @ take (m - length r) t) = length r"
      using rune_width_prefix [of r t] rt by simp
    ultimately show ?thesis
      using ValidString_rune [of r "take (m - length r) t"] rt(2) by simp
  qed
qed

lemma start_within_three:
  assumes "ValidString s" and "m < length s"
  shows "\<exists>k \<le> 3. k \<le> m \<and> RuneStart (s ! (m - k))"
  using assms
proof (induction "length s" arbitrary: s m rule: less_induct)
  case less
  obtain r t where rt: "s = r @ t" "r \<noteq> []" "length r \<le> 4" "rune_width s = length r" "ValidString t"
    using ValidString_step [OF less.prems(1)] less.prems(2) by (metis list.size(3) not_less0)
  show ?case
  proof (cases "m < length r")
    case True
    have "RuneStart (s ! 0)" using rune_head_start [of s] rt(2,4) by simp
    then show ?thesis using True rt(3) by (intro exI [of _ m]) simp
  next
    case False
    have "length t < length s" and "m - length r < length t"
      using less.prems(2) False rt(1,2) by auto
    then obtain k where k: "k \<le> 3" "k \<le> m - length r" "RuneStart (t ! (m - length r - k))"
      using less.hyps [OF _ rt(5), of "m - length r"] by blast
    have "m - k - length r = m - length r - k" and "\<not> m - k < length r"
      using k(2) False by linarith+
    then have "s ! (m - k) = t ! (m - length r - k)"
      unfolding rt(1) nth_append by simp
    with k False show ?thesis by (intro exI [of _ k]) simp
  qed
qed

subsection \<open>Truncation\<close>

lemma back_off_le: "back_off s m \<le> m"
  by (induction m) auto

lemma back_off_start: "back_off s m = 0 \<or> RuneStart (s ! back_off s m)"
  by (induction m) auto

lemma back_off_ge: "k \<le> m \<Longrightarrow> RuneStart (s ! (m - k)) \<Longrightarrow> m - k \<le> back_off s m"
proof (induction m arbitrary: k)
  case 0
  then show ?case by simp
next
  case (Suc m)
  then show ?case by (cases k) auto
qed

lemma truncateUTF8_length: "length (truncateUTF8 s m) \<le> m"
  using ToValidUTF8_length [of s] ToValidUTF8_length [of "take (back_off s m) s"] back_off_le [of s m]
  by (auto simp: truncateUTF8_def)

lemma truncateUTF8_of_valid:
  assumes "ValidString s"
  shows "truncateUTF8 s m = take (if length s \<le> m then length s else back_off s m) s"
proof (cases "length s \<le> m")
  case True
  then show ?thesis using assms by (simp add: truncateUTF8_def ToValidUTF8_valid)
next
  case False
  then have "ValidString (take (back_off s m) s)"
    using assms back_off_le [of s m] back_off_start [of s m] by (intro ValidString_take_start) auto
  with False show ?thesis by (simp add: truncateUTF8_def ToValidUTF8_valid)
qed

lemma back_off_close: "ValidString s \<Longrightarrow> m < length s \<Longrightarrow> m \<le> back_off s m + 3"
  using start_within_three [of s m] back_off_ge [of _ m s] by fastforce

end
