(* ===== verification/Outbox_Repo.thy ===== *)
theory Outbox_Repo
  imports Database Utf8
begin

text \<open>
  \<open>internal/infrastructure/persistence/outbox.go\<close>: the email outbox behind the interfaces
  \<open>OutboxWriter\<close> and \<open>outbox.Repo\<close>. \<open>Reschedule\<close> and \<open>MarkFailed\<close> settle a whole batch with one
  \<open>UPDATE\<close> whose \<open>CASE\<close> arms carry the values of each row; the text of that statement and its
  argument list are modelled too, with the lemma that every placeholder has its argument.
\<close>

definition status_pending :: string where "status_pending = ''pending''"
definition status_failed :: string where "status_failed = ''failed''"

lemmas outbox_status_defs = status_pending_def status_failed_def

subsection \<open>Enqueue and Claim\<close>

definition sql_insert_outbox :: "env \<Rightarrow> Message \<Rightarrow> unit prog" where
  "sql_insert_outbox E msg = exec E (\<lambda>now s.
     let i = n_outbox (cnt s)
     in (Inr (), s\<lparr>cnt := (cnt s)\<lparr>n_outbox := i + 1\<rparr>,
          tbl := (tbl s)\<lparr>email_outbox := email_outbox (tbl s) @
            [\<lparr>o_id = i, o_recipient = msg_Recipient msg, o_subject = msg_Subject msg,
              o_body = msg_Body msg, o_status = status_pending, o_attempts = 0,
              o_next_retry_at = None, o_last_error = None, o_created_at = now3 now\<rparr>]\<rparr>\<rparr>))"

definition OutboxRepo_Enqueue :: "env \<Rightarrow> Message \<Rightarrow> unit prog" where
  "OutboxRepo_Enqueue E msg = go_try (sql_insert_outbox E msg) (Wrap ''insert outbox'') ret"

definition scan_claimed :: "outbox_row \<Rightarrow> Claimed" where
  "scan_claimed r =
     \<lparr>cl_Message = \<lparr>msg_Recipient = o_recipient r, msg_Subject = o_subject r, msg_Body = o_body r\<rparr>,
      cl_ID = o_id r, cl_Attempts = o_attempts r\<rparr>"

definition due :: "int \<Rightarrow> outbox_row \<Rightarrow> bool" where
  "due now r \<longleftrightarrow> o_status r = status_pending \<and>
     (case o_next_retry_at r of None \<Rightarrow> True | Some t \<Rightarrow> t \<le> now3 now)"

text \<open>\<open>FOR UPDATE SKIP LOCKED\<close>: rows other transactions hold are left out.\<close>

definition sel_claim :: "(int64 \<Rightarrow> bool) \<Rightarrow> int \<Rightarrow> int \<Rightarrow> tables \<Rightarrow> outbox_row list" where
  "sel_claim held batch now T =
     take (nat batch) (sort_key o_id (filter (\<lambda>r. due now r \<and> \<not> held (o_id r)) (email_outbox T)))"

definition OutboxRepo_Claim :: "env \<Rightarrow> int \<Rightarrow> Claimed list prog" where
  "OutboxRepo_Claim E batch s =
     go_try (query E (sel_claim (locked E (stmt s)) batch)) (Wrap ''select claim'')
       (\<lambda>rows. go_try (driver_call E (map scan_claimed rows)) (Wrap ''rows claim'') ret) s"

subsection \<open>Statement text\<close>

definition inClause :: "string \<Rightarrow> int64 list \<Rightarrow> string \<times> int64 list" where
  "inClause prefix ids =
     (prefix @ ''('' @ concat (map (\<lambda>i. (if i > 0 then '','' else []) @ ''?'') [0..<length ids]) @ '')'',
      ids)"

datatype sql_arg = IdArg int64 | MicrosArg int | TextArg string

text \<open>\<open>Duration.Microseconds\<close> divides towards zero.\<close>

definition Microseconds :: "duration \<Rightarrow> int" where
  "Microseconds d = (if d < 0 then - ((- d) div 1000) else d div 1000)"

definition reschedule_query :: "Retry list \<Rightarrow> string \<times> sql_arg list" where
  "reschedule_query items =
     (let head = ''UPDATE email_outbox SET status = 'pending', attempts = attempts + 1, '' @
            ''next_retry_at = DATE_ADD(NOW(3), INTERVAL (CASE id'';
          arms = concat (map (\<lambda>_. '' WHEN ? THEN ?'') items);
          args = concat (map (\<lambda>it. [IdArg (rt_ID it), MicrosArg (Microseconds (rt_Delay it))]) items);
          args2 = concat (map (\<lambda>it. [IdArg (rt_ID it),
            TextArg (truncateUTF8 (rt_LastErr it) maxErrLen)]) items);
          (q, idArgs) = inClause (head @ arms @ '' END) MICROSECOND), last_error = CASE id'' @ arms @
            '' END WHERE id IN '') (map rt_ID items)
      in (q, args @ args2 @ map IdArg idArgs))"

definition mark_failed_query :: "Failure list \<Rightarrow> string \<times> sql_arg list" where
  "mark_failed_query items =
     (let head = ''UPDATE email_outbox SET status = 'failed', attempts = attempts + 1, '' @
            ''last_error = CASE id'';
          arms = concat (map (\<lambda>_. '' WHEN ? THEN ?'') items);
          args = concat (map (\<lambda>it. [IdArg (fl_ID it),
            TextArg (truncateUTF8 (fl_LastErr it) maxErrLen)]) items);
          (q, idArgs) = inClause (head @ arms @ '' END WHERE id IN '') (map fl_ID items)
      in (q, args @ map IdArg idArgs))"

subsection \<open>Settlement\<close>

definition sql_delete_outbox :: "env \<Rightarrow> int64 list \<Rightarrow> unit prog" where
  "sql_delete_outbox E ids = exec E (\<lambda>_ s.
     (Inr (), s\<lparr>tbl := (tbl s)\<lparr>email_outbox :=
        filter (\<lambda>r. o_id r \<notin> set ids) (email_outbox (tbl s))\<rparr>\<rparr>))"

definition OutboxRepo_Delete :: "env \<Rightarrow> int64 list \<Rightarrow> unit prog" where
  "OutboxRepo_Delete E ids =
     (if ids = [] then ret () else go_try (sql_delete_outbox E ids) (Wrap ''delete outbox'') ret)"

text \<open>A \<open>CASE id WHEN\<close> takes the first arm that matches.\<close>

definition reschedule_row :: "Retry list \<Rightarrow> int \<Rightarrow> outbox_row \<Rightarrow> outbox_row" where
  "reschedule_row items now r =
     (case find (\<lambda>it. rt_ID it = o_id r) items of
        None \<Rightarrow> r
      | Some it \<Rightarrow> r\<lparr>o_status := status_pending, o_attempts := o_attempts r + 1,
          o_next_retry_at := Some (datetime3_round (now3 now + Microseconds (rt_Delay it))),
          o_last_error := Some (truncateUTF8 (rt_LastErr it) maxErrLen)\<rparr>)"

definition sql_reschedule :: "env \<Rightarrow> Retry list \<Rightarrow> unit prog" where
  "sql_reschedule E items = exec E (\<lambda>now s.
     (Inr (), s\<lparr>tbl := (tbl s)\<lparr>email_outbox :=
        map (reschedule_row items now) (email_outbox (tbl s))\<rparr>\<rparr>))"

definition OutboxRepo_Reschedule :: "env \<Rightarrow> Retry list \<Rightarrow> unit prog" where
  "OutboxRepo_Reschedule E items =
     (if items = [] then ret ()
      else go_try (sql_reschedule E items) (Wrap ''reschedule outbox'') ret)"

definition mark_failed_row :: "Failure list \<Rightarrow> outbox_row \<Rightarrow> outbox_row" where
  "mark_failed_row items r =
     (case find (\<lambda>it. fl_ID it = o_id r) items of
        None \<Rightarrow> r
      | Some it \<Rightarrow> r\<lparr>o_status := status_failed, o_attempts := o_attempts r + 1,
          o_last_error := Some (truncateUTF8 (fl_LastErr it) maxErrLen)\<rparr>)"

definition sql_mark_failed :: "env \<Rightarrow> Failure list \<Rightarrow> unit prog" where
  "sql_mark_failed E items = exec E (\<lambda>_ s.
     (Inr (), s\<lparr>tbl := (tbl s)\<lparr>email_outbox :=
        map (mark_failed_row items) (email_outbox (tbl s))\<rparr>\<rparr>))"

definition OutboxRepo_MarkFailed :: "env \<Rightarrow> Failure list \<Rightarrow> unit prog" where
  "OutboxRepo_MarkFailed E items =
     (if items = [] then ret ()
      else go_try (sql_mark_failed E items) (Wrap ''mark failed outbox'') ret)"

text \<open>\<open>TIMESTAMPDIFF(MICROSECOND, MIN(created_at), NOW(3))\<close>, NULL over no rows; a duration in ns.\<close>

definition OutboxRepo_OldestPendingAge :: "env \<Rightarrow> duration prog" where
  "OutboxRepo_OldestPendingAge E =
     go_try (query E (\<lambda>now T.
         let ts = map o_created_at (filter (\<lambda>r. o_status r = status_pending) (email_outbox T))
         in if ts = [] then None else Some (now3 now - Min (set ts)))) (Wrap ''oldest pending age'')
       (\<lambda>micros. case micros of None \<Rightarrow> ret 0 | Some m \<Rightarrow> ret (wrap64 (m * 1000)))"

subsection \<open>Statement text and arguments\<close>

lemma count_concat_map: "count_list (concat (map f xs)) c = sum_list (map (\<lambda>x. count_list (f x) c) xs)"
  by (induction xs) simp_all

lemma inClause_placeholders:
  "count_list (fst (inClause prefix ids)) CHR ''?'' = count_list prefix CHR ''?'' + length ids"
proof -
  have "count_list ((if i > 0 then '','' else []) @ ''?'') CHR ''?'' = 1" for i :: nat
    by simp
  then have "sum_list (map (\<lambda>i. count_list ((if i > 0 then '','' else []) @ ''?'') CHR ''?'') ns) = length ns"
    for ns :: "nat list" by (induction ns) simp_all
  then show ?thesis by (simp add: inClause_def count_concat_map)
qed

lemma arms_placeholders:
  "count_list (concat (map (\<lambda>_. '' WHEN ? THEN ?'') items)) CHR ''?'' = 2 * length items"
  by (induction items) simp_all

lemma length_pairs: "length (concat (map (\<lambda>x. [f x, g x]) xs)) = 2 * length xs"
  by (induction xs) simp_all

lemma reschedule_query_args:
  "count_list (fst (reschedule_query items)) CHR ''?'' = length (snd (reschedule_query items))"
  using arms_placeholders [of items]
  by (simp add: reschedule_query_def Let_def split_beta inClause_placeholders
      length_pairs inClause_def [THEN arg_cong [where f = snd]])

lemma mark_failed_query_args:
  "count_list (fst (mark_failed_query items)) CHR ''?'' = length (snd (mark_failed_query items))"
  using arms_placeholders [of items]
  by (simp add: mark_failed_query_def Let_def split_beta inClause_placeholders
      length_pairs inClause_def [THEN arg_cong [where f = snd]])

subsection \<open>Behaviour\<close>

lemma OutboxRepo_Enqueue_Inr:
  assumes "OutboxRepo_Enqueue E msg s = (Inr u, s')"
  shows "cnt s' = (cnt s)\<lparr>n_outbox := n_outbox (cnt s) + 1\<rparr> \<and>
    tbl s' = (tbl s)\<lparr>email_outbox := email_outbox (tbl s) @
      [\<lparr>o_id = n_outbox (cnt s), o_recipient = msg_Recipient msg, o_subject = msg_Subject msg,
        o_body = msg_Body msg, o_status = status_pending, o_attempts = 0,
        o_next_retry_at = None, o_last_error = None, o_created_at = now3 (clock E (stmt s))\<rparr>]\<rparr>"
  using assms
  by (auto simp: OutboxRepo_Enqueue_def sql_insert_outbox_def go_try_Inr exec_Inr ret_def Let_def)

lemma OutboxRepo_Claim_Inr:
  assumes "OutboxRepo_Claim E batch s = (Inr cs, s')"
  shows "tbl s' = tbl s \<and> cnt s' = cnt s \<and>
    cs = map scan_claimed (sel_claim (locked E (stmt s)) batch (clock E (stmt s)) (tbl s))"
  using assms by (auto simp: OutboxRepo_Claim_def go_try_Inr query_Inr driver_call_Inr ret_def)

lemma OutboxRepo_Claim_ro [ro_intros]: "read_only (OutboxRepo_Claim E batch)"
proof -
  have "read_only (go_try (query E (sel_claim h batch)) (Wrap ''select claim'')
       (\<lambda>rows. go_try (driver_call E (map scan_claimed rows)) (Wrap ''rows claim'') ret))" for h
    by (intro ro_intros)
  then show ?thesis by (simp add: read_only_def OutboxRepo_Claim_def)
qed

lemma OutboxRepo_OldestPendingAge_ro [ro_intros]: "read_only (OutboxRepo_OldestPendingAge E)"
  unfolding OutboxRepo_OldestPendingAge_def by (intro ro_intros)

lemma OutboxRepo_Delete_Inr:
  assumes "OutboxRepo_Delete E ids s = (Inr u, s')"
  shows "cnt s' = cnt s \<and> tbl s' = (tbl s)\<lparr>email_outbox :=
        filter (\<lambda>r. o_id r \<notin> set ids) (email_outbox (tbl s))\<rparr>"
  using assms
  by (auto simp: OutboxRepo_Delete_def sql_delete_outbox_def go_try_Inr exec_Inr ret_def split: if_splits)

lemma OutboxRepo_Reschedule_Inr:
  assumes "OutboxRepo_Reschedule E items s = (Inr u, s')"
  obtains now where "cnt s' = cnt s" and "tbl s' = (tbl s)\<lparr>email_outbox :=
        map (reschedule_row items now) (email_outbox (tbl s))\<rparr>"
proof (cases "items = []")
  case True
  then have "reschedule_row items now = id" for now by (simp add: fun_eq_iff reschedule_row_def)
  with True assms that show ?thesis by (simp add: OutboxRepo_Reschedule_def ret_def)
next
  case False
  with assms that show ?thesis
    by (auto simp: OutboxRepo_Reschedule_def sql_reschedule_def go_try_Inr exec_Inr ret_def)
qed

lemma OutboxRepo_MarkFailed_Inr:
  assumes "OutboxRepo_MarkFailed E items s = (Inr u, s')"
  shows "cnt s' = cnt s \<and> tbl s' = (tbl s)\<lparr>email_outbox :=
        map (mark_failed_row items) (email_outbox (tbl s))\<rparr>"
proof (cases "items = []")
  case True
  then have "mark_failed_row items = id" by (simp add: fun_eq_iff mark_failed_row_def)
  with True assms show ?thesis by (simp add: OutboxRepo_MarkFailed_def ret_def)
next
  case False
  with assms show ?thesis
    by (auto simp: OutboxRepo_MarkFailed_def sql_mark_failed_def go_try_Inr exec_Inr ret_def)
qed

subsection \<open>Counters\<close>

lemma grow_outbox_statements [grow_intros]:
  "cnt_grows (sql_insert_outbox E msg)" "cnt_grows (sql_delete_outbox E ids)"
  "cnt_grows (sql_reschedule E rs)" "cnt_grows (sql_mark_failed E fs)"
  unfolding sql_insert_outbox_def sql_delete_outbox_def sql_reschedule_def sql_mark_failed_def
  by (rule grow_exec; simp add: cnt_grows_def cnt_le_def Let_def)+

lemma OutboxRepo_Enqueue_grows [grow_intros]: "cnt_grows (OutboxRepo_Enqueue E msg)"
  and OutboxRepo_Delete_grows [grow_intros]: "cnt_grows (OutboxRepo_Delete E ids)"
  and OutboxRepo_Reschedule_grows [grow_intros]: "cnt_grows (OutboxRepo_Reschedule E rs)"
  and OutboxRepo_MarkFailed_grows [grow_intros]: "cnt_grows (OutboxRepo_MarkFailed E fs)"
  unfolding OutboxRepo_Enqueue_def OutboxRepo_Delete_def OutboxRepo_Reschedule_def
    OutboxRepo_MarkFailed_def
  by (intro grow_intros ro_intros)+

subsection \<open>Without failures\<close>

lemma outbox_answers:
  assumes nf: "\<forall>n. fault E n = NoFault"
  shows "answers (OutboxRepo_Claim E batch)" "answers (OutboxRepo_Delete E ids)"
    "answers (OutboxRepo_Reschedule E rs)" "answers (OutboxRepo_MarkFailed E fs)"
proof -
  have stmts: "answers (sql_delete_outbox E ids)" "answers (sql_reschedule E rs)" "answers (sql_mark_failed E fs)"
    unfolding sql_delete_outbox_def sql_reschedule_def sql_mark_failed_def
    by (rule answers_exec [OF nf], simp add: answers_def)+
  then show "answers (OutboxRepo_Delete E ids)" "answers (OutboxRepo_Reschedule E rs)"
    "answers (OutboxRepo_MarkFailed E fs)"
    unfolding OutboxRepo_Delete_def OutboxRepo_Reschedule_def OutboxRepo_MarkFailed_def by auto
  have "answers (go_try (query E (sel_claim h batch)) (Wrap ''select claim'')
       (\<lambda>rows. go_try (driver_call E (map scan_claimed rows)) (Wrap ''rows claim'') ret))" for h
    using nf by (intro answers_try answers_query answers_driver_call answers_ret)
  then show "answers (OutboxRepo_Claim E batch)" by (simp add: answers_def OutboxRepo_Claim_def)
qed

end
