(* ===== verification/Schema.thy ===== *)
theory Schema
  imports User_Repo Team_Repo Task_Repo Comment_Repo Outbox_Repo
begin

text \<open>
  The invariant of the database. What the schema of \<open>migrations/\<close> enforces (keys, foreign keys,
  enumerations) and what only the application keeps:
  \<^item> a task's assignee is a member of the task's team (the foreign key only says it is a user);
  \<^item> a task has a completion time exactly when its status is done (the repair of
    \<open>migrations/00008\<close> states it as a wish);
  \<^item> every team's creator owns it;
  \<^item> the audit trail: a task's history starts with its creation, and for each tracked field the
    recorded changes form a chain that ends at the field's present value.
  The lemmas here are the ones each write of a repository needs to keep it.
\<close>

subsection \<open>Auto-increment tables\<close>

definition tab_ok :: "('r \<Rightarrow> int) \<Rightarrow> int \<Rightarrow> 'r list \<Rightarrow> bool" where
  "tab_ok key n rs \<longleftrightarrow> 1 \<le> n \<and> sorted_wrt (<) (map key rs) \<and> (\<forall>r \<in> set rs. 1 \<le> key r \<and> key r < n)"

lemma tab_ok_insert: "tab_ok key n rs \<Longrightarrow> key r = n \<Longrightarrow> tab_ok key (n + 1) (rs @ [r])"
  by (auto simp: tab_ok_def sorted_wrt_append)

lemma tab_ok_mono: "tab_ok key n rs \<Longrightarrow> n \<le> m \<Longrightarrow> tab_ok key m rs"
  by (auto simp: tab_ok_def)

lemma tab_ok_map: "tab_ok key n rs \<Longrightarrow> (\<And>r. key (f r) = key r) \<Longrightarrow> tab_ok key n (map f rs)"
  by (auto simp: tab_ok_def comp_def sorted_wrt_map)

lemma tab_ok_filter: "tab_ok key n rs \<Longrightarrow> tab_ok key n (filter P rs)"
  by (auto simp: tab_ok_def sorted_wrt_map sorted_wrt_filter)

lemma tab_ok_cong: "map key rs = map key rs' \<Longrightarrow> tab_ok key n rs \<longleftrightarrow> tab_ok key n rs'"
proof -
  have "tab_ok key n xs \<longleftrightarrow> 1 \<le> n \<and> sorted_wrt (<) (map key xs) \<and> (\<forall>k \<in> set (map key xs). 1 \<le> k \<and> k < n)" for xs
    by (simp add: tab_ok_def)
  then show "tab_ok key n rs \<longleftrightarrow> tab_ok key n rs'" if "map key rs = map key rs'"
    using that by (simp del: set_map)
qed

lemma tab_ok_distinct: "tab_ok key n rs \<Longrightarrow> distinct (map key rs)"
  by (auto simp: tab_ok_def strict_sorted_iff)

lemma tab_ok_sorted: "tab_ok key n rs \<Longrightarrow> sort_key key (filter P rs) = filter P rs"
proof -
  assume "tab_ok key n rs"
  then have "sorted_wrt (<) (map key (filter P rs))"
    by (auto simp: tab_ok_def sorted_wrt_map sorted_wrt_filter)
  then have "sorted (map key (filter P rs))"
    by (rule strict_sorted_imp_sorted)
  then show ?thesis by (rule sort_key_id_if_sorted)
qed

lemma tab_ok_find: "tab_ok key n rs \<Longrightarrow> r \<in> set rs \<Longrightarrow> find (\<lambda>x. key x = key r) rs = Some r"
  by (rule find_key_unique [OF tab_ok_distinct])

lemma tab_ok_fresh: "tab_ok key n rs \<Longrightarrow> n \<notin> key ` set rs"
  by (auto simp: tab_ok_def)

subsection \<open>The audit trail\<close>

definition tracked_fields :: "string list" where
  "tracked_fields = [''title'', ''description'', ''status'', ''assignee_id'']"

definition field_value :: "task_row \<Rightarrow> string \<Rightarrow> string" where
  "field_value r f =
     (if f = ''title'' then k_title r
      else if f = ''description'' then null_string (k_description r)
      else if f = ''status'' then k_status r
      else formatID (k_assignee_id r))"

text \<open>A chain of changes leads from one value to another, each step from where the last one ended.\<close>

fun chain :: "string \<Rightarrow> (string \<times> string) list \<Rightarrow> string \<Rightarrow> bool" where
  "chain v [] w \<longleftrightarrow> v = w"
| "chain v ((ov, nv) # cs) w \<longleftrightarrow> v = ov \<and> chain nv cs w"

definition field_changes :: "string \<Rightarrow> history_row list \<Rightarrow> (string \<times> string) list" where
  "field_changes f hs =
     map (\<lambda>h. (null_string (h_old_value h), null_string (h_new_value h))) (filter (\<lambda>h. h_field h = f) hs)"

definition task_log :: "int64 \<Rightarrow> tables \<Rightarrow> history_row list" where
  "task_log i T = filter (\<lambda>h. h_task_id h = i) (task_history T)"

definition real_change :: "history_row \<Rightarrow> bool" where
  "real_change h \<longleftrightarrow> h_field h \<in> set tracked_fields \<and> h_old_value h \<noteq> None \<and> h_new_value h \<noteq> None \<and>
     h_old_value h \<noteq> h_new_value h"

definition log_ok :: "task_row \<Rightarrow> history_row list \<Rightarrow> bool" where
  "log_ok r hs \<longleftrightarrow> hs \<noteq> [] \<and> h_field (hd hs) = ChangeFieldCreated \<and>
     h_changed_by (hd hs) = k_created_by r \<and> list_all real_change (tl hs) \<and>
     (\<forall>f \<in> set tracked_fields. \<exists>v0. chain v0 (field_changes f hs) (field_value r f))"

subsection \<open>The invariant\<close>

definition users_ok :: "env \<Rightarrow> tables \<Rightarrow> counters \<Rightarrow> bool" where
  "users_ok E T N \<longleftrightarrow> tab_ok u_id (n_users N) (users T) \<and>
     distinct (map (\<lambda>u. collate E (u_email u)) (users T)) \<and>
     (\<forall>u \<in> set (users T). u_role u \<in> {RoleUser, RoleAdmin})"

definition owns :: "tables \<Rightarrow> int64 \<Rightarrow> int64 \<Rightarrow> bool" where
  "owns T i u \<longleftrightarrow> (\<exists>m \<in> set (team_members T). m_team_id m = i \<and> m_user_id m = u \<and> m_role m = TeamRoleOwner)"

definition teams_ok :: "tables \<Rightarrow> counters \<Rightarrow> bool" where
  "teams_ok T N \<longleftrightarrow> tab_ok t_id (n_teams N) (teams T) \<and>
     (\<forall>t \<in> set (teams T). t_created_by t \<in> user_ids T \<and> owns T (t_id t) (t_created_by t))"

definition members_ok :: "tables \<Rightarrow> bool" where
  "members_ok T \<longleftrightarrow> distinct (map (\<lambda>m. (m_team_id m, m_user_id m)) (team_members T)) \<and>
     (\<forall>m \<in> set (team_members T). m_team_id m \<in> team_ids T \<and> m_user_id m \<in> user_ids T \<and>
        m_role m \<in> set team_role_enum)"

definition task_ok :: "tables \<Rightarrow> task_row \<Rightarrow> bool" where
  "task_ok T r \<longleftrightarrow> k_team_id r \<in> team_ids T \<and> k_created_by r \<in> user_ids T \<and>
     (\<forall>a. k_assignee_id r = Some a \<longrightarrow> (k_team_id r, a) \<in> member_pairs T) \<and>
     k_status r \<in> set task_status_enum \<and> (k_completed_at r \<noteq> None \<longleftrightarrow> k_status r = TaskStatusDone)"

definition tasks_ok :: "tables \<Rightarrow> counters \<Rightarrow> bool" where
  "tasks_ok T N \<longleftrightarrow> tab_ok k_id (n_tasks N) (tasks T) \<and> (\<forall>r \<in> set (tasks T). task_ok T r)"

definition history_ok :: "tables \<Rightarrow> counters \<Rightarrow> bool" where
  "history_ok T N \<longleftrightarrow> tab_ok h_id (n_history N) (task_history T) \<and>
     (\<forall>h \<in> set (task_history T). h_task_id h \<in> task_ids T \<and> h_changed_by h \<in> user_ids T \<and>
        length (h_change_group_id h) = 32)"

definition audit_ok :: "tables \<Rightarrow> bool" where
  "audit_ok T \<longleftrightarrow> (\<forall>r \<in> set (tasks T). log_ok r (task_log (k_id r) T))"

definition comments_ok :: "tables \<Rightarrow> counters \<Rightarrow> bool" where
  "comments_ok T N \<longleftrightarrow> tab_ok c_id (n_comments N) (task_comments T) \<and>
     (\<forall>c \<in> set (task_comments T). c_task_id c \<in> task_ids T \<and> c_user_id c \<in> user_ids T)"

definition outbox_ok :: "tables \<Rightarrow> counters \<Rightarrow> bool" where
  "outbox_ok T N \<longleftrightarrow> tab_ok o_id (n_outbox N) (email_outbox T) \<and>
     (\<forall>r \<in> set (email_outbox T). o_status r \<in> {status_pending, status_failed} \<and> 0 \<le> o_attempts r)"

definition inv :: "env \<Rightarrow> tables \<Rightarrow> counters \<Rightarrow> bool" where
  "inv E T N \<longleftrightarrow> users_ok E T N \<and> teams_ok T N \<and> members_ok T \<and> tasks_ok T N \<and> history_ok T N \<and>
     audit_ok T \<and> comments_ok T N \<and> outbox_ok T N"

abbreviation db_inv :: "env \<Rightarrow> db \<Rightarrow> bool" where
  "db_inv E s \<equiv> inv E (tbl s) (cnt s)"

lemmas part_defs = users_ok_def teams_ok_def members_ok_def tasks_ok_def history_ok_def
  audit_ok_def comments_ok_def outbox_ok_def

lemma inv_empty: "db_inv E empty_db"
  by (simp add: inv_def part_defs empty_db_def empty_tables_def tab_ok_def)

lemma inv_cnt_mono: "inv E T N \<Longrightarrow> cnt_le N N' \<Longrightarrow> inv E T N'"
  unfolding inv_def part_defs cnt_le_def by (blast intro: tab_ok_mono)

subsection \<open>Frame lemmas\<close>

text \<open>The parts of the invariant a write of another table leaves alone.\<close>

lemma id_sets_upd [simp]:
  "user_ids (T\<lparr>teams := x\<rparr>) = user_ids T" "user_ids (T\<lparr>team_members := y\<rparr>) = user_ids T"
  "user_ids (T\<lparr>tasks := z\<rparr>) = user_ids T" "user_ids (T\<lparr>task_history := h\<rparr>) = user_ids T"
  "user_ids (T\<lparr>task_comments := c\<rparr>) = user_ids T" "user_ids (T\<lparr>email_outbox := b\<rparr>) = user_ids T"
  "team_ids (T\<lparr>users := u\<rparr>) = team_ids T" "team_ids (T\<lparr>team_members := y\<rparr>) = team_ids T"
  "team_ids (T\<lparr>tasks := z\<rparr>) = team_ids T" "team_ids (T\<lparr>task_history := h\<rparr>) = team_ids T"
  "team_ids (T\<lparr>task_comments := c\<rparr>) = team_ids T" "team_ids (T\<lparr>email_outbox := b\<rparr>) = team_ids T"
  "task_ids (T\<lparr>users := u\<rparr>) = task_ids T" "task_ids (T\<lparr>team_members := y\<rparr>) = task_ids T"
  "task_ids (T\<lparr>teams := x\<rparr>) = task_ids T" "task_ids (T\<lparr>task_history := h\<rparr>) = task_ids T"
  "task_ids (T\<lparr>task_comments := c\<rparr>) = task_ids T" "task_ids (T\<lparr>email_outbox := b\<rparr>) = task_ids T"
  "member_pairs (T\<lparr>users := u\<rparr>) = member_pairs T" "member_pairs (T\<lparr>teams := x\<rparr>) = member_pairs T"
  "member_pairs (T\<lparr>tasks := z\<rparr>) = member_pairs T" "member_pairs (T\<lparr>task_history := h\<rparr>) = member_pairs T"
  "member_pairs (T\<lparr>task_comments := c\<rparr>) = member_pairs T"
  "member_pairs (T\<lparr>email_outbox := b\<rparr>) = member_pairs T"
  by (simp_all add: id_set_defs)

lemma id_sets_of_users: "user_ids (T\<lparr>users := us\<rparr>) = u_id ` set us"
  and id_sets_of_tasks: "task_ids (T\<lparr>tasks := ks\<rparr>) = k_id ` set ks"
  by (simp_all add: id_set_defs)

lemma id_sets_append [simp]:
  "user_ids (T\<lparr>users := users T @ [u]\<rparr>) = insert (u_id u) (user_ids T)"
  "team_ids (T\<lparr>teams := teams T @ [t]\<rparr>) = insert (t_id t) (team_ids T)"
  "task_ids (T\<lparr>tasks := tasks T @ [k]\<rparr>) = insert (k_id k) (task_ids T)"
  "member_pairs (T\<lparr>team_members := team_members T @ [m]\<rparr>) =
     insert (m_team_id m, m_user_id m) (member_pairs T)"
  by (simp_all add: id_set_defs)

lemma task_log_upd [simp]:
  "task_log i (T\<lparr>users := u\<rparr>) = task_log i T" "task_log i (T\<lparr>teams := x\<rparr>) = task_log i T"
  "task_log i (T\<lparr>team_members := y\<rparr>) = task_log i T" "task_log i (T\<lparr>tasks := z\<rparr>) = task_log i T"
  "task_log i (T\<lparr>task_comments := c\<rparr>) = task_log i T"
  "task_log i (T\<lparr>email_outbox := b\<rparr>) = task_log i T"
  "task_log i (T\<lparr>task_history := task_history T @ hs\<rparr>) =
     task_log i T @ filter (\<lambda>h. h_task_id h = i) hs"
  by (simp_all add: task_log_def)

lemma owns_upd [simp]:
  "owns (T\<lparr>users := u\<rparr>) = owns T" "owns (T\<lparr>teams := x\<rparr>) = owns T" "owns (T\<lparr>tasks := z\<rparr>) = owns T"
  "owns (T\<lparr>task_comments := c\<rparr>) = owns T" "owns (T\<lparr>email_outbox := b\<rparr>) = owns T"
  "owns (T\<lparr>task_history := h\<rparr>) = owns T"
  by (simp_all add: owns_def fun_eq_iff)

lemma owns_append: "owns T i u \<Longrightarrow> owns (T\<lparr>team_members := team_members T @ [m]\<rparr>) i u"
  by (auto simp: owns_def)

subsection \<open>Single-table writes\<close>

lemma inv_insert_user:
  assumes "inv E T N" and "u_id u = n_users N" and "u_role u = RoleUser"
    and "\<forall>r \<in> set (users T). collate E (u_email r) \<noteq> collate E (u_email u)"
  shows "inv E (T\<lparr>users := users T @ [u]\<rparr>) (N\<lparr>n_users := n_users N + 1\<rparr>)"
  using assms unfolding inv_def part_defs task_ok_def
  by (auto simp: tab_ok_insert)

lemma inv_grant_admin:
  assumes "inv E T N"
  shows "inv E (T\<lparr>users := map (\<lambda>r. if P r then r\<lparr>u_role := RoleAdmin\<rparr> else r) (users T)\<rparr>) N"
proof -
  let ?f = "\<lambda>r. if P r then r\<lparr>u_role := RoleAdmin\<rparr> else r"
  have "map (\<lambda>u. collate E (u_email u)) (map ?f (users T)) = map (\<lambda>u. collate E (u_email u)) (users T)"
    by simp
  moreover have "user_ids (T\<lparr>users := map ?f (users T)\<rparr>) = u_id ` set (users T)"
    unfolding id_sets_of_users by (rule image_upd_key) simp
  moreover have "tab_ok u_id n (map ?f (users T))" if "tab_ok u_id n (users T)" for n
    using that by (rule tab_ok_map) simp
  ultimately show ?thesis
    using assms unfolding inv_def part_defs task_ok_def
    by (simp add: user_ids_def del: map_map map_upd_key) auto
qed

lemma inv_add_member:
  assumes "inv E T N" and "(m_team_id m, m_user_id m) \<notin> member_pairs T"
    and "m_team_id m \<in> team_ids T" and "m_user_id m \<in> user_ids T" and "m_role m \<in> set team_role_enum"
  shows "inv E (T\<lparr>team_members := team_members T @ [m]\<rparr>) N"
  using assms unfolding inv_def part_defs task_ok_def
  by (auto simp: owns_append member_pairs_def)

lemma inv_outbox_map:
  assumes "inv E T N" and "\<And>r. o_id (f r) = o_id r"
    and "\<And>r. o_status r \<in> {status_pending, status_failed} \<Longrightarrow> o_status (f r) \<in> {status_pending, status_failed}"
    and "\<And>r. 0 \<le> o_attempts r \<Longrightarrow> 0 \<le> o_attempts (f r)"
  shows "inv E (T\<lparr>email_outbox := map f (email_outbox T)\<rparr>) N"
  using assms unfolding inv_def part_defs task_ok_def by (simp add: tab_ok_map)

lemma inv_outbox_filter:
  "inv E T N \<Longrightarrow> inv E (T\<lparr>email_outbox := filter P (email_outbox T)\<rparr>) N"
  unfolding inv_def part_defs task_ok_def by (simp add: tab_ok_filter)

lemma inv_enqueue:
  assumes "inv E T N" and "o_id r = n_outbox N" and "o_status r = status_pending" and "o_attempts r = 0"
  shows "inv E (T\<lparr>email_outbox := email_outbox T @ [r]\<rparr>) (N\<lparr>n_outbox := n_outbox N + 1\<rparr>)"
  using assms unfolding inv_def part_defs task_ok_def by (simp add: tab_ok_insert)

lemma inv_insert_comment:
  assumes "inv E T N" and "c_id c = n_comments N" and "c_task_id c \<in> task_ids T" and "c_user_id c \<in> user_ids T"
  shows "inv E (T\<lparr>task_comments := task_comments T @ [c]\<rparr>) (N\<lparr>n_comments := n_comments N + 1\<rparr>)"
  using assms unfolding inv_def part_defs task_ok_def by (simp add: tab_ok_insert)

lemma inv_comment_filter:
  "inv E T N \<Longrightarrow> inv E (T\<lparr>task_comments := filter P (task_comments T)\<rparr>) N"
  unfolding inv_def part_defs task_ok_def by (simp add: tab_ok_filter)

lemma inv_comment_map:
  assumes "inv E T N" and "\<And>r. c_id (f r) = c_id r" and "\<And>r. c_task_id (f r) = c_task_id r"
    and "\<And>r. c_user_id (f r) = c_user_id r"
  shows "inv E (T\<lparr>task_comments := map f (task_comments T)\<rparr>) N"
  using assms unfolding inv_def part_defs task_ok_def by (simp add: tab_ok_map)

subsection \<open>Creating a team and creating a task\<close>

lemma inv_create_team:
  assumes I: "inv E T N" and t: "t_id t = n_teams N" "t_created_by t \<in> user_ids T"
    and m: "m_team_id m = t_id t" "m_user_id m = t_created_by t" "m_role m = TeamRoleOwner"
  shows "inv E (T\<lparr>teams := teams T @ [t], team_members := team_members T @ [m]\<rparr>)
    (N\<lparr>n_teams := n_teams N + 1\<rparr>)"
proof -
  from I have tab: "tab_ok t_id (n_teams N) (teams T)" by (simp add: inv_def teams_ok_def)
  then have fresh: "n_teams N \<notin> team_ids T" unfolding team_ids_def by (rule tab_ok_fresh)
  with I have nomem: "\<forall>x \<in> set (team_members T). m_team_id x \<noteq> n_teams N"
    by (auto simp: inv_def members_ok_def)
  have own: "owns (T\<lparr>teams := teams T @ [t], team_members := team_members T @ [m]\<rparr>) i u \<longleftrightarrow>
      owns T i u \<or> (i = n_teams N \<and> u = t_created_by t)" for i u
    using t m by (auto simp: owns_def)
  have ids: "team_ids (T\<lparr>teams := teams T @ [t], team_members := team_members T @ [m]\<rparr>) =
      insert (n_teams N) (team_ids T)"
    "member_pairs (T\<lparr>teams := teams T @ [t], team_members := team_members T @ [m]\<rparr>) =
      insert (n_teams N, t_created_by t) (member_pairs T)"
    using t m by (simp_all add: id_set_defs)
  show ?thesis
    using I t m nomem tab_ok_insert [OF tab t(1)] unfolding inv_def part_defs task_ok_def own ids
    by (auto simp: team_role_enum_def)
qed

lemma field_changes_created: "h_field h = ChangeFieldCreated \<Longrightarrow> f \<in> set tracked_fields \<Longrightarrow> field_changes f [h] = []"
  by (auto simp: field_changes_def ChangeFieldCreated_def tracked_fields_def)

lemma log_ok_created:
  "h_field h = ChangeFieldCreated \<Longrightarrow> h_changed_by h = k_created_by r \<Longrightarrow> log_ok r [h]"
  by (simp add: log_ok_def field_changes_created)

lemma inv_create_task:
  assumes I: "inv E T N" and k: "k_id k = n_tasks N"
    and ok: "task_ok T k"
    and h: "h_id h = n_history N" "h_task_id h = k_id k" "h_changed_by h = k_created_by k"
      "h_field h = ChangeFieldCreated" "length (h_change_group_id h) = 32"
  shows "inv E (T\<lparr>tasks := tasks T @ [k], task_history := task_history T @ [h]\<rparr>)
    (N\<lparr>n_tasks := n_tasks N + 1, n_history := n_history N + 1\<rparr>)"
proof -
  let ?T = "T\<lparr>tasks := tasks T @ [k], task_history := task_history T @ [h]\<rparr>"
  from I have tab: "tab_ok k_id (n_tasks N) (tasks T)" and htab: "tab_ok h_id (n_history N) (task_history T)"
    by (simp_all add: inv_def tasks_ok_def history_ok_def)
  have fresh: "n_tasks N \<notin> task_ids T" unfolding task_ids_def by (rule tab_ok_fresh [OF tab])
  with I have "task_log (n_tasks N) T = []"
    by (auto simp: inv_def history_ok_def task_log_def filter_empty_conv)
  then have new: "task_log (k_id k) ?T = [h]"
    using h k by (simp add: task_log_def)
  have old: "task_log (k_id r) ?T = task_log (k_id r) T" if "r \<in> set (tasks T)" for r
    using that fresh h k by (auto simp: task_log_def task_ids_def)
  have audit: "audit_ok ?T"
    using I new old h by (auto simp: inv_def audit_ok_def log_ok_created)
  have ids: "user_ids ?T = user_ids T" "team_ids ?T = team_ids T" "member_pairs ?T = member_pairs T"
    "task_ids ?T = insert (k_id k) (task_ids T)" "owns ?T = owns T" "task_ok ?T = task_ok T"
    by (simp_all add: id_set_defs owns_def task_ok_def fun_eq_iff)
  have "history_ok ?T (N\<lparr>n_tasks := n_tasks N + 1, n_history := n_history N + 1\<rparr>)"
    using I ok h k tab_ok_insert [OF htab h(1)]
    by (auto simp: inv_def history_ok_def ids task_ok_def)
  with audit show ?thesis
    using I ok tab_ok_insert [OF tab k]
    unfolding inv_def users_ok_def teams_ok_def members_ok_def tasks_ok_def comments_ok_def
      outbox_ok_def ids by auto
qed

subsection \<open>Updating a task\<close>

lemma set_task_row_fields [simp]:
  "k_id (set_task_row t c now r) = k_id r" "k_team_id (set_task_row t c now r) = k_team_id r"
  "k_created_by (set_task_row t c now r) = k_created_by r"
  "k_created_at (set_task_row t c now r) = k_created_at r"
  "k_title (set_task_row t c now r) = task_Title t"
  "k_description (set_task_row t c now r) = Some (task_Description t)"
  "k_status (set_task_row t c now r) = task_Status t"
  "k_assignee_id (set_task_row t c now r) = task_AssigneeID t"
  "k_completed_at (set_task_row t c now r) = map_option timestamp_round c"
proof -
  let ?r = "r\<lparr>k_title := task_Title t, k_description := Some (task_Description t),
                 k_status := task_Status t, k_assignee_id := task_AssigneeID t,
                 k_completed_at := map_option timestamp_round c\<rparr>"
  have "set_task_row t c now r = ?r \<or> set_task_row t c now r = ?r\<lparr>k_updated_at := current_timestamp now\<rparr>"
    by (auto simp: set_task_row_def Let_def)
  then show "k_id (set_task_row t c now r) = k_id r" "k_team_id (set_task_row t c now r) = k_team_id r"
    "k_created_by (set_task_row t c now r) = k_created_by r"
    "k_created_at (set_task_row t c now r) = k_created_at r"
    "k_title (set_task_row t c now r) = task_Title t"
    "k_description (set_task_row t c now r) = Some (task_Description t)"
    "k_status (set_task_row t c now r) = task_Status t"
    "k_assignee_id (set_task_row t c now r) = task_AssigneeID t"
    "k_completed_at (set_task_row t c now r) = map_option timestamp_round c"
    by (elim disjE; simp)+
qed

text \<open>The rows record the changes, whatever their ids.\<close>

definition change_rows :: "int64 \<Rightarrow> int64 \<Rightarrow> string \<Rightarrow> FieldChange list \<Rightarrow> history_row list \<Rightarrow> bool" where
  "change_rows i a g = list_all2 (\<lambda>c h. h_task_id h = i \<and> h_changed_by h = a \<and> h_change_group_id h = g \<and>
     h_field h = fc_Field c \<and> h_old_value h = Some (fc_OldValue c) \<and> h_new_value h = Some (fc_NewValue c))"

lemma history_rows_changes: "history_rows n i a g chs hs \<Longrightarrow> change_rows i a g chs hs"
  by (auto simp: history_rows_def change_rows_def list_all2_conv_all_nth)

lemma change_rows_set:
  assumes "change_rows i a g chs hs" and "h \<in> set hs"
  obtains c where "c \<in> set chs" and "h_task_id h = i" and "h_changed_by h = a"
    and "h_change_group_id h = g" and "h_field h = fc_Field c"
    and "h_old_value h = Some (fc_OldValue c)" and "h_new_value h = Some (fc_NewValue c)"
  using list_all2_right_mem [OF assms(1) [unfolded change_rows_def] assms(2)] that by blast

lemma field_changes_rows:
  assumes "change_rows i a g chs hs"
  shows "field_changes f hs =
    map (\<lambda>c. (fc_OldValue c, fc_NewValue c)) (filter (\<lambda>c. fc_Field c = f) chs)"
  using assms unfolding change_rows_def
  by (induction rule: list_all2_induct) (auto simp: field_changes_def)

lemma tab_ok_history_rows:
  assumes "tab_ok h_id n xs" and "history_rows n i a g chs hs"
  shows "tab_ok h_id (n + int (length chs)) (xs @ hs)"
proof -
  have hs: "map h_id hs = map (\<lambda>j. n + int j) [0..<length chs]"
    using assms(2) by (intro nth_equalityI) (auto simp: history_rows_def)
  have "sorted_wrt (<) (map h_id hs)" unfolding hs by (simp add: sorted_wrt_map)
  moreover have "n \<le> h_id h \<and> h_id h < n + int (length chs)" if "h \<in> set hs" for h
  proof -
    from that have "h_id h \<in> set (map h_id hs)" by simp
    then show ?thesis unfolding hs by auto
  qed
  ultimately show ?thesis
    using assms(1) by (fastforce simp: tab_ok_def sorted_wrt_append)
qed

lemma task_changes_field:
  assumes "f \<in> set tracked_fields"
  shows "map (\<lambda>c. (fc_OldValue c, fc_NewValue c)) (filter (\<lambda>c. fc_Field c = f) (task_changes old t)) =
    (let v = field_value old f; w = field_value (set_task_row t c now old) f
     in if v = w then [] else [(v, w)])"
  using assms
  by (auto simp: tracked_fields_def task_changes_def addChange_def field_value_def)

lemma task_changes_fields:
  "ch \<in> set (task_changes old t) \<Longrightarrow> fc_Field ch \<in> set tracked_fields \<and> fc_OldValue ch \<noteq> fc_NewValue ch"
  by (auto simp: task_changes_def addChange_def tracked_fields_def split: if_splits)

lemma chain_append: "chain v cs w \<Longrightarrow> chain v (cs @ [(w, x)]) x"
  by (induction v cs w rule: chain.induct) auto

lemma log_ok_update:
  assumes L: "log_ok old hs0" and R: "change_rows i a g (task_changes old t) hs"
  shows "log_ok (set_task_row t c now old) (hs0 @ hs)"
proof -
  have "\<exists>v0. chain v0 (field_changes f (hs0 @ hs)) (field_value (set_task_row t c now old) f)"
    if f: "f \<in> set tracked_fields" for f
  proof -
    from L f obtain v0 where v0: "chain v0 (field_changes f hs0) (field_value old f)"
      by (auto simp: log_ok_def)
    have "field_changes f (hs0 @ hs) = field_changes f hs0 @ field_changes f hs"
      by (simp add: field_changes_def)
    with v0 chain_append [OF v0] show ?thesis
      unfolding field_changes_rows [OF R] task_changes_field [OF f, of old t c now]
      by (auto simp: Let_def)
  qed
  moreover have "list_all real_change hs"
  proof -
    have "real_change h" if "h \<in> set hs" for h
      using R that by (rule change_rows_set)
        (use task_changes_fields [of _ old t] in \<open>auto simp: real_change_def\<close>)
    then show ?thesis by (simp add: list_all_iff)
  qed
  ultimately show ?thesis
    using L by (auto simp: log_ok_def hd_append)
qed

lemma completed_after_None:
  "task_ok T old \<Longrightarrow> completed_after old t w \<noteq> None \<longleftrightarrow> task_Status t = TaskStatusDone"
  by (auto simp: completed_after_def task_ok_def)

text \<open>An update keeps the invariant when its entries come after all others of the task, wherever the ids
  put them in the table.\<close>

text \<open>The rows after an update of one task: the other rows are as they were, and each row is still in order.\<close>

lemma updated_task_row:
  assumes I: "inv E T N" and old: "find (\<lambda>r. k_id r = task_ID t) (tasks T) = Some old"
    and x: "x \<in> set (updated_tasks t c now (tasks T))"
  obtains "k_id x = task_ID t" and "x = set_task_row t c now old" and "old \<in> set (tasks T)"
  | "k_id x \<noteq> task_ID t" and "x \<in> set (tasks T)"
proof -
  from old have old_in: "old \<in> set (tasks T)" and old_id: "k_id old = task_ID t" by (auto dest: find_Some_iff_mem)
  from I have tab: "tab_ok k_id (n_tasks N) (tasks T)" by (simp add: inv_def tasks_ok_def)
  from x obtain r where r: "r \<in> set (tasks T)" "x = (if k_id r = task_ID t then set_task_row t c now r else r)"
    by (auto simp: updated_tasks_def)
  show thesis
  proof (cases "k_id r = task_ID t")
    case True
    then have "r = old" using distinct_keys_eq [OF tab_ok_distinct [OF tab] r(1) old_in] old_id by simp
    with True r old_in that(1) show thesis by simp
  next
    case False
    with r that(2) show thesis by simp
  qed
qed

lemma updated_task_ok:
  assumes I: "inv E T N" and old: "find (\<lambda>r. k_id r = task_ID t) (tasks T) = Some old"
    and st: "task_Status t \<in> set task_status_enum"
    and asg: "\<forall>a. task_AssigneeID t = Some a \<longrightarrow> (k_team_id old, a) \<in> member_pairs T"
    and x: "x \<in> set (updated_tasks t (completed_after old t w) now (tasks T))"
  shows "task_ok T x"
  using I old x
proof (rule updated_task_row)
  assume x: "x = set_task_row t (completed_after old t w) now old" and "old \<in> set (tasks T)"
  with I have "task_ok T old" by (simp add: inv_def tasks_ok_def)
  then show ?thesis using st asg completed_after_None [of T old] by (simp add: x task_ok_def)
qed (use I in \<open>simp add: inv_def tasks_ok_def\<close>)

lemma updated_log_ok:
  assumes I: "inv E T N" and old: "find (\<lambda>r. k_id r = task_ID t) (tasks T) = Some old"
    and R: "change_rows (task_ID t) actor g (task_changes old t) hs"
    and x: "x \<in> set (updated_tasks t (completed_after old t w) now (tasks T))"
  shows "log_ok x (task_log (k_id x) T @ (if k_id x = task_ID t then hs else []))"
  using I old x
proof (rule updated_task_row)
  assume x: "k_id x = task_ID t" "x = set_task_row t (completed_after old t w) now old" and "old \<in> set (tasks T)"
  from I have "audit_ok T" by (simp add: inv_def)
  then have "log_ok old (task_log (k_id old) T)" using \<open>old \<in> set (tasks T)\<close> by (simp only: audit_ok_def)
  from log_ok_update [OF this R] x show ?thesis by simp
qed (use I in \<open>simp add: inv_def audit_ok_def\<close>)

lemma inv_update_log:
  assumes I: "inv E T N" and old: "find (\<lambda>r. k_id r = task_ID t) (tasks T) = Some old"
    and st: "task_Status t \<in> set task_status_enum"
    and asg: "\<forall>a. task_AssigneeID t = Some a \<longrightarrow> (k_team_id old, a) \<in> member_pairs T"
    and R: "change_rows (task_ID t) actor g (task_changes old t) hs" and g: "length g = 32"
    and actor: "task_changes old t \<noteq> [] \<longrightarrow> actor \<in> user_ids T"
    and htab: "tab_ok h_id n history" and hset: "set history = set (task_history T) \<union> set hs"
    and hlog: "filter (\<lambda>h. h_task_id h = task_ID t) history = task_log (task_ID t) T @ hs"
      "\<And>j. j \<noteq> task_ID t \<Longrightarrow> filter (\<lambda>h. h_task_id h = j) history = task_log j T"
  shows "inv E (T\<lparr>tasks := updated_tasks t (completed_after old t w) now (tasks T), task_history := history\<rparr>)
    (N\<lparr>n_history := n\<rparr>)" (is "inv E ?T ?N")
proof -
  have ids: "user_ids ?T = user_ids T" "team_ids ?T = team_ids T" "member_pairs ?T = member_pairs T"
    "owns ?T = owns T" "task_ok ?T = task_ok T"
    by (simp_all add: id_set_defs owns_def task_ok_def fun_eq_iff)
  have task_ids: "task_ids ?T = task_ids T"
    using image_upd_key [of k_id "set_task_row t (completed_after old t w) now" "\<lambda>r. k_id r = task_ID t" "tasks T"]
    by (simp add: task_ids_def updated_tasks_def)
  have "tab_ok k_id (n_tasks N) (tasks ?T)"
    using I by (simp add: inv_def tasks_ok_def updated_tasks_def tab_ok_map)
  then have tasks: "tasks_ok ?T ?N"
    using updated_task_ok [OF I old st asg] by (simp add: tasks_ok_def ids)
  have "task_log j ?T = task_log j T @ (if j = task_ID t then hs else [])" for j
    using hlog by (simp add: task_log_def)
  then have audit: "audit_ok ?T" using updated_log_ok [OF I old R] by (simp add: audit_ok_def)
  have "h_task_id h \<in> task_ids T \<and> h_changed_by h \<in> user_ids T \<and> length (h_change_group_id h) = 32"
    if "h \<in> set hs" for h
    using R that by (rule change_rows_set) (use actor g find_task_ids [OF old] in auto)
  moreover from I have "history_ok T N" by (simp add: inv_def)
  ultimately have hist: "history_ok ?T ?N"
    using htab hset unfolding history_ok_def ids task_ids by auto
  show ?thesis
    using I tasks audit hist
    unfolding inv_def users_ok_def teams_ok_def members_ok_def comments_ok_def outbox_ok_def ids task_ids
    by simp
qed

lemma inv_update_task:
  assumes I: "inv E T N" and old: "find (\<lambda>r. k_id r = task_ID t) (tasks T) = Some old"
    and st: "task_Status t \<in> set task_status_enum"
    and asg: "\<forall>a. task_AssigneeID t = Some a \<longrightarrow> (k_team_id old, a) \<in> member_pairs T"
    and R: "history_rows (n_history N) (task_ID t) actor g (task_changes old t) hs" and g: "length g = 32"
    and actor: "task_changes old t \<noteq> [] \<longrightarrow> actor \<in> user_ids T"
  shows "inv E (T\<lparr>tasks := updated_tasks t (completed_after old t w) now (tasks T),
      task_history := task_history T @ hs\<rparr>)
    (N\<lparr>n_history := n_history N + int (length (task_changes old t))\<rparr>)"
proof (rule inv_update_log [OF I old st asg history_rows_changes [OF R] g actor])
  from I have "tab_ok h_id (n_history N) (task_history T)" by (simp add: inv_def history_ok_def)
  from tab_ok_history_rows [OF this R]
  show "tab_ok h_id (n_history N + int (length (task_changes old t))) (task_history T @ hs)" .
  have "h_task_id h = task_ID t" if "h \<in> set hs" for h
    using history_rows_changes [OF R] that by (rule change_rows_set)
  then show "filter (\<lambda>h. h_task_id h = task_ID t) (task_history T @ hs) = task_log (task_ID t) T @ hs"
    "\<And>j. j \<noteq> task_ID t \<Longrightarrow> filter (\<lambda>h. h_task_id h = j) (task_history T @ hs) = task_log j T"
    by (auto simp: task_log_def filter_empty_conv intro!: filter_True)
qed simp

subsection \<open>What the invariant gives\<close>

lemma find_member:
  "(\<exists>r. find (\<lambda>r. m_team_id r = i \<and> m_user_id r = u) (team_members T) = Some r) \<longleftrightarrow>
    (i, u) \<in> member_pairs T"
proof -
  have "(i, u) \<in> member_pairs T \<longleftrightarrow> (\<exists>r \<in> set (team_members T). m_team_id r = i \<and> m_user_id r = u)"
    by (auto simp: member_pairs_def)
  also have "\<dots> \<longleftrightarrow> find (\<lambda>r. m_team_id r = i \<and> m_user_id r = u) (team_members T) \<noteq> None"
    unfolding find_None_iff by blast
  finally show ?thesis by auto
qed

lemma inv_find_task: "inv E T N \<Longrightarrow> r \<in> set (tasks T) \<Longrightarrow> find (\<lambda>x. k_id x = k_id r) (tasks T) = Some r"
  by (auto simp: inv_def tasks_ok_def intro: tab_ok_find)

subsection \<open>Programs that keep the invariant\<close>

definition keeps_inv :: "env \<Rightarrow> 'a prog \<Rightarrow> bool" where
  "keeps_inv E m \<longleftrightarrow> (\<forall>s. db_inv E s \<longrightarrow> db_inv E (snd (m s)))"

lemma keeps_invD: "keeps_inv E m \<Longrightarrow> db_inv E s \<Longrightarrow> m s = (x, s') \<Longrightarrow> db_inv E s'"
  by (metis keeps_inv_def snd_conv)

lemma keeps_ro [inv_intros]: "read_only m \<Longrightarrow> keeps_inv E m"
  by (simp add: keeps_inv_def read_only_def)

lemma keeps_try [inv_intros]:
  assumes "keeps_inv E m" and "\<And>x. keeps_inv E (k x)"
  shows "keeps_inv E (go_try m f k)"
  unfolding keeps_inv_def
proof (intro allI impI)
  fix s assume I: "db_inv E s"
  obtain r s1 where m: "m s = (r, s1)" by fastforce
  have "db_inv E s1" using keeps_invD [OF assms(1) I m] .
  then show "db_inv E (snd (go_try m f k s))"
    using assms(2) by (auto simp: go_try_def m keeps_inv_def split: sum.splits)
qed

lemma keeps_exec:
  assumes "\<And>now s. db_inv E s \<Longrightarrow> db_inv E (snd (body now s))"
  shows "keeps_inv E (exec E' body)"
  unfolding keeps_inv_def
proof (intro allI impI)
  fix s assume "db_inv E s"
  then have "db_inv E (s\<lparr>stmt := Suc (stmt s)\<rparr>)" by simp
  from this assms [OF this] show "db_inv E (snd (exec E' body s))"
    by (rule exec_snd [where P = "\<lambda>s. db_inv E s"])
qed

text \<open>
  A transaction keeps the invariant when its completed body does, even though the body's
  statements may break it on the way and even though it may be cut off at any of them.
\<close>

lemma tx_inv_at:
  assumes "cnt_grows fn" and I: "db_inv E s"
    and body: "\<And>a s'. fn (s\<lparr>stmt := Suc (stmt s)\<rparr>) = (Inr a, s') \<Longrightarrow> db_inv E s'"
  shows "db_inv E (snd (tx_do E' fn s))"
proof -
  obtain r s' where tx: "tx_do E' fn s = (r, s')" by fastforce
  have grow: "cnt_le (cnt s) (cnt s')" using cnt_growsD [OF grow_tx [OF assms(1)] tx] .
  have "db_inv E s'"
  proof (cases "tbl s' = tbl s")
    case True
    with inv_cnt_mono [OF I grow] show ?thesis by simp
  next
    case False
    with tx_do_atomic [OF tx] obtain a s1 where
      fn: "fn (s\<lparr>stmt := Suc (stmt s)\<rparr>) = (Inr a, s1)" and t: "tbl s' = tbl s1"
      by blast
    have "cnt s' = cnt s1"
      using tx fn False
      by (auto simp: tx_do_def go_try_def driver_call_def exec_def ret_def commit_def rollback_to_def
          Let_def split: fault.splits)
    with body [OF fn] t show ?thesis by simp
  qed
  with tx show ?thesis by simp
qed

lemma keeps_tx:
  assumes "cnt_grows fn"
    and "\<And>s a s'. db_inv E s \<Longrightarrow> fn s = (Inr a, s') \<Longrightarrow> db_inv E s'"
  shows "keeps_inv E (tx_do E' fn)"
  unfolding keeps_inv_def
proof (intro allI impI)
  fix s assume I: "db_inv E s"
  then have "db_inv E (s\<lparr>stmt := Suc (stmt s)\<rparr>)" by simp
  from tx_inv_at [OF assms(1) I assms(2) [OF this]] show "db_inv E (snd (tx_do E' fn s))" .
qed

lemma keeps_tx_keeps:
  "cnt_grows fn \<Longrightarrow> keeps_inv E fn \<Longrightarrow> keeps_inv E (tx_do E' fn)"
  by (rule keeps_tx) (auto dest: keeps_invD)

end
