(* ===== verification/Authorizer.thy ===== *)
theory Authorizer
  imports Schema
begin

text \<open>
  \<open>internal/service/authorizer.go\<close>: the one place that decides who may do what. The lemmas say
  exactly when each check passes in terms of the tables, and that a check never writes.
\<close>

definition RequireAdmin :: "env \<Rightarrow> int64 \<Rightarrow> unit prog" where
  "RequireAdmin E actorID =
     go_try (UserRepo_ByID E actorID) (Wrap ''find actor'')
       (\<lambda>actor. if user_Role actor \<noteq> RoleAdmin then fail ErrForbidden else ret ())"

definition RequireTeamRole :: "env \<Rightarrow> int64 \<Rightarrow> int64 \<Rightarrow> TeamRole \<Rightarrow> unit prog" where
  "RequireTeamRole E actorID teamID least =
     go_try (UserRepo_ByID E actorID) (Wrap ''find actor'')
       (\<lambda>actor. if user_Role actor = RoleAdmin then ret ()
         else go_try (TeamRepo_MemberRole E teamID actorID)
           (\<lambda>e. if errors_is e ErrNotFound then ErrNotFound else Wrap ''member role'' e)
           (\<lambda>role. if \<not> AtLeast role least then fail ErrForbidden else ret ()))"

subsection \<open>Permissions as facts about the tables\<close>

definition is_global_admin :: "tables \<Rightarrow> int64 \<Rightarrow> bool" where
  "is_global_admin T u \<longleftrightarrow> (\<exists>r \<in> set (users T). u_id r = u \<and> u_role r = RoleAdmin)"

definition team_role_of :: "tables \<Rightarrow> int64 \<Rightarrow> int64 \<Rightarrow> TeamRole option" where
  "team_role_of T i u =
     map_option m_role (find (\<lambda>r. m_team_id r = i \<and> m_user_id r = u) (team_members T))"

text \<open>May \<open>u\<close> act in team \<open>i\<close> with at least this role? A global admin may, member or not.\<close>

definition may_act :: "tables \<Rightarrow> int64 \<Rightarrow> int64 \<Rightarrow> TeamRole \<Rightarrow> bool" where
  "may_act T u i least \<longleftrightarrow> u \<in> user_ids T \<and>
     (is_global_admin T u \<or> (\<exists>role. team_role_of T i u = Some role \<and> AtLeast role least))"

lemma RequireAdmin_ro [ro_intros]: "read_only (RequireAdmin E actorID)"
  unfolding RequireAdmin_def by (intro ro_intros)

lemma RequireTeamRole_ro [ro_intros]: "read_only (RequireTeamRole E actorID teamID least)"
  unfolding RequireTeamRole_def by (intro ro_intros)

lemma find_user_role:
  assumes "tab_ok u_id n (users T)" and "find (\<lambda>r. u_id r = a) (users T) = Some r"
  shows "is_global_admin T a \<longleftrightarrow> u_role r = RoleAdmin" and "a \<in> user_ids T"
proof -
  from assms(2) have r: "r \<in> set (users T)" "u_id r = a" by (auto dest: find_Some_iff_mem)
  then show "a \<in> user_ids T" by (auto simp: user_ids_def)
  have "x = r" if "x \<in> set (users T)" and "u_id x = a" for x
    using distinct_keys_eq [OF tab_ok_distinct [OF assms(1)] that(1) r(1)] that(2) r(2) by simp
  with r show "is_global_admin T a \<longleftrightarrow> u_role r = RoleAdmin"
    unfolding is_global_admin_def by blast
qed

lemma RequireAdmin_Inr:
  assumes "db_inv E s" and "RequireAdmin E actorID s = (Inr u, s')"
  shows "is_global_admin (tbl s) actorID"
proof -
  from assms(1) have tab: "tab_ok u_id (n_users (cnt s)) (users (tbl s))"
    by (simp add: inv_def users_ok_def)
  from assms(2) obtain r where "find (\<lambda>r. u_id r = actorID) (users (tbl s)) = Some r" "u_role r = RoleAdmin"
    by (auto simp: RequireAdmin_def go_try_Inr UserRepo_ByID_Inr fail_def ret_def split: if_splits)
  with find_user_role [OF tab] show ?thesis by blast
qed

lemma RequireTeamRole_Inr:
  assumes "db_inv E s" and "RequireTeamRole E actorID teamID least s = (Inr u, s')"
  shows "may_act (tbl s) actorID teamID least"
proof -
  from assms(1) have tab: "tab_ok u_id (n_users (cnt s)) (users (tbl s))"
    by (simp add: inv_def users_ok_def)
  from assms(2) obtain r where r: "find (\<lambda>r. u_id r = actorID) (users (tbl s)) = Some r"
    and perm: "u_role r = RoleAdmin \<or> (\<exists>m. find (\<lambda>r. m_team_id r = teamID \<and> m_user_id r = actorID)
        (team_members (tbl s)) = Some m \<and> AtLeast (m_role m) least)"
    by (auto simp: RequireTeamRole_def go_try_Inr UserRepo_ByID_Inr TeamRepo_MemberRole_Inr fail_def
        ret_def split: if_splits)
  from perm find_user_role [OF tab r] show ?thesis
    by (auto simp: may_act_def team_role_of_def)
qed

text \<open>With a store that answers, the check decides exactly \<open>may_act\<close> and reports why not.\<close>

lemma RequireTeamRole_decides:
  assumes I: "db_inv E s" and nf: "\<forall>n. fault E n = NoFault"
  shows "fst (RequireTeamRole E actorID teamID least s) =
    (if actorID \<notin> user_ids (tbl s) then Inl (Wrap ''find actor'' ErrNotFound)
     else if is_global_admin (tbl s) actorID then Inr ()
     else case team_role_of (tbl s) teamID actorID of
            None \<Rightarrow> Inl ErrNotFound
          | Some role \<Rightarrow> if AtLeast role least then Inr () else Inl ErrForbidden)"
proof -
  from I have tab: "tab_ok u_id (n_users (cnt s)) (users (tbl s))"
    by (simp add: inv_def users_ok_def)
  show ?thesis
  proof (cases "find (\<lambda>r. u_id r = actorID) (users (tbl s))")
    case None
    then have "actorID \<notin> user_ids (tbl s)" by (auto simp: user_ids_def find_None_iff)
    with None nf show ?thesis
      by (simp add: RequireTeamRole_def UserRepo_ByID_def go_try_def query_def exec_def fail_def)
  next
    case (Some r)
    note adm = find_user_role [OF tab Some]
    show ?thesis
      using Some nf adm
      by (auto simp: RequireTeamRole_def UserRepo_ByID_def TeamRepo_MemberRole_def go_try_def query_def
          exec_def fail_def ret_def team_role_of_def split: option.splits)
  qed
qed

lemma RequireAdmin_decides:
  assumes I: "db_inv E s" and nf: "\<forall>n. fault E n = NoFault"
  shows "fst (RequireAdmin E actorID s) =
    (if actorID \<notin> user_ids (tbl s) then Inl (Wrap ''find actor'' ErrNotFound)
     else if is_global_admin (tbl s) actorID then Inr () else Inl ErrForbidden)"
proof -
  from I have tab: "tab_ok u_id (n_users (cnt s)) (users (tbl s))"
    by (simp add: inv_def users_ok_def)
  show ?thesis
  proof (cases "find (\<lambda>r. u_id r = actorID) (users (tbl s))")
    case None
    then have "actorID \<notin> user_ids (tbl s)" by (auto simp: user_ids_def find_None_iff)
    with None nf show ?thesis
      by (simp add: RequireAdmin_def UserRepo_ByID_def go_try_def query_def exec_def fail_def)
  next
    case (Some r)
    show ?thesis
      using Some nf find_user_role [OF tab Some]
      by (auto simp: RequireAdmin_def UserRepo_ByID_def go_try_def query_def exec_def fail_def ret_def)
  qed
qed

lemma RequireAdmin_may_act: "is_global_admin T u \<Longrightarrow> may_act T u i least"
  by (auto simp: may_act_def is_global_admin_def user_ids_def)

end
