(* ===== verification/Comments_Service.thy ===== *)
theory Comments_Service
  imports Authorizer
begin

text \<open>
  \<open>internal/service/comments.go\<close>: comments on tasks. Whoever may act in the task's team may write
  and read; only the author or a global admin may change or delete, and the author only as long
  as he may still act in the team.
\<close>

text \<open>The idiom \<open>if errors.Is(err, ErrNotFound) { return ErrNotFound }; return wrapped\<close>.\<close>

definition not_found_or :: "string \<Rightarrow> gerr \<Rightarrow> gerr" where
  "not_found_or what e = (if errors_is e ErrNotFound then ErrNotFound else Wrap what e)"

definition create_comment_tx :: "env \<Rightarrow> int64 \<Rightarrow> int64 \<Rightarrow> string \<Rightarrow> TaskComment prog" where
  "create_comment_tx E actorID taskID body =
     go_try (TaskRepo_ByID E taskID) (not_found_or ''load task'')
       (\<lambda>task.
     go_try (RequireTeamRole E actorID (task_TeamID task) TeamRoleMember) id
       (\<lambda>_.
     go_try (CommentRepo_Create E \<lparr>co_CreatedAt = 0, co_UpdatedAt = 0, co_Body = body, co_ID = 0,
               co_TaskID = taskID, co_UserID = actorID\<rparr>) (Wrap ''create comment'')
       (\<lambda>cid. go_try (CommentRepo_ByID E cid) (Wrap ''load created comment'') ret)))"

definition Comments_Create :: "env \<Rightarrow> int64 \<Rightarrow> int64 \<Rightarrow> string \<Rightarrow> TaskComment prog" where
  "Comments_Create E actorID taskID body = tx_do E (create_comment_tx E actorID taskID body)"

definition Comments_List :: "env \<Rightarrow> int64 \<Rightarrow> CommentFilter \<Rightarrow> TaskComment list prog" where
  "Comments_List E actorID f =
     go_try (TaskRepo_ByID E (cf_TaskID f)) (not_found_or ''load task'')
       (\<lambda>task.
     go_try (RequireTeamRole E actorID (task_TeamID task) TeamRoleMember) id
       (\<lambda>_. go_try (CommentRepo_List E f) (Wrap ''list comments'') ret))"

definition requireCanModify :: "env \<Rightarrow> int64 \<Rightarrow> int64 \<Rightarrow> unit prog" where
  "requireCanModify E actorID commentID =
     go_try (CommentRepo_ByID E commentID) (not_found_or ''load comment'')
       (\<lambda>comment.
     go_try (TaskRepo_ByID E (co_TaskID comment)) (Wrap ''load task'')
       (\<lambda>task.
     go_try (RequireTeamRole E actorID (task_TeamID task) TeamRoleMember) id
       (\<lambda>_. if co_UserID comment = actorID then ret () else RequireAdmin E actorID)))"

definition update_comment_tx :: "env \<Rightarrow> int64 \<Rightarrow> int64 \<Rightarrow> string \<Rightarrow> TaskComment prog" where
  "update_comment_tx E actorID commentID body =
     go_try (requireCanModify E actorID commentID) id
       (\<lambda>_. go_try (CommentRepo_Update E commentID body) (Wrap ''update comment'') ret)"

definition Comments_Update :: "env \<Rightarrow> int64 \<Rightarrow> int64 \<Rightarrow> string \<Rightarrow> TaskComment prog" where
  "Comments_Update E actorID commentID body = tx_do E (update_comment_tx E actorID commentID body)"

definition delete_comment_tx :: "env \<Rightarrow> int64 \<Rightarrow> int64 \<Rightarrow> unit prog" where
  "delete_comment_tx E actorID commentID =
     go_try (requireCanModify E actorID commentID) id
       (\<lambda>_. go_try (CommentRepo_Delete E commentID) (Wrap ''delete comment'') ret)"

definition Comments_Delete :: "env \<Rightarrow> int64 \<Rightarrow> int64 \<Rightarrow> unit prog" where
  "Comments_Delete E actorID commentID = tx_do E (delete_comment_tx E actorID commentID)"

subsection \<open>Reading and checking never write\<close>

lemma Comments_List_ro [ro_intros]: "read_only (Comments_List E actorID f)"
  unfolding Comments_List_def by (intro ro_intros)

lemma requireCanModify_ro [ro_intros]: "read_only (requireCanModify E actorID commentID)"
  unfolding requireCanModify_def by (intro ro_intros)

subsection \<open>Invariant\<close>

lemma set_comment_row_fields [simp]:
  "c_id (set_comment_row b now r) = c_id r" "c_body (set_comment_row b now r) = b"
  "c_task_id (set_comment_row b now r) = c_task_id r" "c_user_id (set_comment_row b now r) = c_user_id r"
  by (simp_all add: set_comment_row_def)

lemma sql_insert_comment_inv [inv_intros]: "keeps_inv E (sql_insert_comment E i j b)"
  unfolding sql_insert_comment_def
proof (rule keeps_exec)
  fix now s assume I: "db_inv E s"
  have "inv E (tbl s) ((cnt s)\<lparr>n_comments := n_comments (cnt s) + 1\<rparr>)"
    by (rule inv_cnt_mono [OF I]) (simp add: cnt_le_def)
  with I inv_insert_comment [OF I, of "\<lparr>c_id = n_comments (cnt s), c_task_id = i, c_user_id = j,
      c_body = b, c_created_at = current_timestamp now, c_updated_at = current_timestamp now\<rparr>"]
  show "db_inv E (snd (if i < 0 \<or> j < 0 then (Inl (MySQLError outOfRangeCode), s)
     else let i' = n_comments (cnt s); s1 = s\<lparr>cnt := (cnt s)\<lparr>n_comments := i' + 1\<rparr>\<rparr>
       in if i \<notin> task_ids (tbl s) \<or> j \<notin> user_ids (tbl s)
          then (Inl (MySQLError foreignKeyViolationCode), s1)
          else (Inr i', s1\<lparr>tbl := (tbl s)\<lparr>task_comments := task_comments (tbl s) @
            [\<lparr>c_id = i', c_task_id = i, c_user_id = j, c_body = b,
              c_created_at = current_timestamp now, c_updated_at = current_timestamp now\<rparr>]\<rparr>\<rparr>)))"
    by (simp add: Let_def)
qed

lemma sql_update_comment_inv [inv_intros]: "keeps_inv E (sql_update_comment E i body)"
  unfolding sql_update_comment_def
  by (rule keeps_exec) (simp, rule inv_comment_map, auto)

lemma sql_delete_comment_inv [inv_intros]: "keeps_inv E (sql_delete_comment E i)"
  unfolding sql_delete_comment_def by (rule keeps_exec) (simp add: inv_comment_filter)

lemma comment_tx_inv [inv_intros]:
  "keeps_inv E (create_comment_tx E actorID taskID body)"
  "keeps_inv E (update_comment_tx E actorID commentID body)"
  "keeps_inv E (delete_comment_tx E actorID commentID)"
  unfolding create_comment_tx_def update_comment_tx_def delete_comment_tx_def
    CommentRepo_Create_def CommentRepo_Update_def CommentRepo_Delete_def
  by (intro keeps_try sql_insert_comment_inv sql_update_comment_inv sql_delete_comment_inv
      keeps_ro ro_intros)+

lemma comment_tx_grows [grow_intros]:
  "cnt_grows (create_comment_tx E actorID taskID body)"
  "cnt_grows (update_comment_tx E actorID commentID body)"
  "cnt_grows (delete_comment_tx E actorID commentID)"
  unfolding create_comment_tx_def update_comment_tx_def delete_comment_tx_def
  by (intro grow_try CommentRepo_Create_grows CommentRepo_Update_grows CommentRepo_Delete_grows
      grow_read_only ro_intros)+

lemma Comments_Create_inv: "keeps_inv E (Comments_Create E actorID taskID body)"
  and Comments_Update_inv: "keeps_inv E (Comments_Update E actorID commentID body)"
  and Comments_Delete_inv: "keeps_inv E (Comments_Delete E actorID commentID)"
  unfolding Comments_Create_def Comments_Update_def Comments_Delete_def
  by (rule keeps_tx_keeps, rule comment_tx_grows, rule comment_tx_inv)+

subsection \<open>Who may change a comment\<close>

text \<open>May \<open>a\<close> change or delete comment \<open>i\<close>? Both conditions, read off the tables.\<close>

definition may_modify :: "tables \<Rightarrow> int64 \<Rightarrow> int64 \<Rightarrow> bool" where
  "may_modify T a i \<longleftrightarrow> (\<exists>c \<in> set (task_comments T). \<exists>k \<in> set (tasks T). c_id c = i \<and> k_id k = c_task_id c \<and>
     may_act T a (k_team_id k) TeamRoleMember \<and> (c_user_id c = a \<or> is_global_admin T a))"

lemma requireCanModify_Inr:
  assumes I: "db_inv E s" and ok: "requireCanModify E a i s = (Inr u, s')"
  shows "may_modify (tbl s) a i"
proof -
  from ok obtain c k s1 s2 where
    c: "find (\<lambda>r. c_id r = i) (task_comments (tbl s)) = Some c"
    and k: "find (\<lambda>r. k_id r = c_task_id c) (tasks (tbl s)) = Some k"
    and role: "RequireTeamRole E a (k_team_id k) TeamRoleMember s1 = (Inr (), s2)"
    and s1: "tbl s1 = tbl s" "cnt s1 = cnt s"
    and adm: "c_user_id c = a \<or> RequireAdmin E a s2 = (Inr (), s')"
    by (auto simp: requireCanModify_def go_try_Inr CommentRepo_ByID_Inr TaskRepo_ByID_Inr ret_def
        scan_comment_def scan_task_def split: if_splits)
  have s2: "tbl s2 = tbl s" "cnt s2 = cnt s"
    using read_onlyD [OF RequireTeamRole_ro role] s1 by simp_all
  have "may_act (tbl s) a (k_team_id k) TeamRoleMember"
    using RequireTeamRole_Inr [OF _ role] I s1 by simp
  moreover have "c_user_id c = a \<or> is_global_admin (tbl s) a"
    using adm RequireAdmin_Inr [of E s2 a "()" s'] I s2 by auto
  ultimately show ?thesis
    using c k by (auto simp: may_modify_def dest!: find_Some_iff_mem)
qed

lemma Comments_Delete_Inr:
  assumes "Comments_Delete E a i s = (Inr u, s')" and I: "db_inv E s"
  shows "may_modify (tbl s) a i \<and> cnt s' = cnt s \<and>
    tbl s' = (tbl s)\<lparr>task_comments := filter (\<lambda>r. c_id r \<noteq> i) (task_comments (tbl s))\<rparr>"
proof -
  let ?s = "s\<lparr>stmt := Suc (stmt s)\<rparr>"
  from assms(1) obtain s1 s2 where m: "requireCanModify E a i ?s = (Inr (), s1)"
    and d: "CommentRepo_Delete E i s1 = (Inr (), s2)" and s': "s' = s2\<lparr>stmt := Suc (stmt s2)\<rparr>"
    by (auto simp: Comments_Delete_def tx_do_Inr delete_comment_tx_def go_try_Inr ret_def)
  from read_onlyD [OF requireCanModify_ro m] requireCanModify_Inr [OF _ m] CommentRepo_Delete_Inr [OF d] I s'
  show ?thesis by simp
qed

lemma Comments_Update_Inr:
  assumes "Comments_Update E a i body s = (Inr c, s')" and I: "db_inv E s"
  obtains now where "may_modify (tbl s) a i" and "cnt s' = cnt s"
    and "tbl s' = (tbl s)\<lparr>task_comments := map (\<lambda>r. if c_id r = i then set_comment_row body now r else r)
          (task_comments (tbl s))\<rparr>" and "co_ID c = i" and "co_Body c = body"
proof -
  let ?s = "s\<lparr>stmt := Suc (stmt s)\<rparr>"
  from assms(1) obtain s1 s2 where m: "requireCanModify E a i ?s = (Inr (), s1)"
    and d: "CommentRepo_Update E i body s1 = (Inr c, s2)" and s': "s' = s2\<lparr>stmt := Suc (stmt s2)\<rparr>"
    by (auto simp: Comments_Update_def tx_do_Inr update_comment_tx_def go_try_Inr ret_def)
  let ?f = "\<lambda>r. if c_id r = i then set_comment_row body (clock E (stmt s1)) r else r"
  from CommentRepo_Update_Inr [OF d] obtain r where
    up: "cnt s2 = cnt s1" "tbl s2 = (tbl s1)\<lparr>task_comments := map ?f (task_comments (tbl s1))\<rparr>"
    and r: "find (\<lambda>r. c_id r = i) (task_comments (tbl s2)) = Some r" "c = scan_comment r"
    by blast
  have "task_comments (tbl s2) = map ?f (task_comments (tbl s1))" by (simp add: up(2))
  from r(1) [unfolded this] obtain x where x: "r = ?f x" "c_id (?f x) = i"
    by (rule find_map_obtain)
  then have id: "c_id r = i" by simp
  with x have "c_body r = body" by (cases "c_id x = i") simp_all
  moreover have "tbl s1 = tbl s" "cnt s1 = cnt s" "may_modify (tbl s) a i"
    using read_onlyD [OF requireCanModify_ro m] requireCanModify_Inr [OF _ m] I by simp_all
  ultimately show ?thesis
    using up id s' r(2)
    by (intro that [of "clock E (stmt s1)"]) (simp_all add: scan_comment_def)
qed

end
