(* ===== verification/Cache.thy ===== *)
theory Cache
  imports Outbox_Repo
begin

text \<open>
  \<open>internal/infrastructure/cache\<close>: the versioned list cache of \<open>tasks.go\<close> and the delivery dedup
  of \<open>dedup.go\<close>, both on Redis.

  Redis is a server the sources only talk to: its commands are the fields of the record \<open>redis\<close>,
  functions on an abstract server state, with \<open>redis.Nil\<close> as \<open>Inr None\<close>. What the code relies on of
  them is the predicate \<open>redis_ok\<close>, stated over a view of the server's keys. The encoding of a
  list of tasks as JSON is the pair of functions \<open>marshal\<close> and \<open>unmarshal\<close>; their round trip is the
  predicate \<open>codec_ok\<close>. \<open>context.WithoutCancel\<close> has no counterpart: a call that a cancelled context
  refuses is a failing call, and every call may fail here.
\<close>

subsection \<open>The client\<close>

record 'r redis =
  rd_get :: "string \<Rightarrow> 'r \<Rightarrow> (gerr + string option) \<times> 'r"
  rd_set :: "string \<Rightarrow> string \<Rightarrow> duration \<Rightarrow> 'r \<Rightarrow> gerr option \<times> 'r"
  rd_incr :: "string \<Rightarrow> 'r \<Rightarrow> (gerr + int) \<times> 'r"
  rd_exists :: "string \<Rightarrow> 'r \<Rightarrow> (gerr + int) \<times> 'r"

record codec =
  marshal :: "Task list \<Rightarrow> gerr + string"
  unmarshal :: "string \<Rightarrow> gerr + Task list"

definition isCancelled :: "gerr \<Rightarrow> bool" where
  "isCancelled e \<longleftrightarrow> errors_is e Canceled \<or> errors_is e DeadlineExceeded"

subsection \<open>The list cache\<close>

definition versionUnknown :: int64 where "versionUnknown = -1"

definition versionKey :: "int64 \<Rightarrow> string" where
  "versionKey teamID = ''tasks:ver:'' @ FormatInt teamID"

definition listKey :: "TaskFilter \<Rightarrow> int64 \<Rightarrow> string" where
  "listKey f version =
     (let status = (case tf_Status f of None \<Rightarrow> [] | Some st \<Rightarrow> st);
          assignee = (case tf_AssigneeID f of None \<Rightarrow> 0 | Some a \<Rightarrow> a)
      in ''tasks:'' @ FormatInt (tf_TeamID f) @ '':'' @ FormatInt version @ '':'' @ status @ '':'' @
         FormatInt assignee @ '':'' @ FormatInt (tf_AfterID f) @ '':'' @ FormatInt (tf_Limit f))"

definition cache_version :: "'r redis \<Rightarrow> int64 \<Rightarrow> 'r \<Rightarrow> (gerr + int64) \<times> 'r" where
  "cache_version R teamID r =
     (case rd_get R (versionKey teamID) r of
        (Inl e, r') \<Rightarrow> (Inl e, r')
      | (Inr None, r') \<Rightarrow> (Inr 0, r')
      | (Inr (Some b), r') \<Rightarrow> (ParseInt b, r'))"

text \<open>The second half of \<open>GetList\<close>: the entry under a version, if there is one and it decodes.\<close>

definition cache_fetch :: "'r redis \<Rightarrow> codec \<Rightarrow> TaskFilter \<Rightarrow> int64 \<Rightarrow> 'r \<Rightarrow> Task list option \<times> 'r" where
  "cache_fetch R J f version r =
     (case rd_get R (listKey f version) r of
        (Inl e, r') \<Rightarrow> (None, r')
      | (Inr None, r') \<Rightarrow> (None, r')
      | (Inr (Some raw), r') \<Rightarrow>
          (case unmarshal J raw of Inl e \<Rightarrow> (None, r') | Inr ts \<Rightarrow> (Some ts, r')))"

definition GetList :: "'r redis \<Rightarrow> codec \<Rightarrow> TaskFilter \<Rightarrow> 'r \<Rightarrow> (Task list \<times> int64 \<times> bool) \<times> 'r" where
  "GetList R J f r =
     (case cache_version R (tf_TeamID f) r of
        (Inl e, r1) \<Rightarrow> (([], versionUnknown, False), r1)
      | (Inr version, r1) \<Rightarrow>
          (case cache_fetch R J f version r1 of
             (None, r2) \<Rightarrow> (([], version, False), r2)
           | (Some ts, r2) \<Rightarrow> ((ts, version, True), r2)))"

definition SetList ::
  "'r redis \<Rightarrow> codec \<Rightarrow> duration \<Rightarrow> TaskFilter \<Rightarrow> int64 \<Rightarrow> Task list \<Rightarrow> 'r \<Rightarrow> unit \<times> 'r" where
  "SetList R J ttl f version ts r =
     (if version < 0 then ((), r)
      else case marshal J ts of
             Inl e \<Rightarrow> ((), r)
           | Inr raw \<Rightarrow> ((), snd (rd_set R (listKey f version) raw ttl r)))"

definition InvalidateTeam :: "'r redis \<Rightarrow> int64 \<Rightarrow> 'r \<Rightarrow> unit \<times> 'r" where
  "InvalidateTeam R teamID r = ((), snd (rd_incr R (versionKey teamID) r))"

subsection \<open>The dedup\<close>

text \<open>The state carries the counter \<open>outbox_dedup_unavailable_total\<close> beside the server.\<close>

definition sentKey :: "int64 \<Rightarrow> string" where
  "sentKey i = ''outbox:sent:'' @ FormatInt i"

definition WasSent :: "'r redis \<Rightarrow> int64 \<Rightarrow> 'r \<times> nat \<Rightarrow> bool \<times> 'r \<times> nat" where
  "WasSent R i rn =
     (case rd_exists R (sentKey i) (fst rn) of
        (Inl e, r') \<Rightarrow> (False, r', if isCancelled e then snd rn else Suc (snd rn))
      | (Inr n, r') \<Rightarrow> (n > 0, r', snd rn))"

definition MarkSent :: "'r redis \<Rightarrow> duration \<Rightarrow> int64 \<Rightarrow> 'r \<times> nat \<Rightarrow> unit \<times> 'r \<times> nat" where
  "MarkSent R ttl i rn =
     (case rd_set R (sentKey i) ''1'' ttl (fst rn) of
        (Some e, r') \<Rightarrow> ((), r', if isCancelled e then snd rn else Suc (snd rn))
      | (None, r') \<Rightarrow> ((), r', snd rn))"

subsection \<open>What the code relies on\<close>

text \<open>
  A view gives each key its value and whether the key has an expiry time. Keys with one may be
  gone at any moment, the others stay.
\<close>

type_synonym keys = "string \<Rightarrow> (string \<times> bool) option"

definition aged :: "keys \<Rightarrow> keys \<Rightarrow> bool" where
  "aged V V' \<longleftrightarrow> (\<forall>k. V' k = V k \<or> (\<exists>b. V k = Some (b, True) \<and> V' k = None))"

text \<open>The integer \<open>INCR\<close> sees under a key: 0 without expiry where there is none.\<close>

definition counter :: "keys \<Rightarrow> string \<Rightarrow> int \<Rightarrow> bool \<Rightarrow> bool" where
  "counter V k n x \<longleftrightarrow> V k = None \<and> n = 0 \<and> \<not> x \<or> V k = Some (FormatInt n, x)"

definition get_law :: "'r redis \<Rightarrow> ('r \<Rightarrow> keys) \<Rightarrow> bool" where
  "get_law R view \<longleftrightarrow> (\<forall>k r res r'. rd_get R k r = (res, r') \<longrightarrow>
     aged (view r) (view r') \<and> (\<forall>v. res = Inr v \<longrightarrow> v = map_option fst (view r' k)))"

definition exists_law :: "'r redis \<Rightarrow> ('r \<Rightarrow> keys) \<Rightarrow> bool" where
  "exists_law R view \<longleftrightarrow> (\<forall>k r res r'. rd_exists R k r = (res, r') \<longrightarrow>
     aged (view r) (view r') \<and> (\<forall>n. res = Inr n \<longrightarrow> n = (if view r' k = None then 0 else 1)))"

definition set_law :: "'r redis \<Rightarrow> ('r \<Rightarrow> keys) \<Rightarrow> bool" where
  "set_law R view \<longleftrightarrow> (\<forall>k b ttl r res r'. rd_set R k b ttl r = (res, r') \<longrightarrow>
     (\<exists>V. aged (view r) V \<and> (view r' = V(k \<mapsto> (b, ttl > 0)) \<or> res \<noteq> None \<and> view r' = V)))"

definition incr_law :: "'r redis \<Rightarrow> ('r \<Rightarrow> keys) \<Rightarrow> bool" where
  "incr_law R view \<longleftrightarrow> (\<forall>k r res r'. rd_incr R k r = (res, r') \<longrightarrow>
     (\<exists>V. aged (view r) V \<and> (\<forall>j. j \<noteq> k \<longrightarrow> view r' j = V j) \<and> (\<forall>n x. counter V k n x \<longrightarrow>
        (if in_int64 (n + 1)
         then res = Inr (n + 1) \<and> view r' = V(k \<mapsto> (FormatInt (n + 1), x)) \<or>
              (\<exists>e. res = Inl e) \<and> (view r' = V \<or> view r' = V(k \<mapsto> (FormatInt (n + 1), x)))
         else (\<exists>e. res = Inl e) \<and> view r' = V))))"

definition redis_ok :: "'r redis \<Rightarrow> ('r \<Rightarrow> keys) \<Rightarrow> bool" where
  "redis_ok R view \<longleftrightarrow> get_law R view \<and> exists_law R view \<and> set_law R view \<and> incr_law R view"

definition task_utf8 :: "Task \<Rightarrow> bool" where
  "task_utf8 t \<longleftrightarrow> ValidString (task_Title t) \<and> ValidString (task_Description t) \<and> ValidString (task_Status t)"

definition codec_ok :: "codec \<Rightarrow> bool" where
  "codec_ok J \<longleftrightarrow> (\<forall>ts b. list_all task_utf8 ts \<and> marshal J ts = Inr b \<longrightarrow> unmarshal J b = Inr ts)"

subsection \<open>A server that keeps the laws\<close>

text \<open>The plain map, with no expiry and no failures: the laws can hold together.\<close>

definition map_redis :: "keys redis" where
  "map_redis =
     \<lparr>rd_get = \<lambda>k V. (Inr (map_option fst (V k)), V),
      rd_set = \<lambda>k b ttl V. (None, V(k \<mapsto> (b, ttl > 0))),
      rd_incr = \<lambda>k V.
        (case (case V k of None \<Rightarrow> Inr 0 | Some (b, x) \<Rightarrow> ParseInt b) of
           Inl e \<Rightarrow> (Inl e, V)
         | Inr n \<Rightarrow> if in_int64 (n + 1)
                     then (Inr (n + 1), V(k \<mapsto> (FormatInt (n + 1), case V k of None \<Rightarrow> False | Some (b, x) \<Rightarrow> x)))
                     else (Inl (OtherErr ''overflow''), V)),
      rd_exists = \<lambda>k V. (Inr (if V k = None then 0 else 1), V)\<rparr>"

lemma aged_refl [simp]: "aged V V"
  by (simp add: aged_def)

lemma ParseInt_FormatInt_bad: "\<not> in_int64 n \<Longrightarrow> ParseInt (FormatInt n) = Inl NumError"
  using hd_nat_digits [of "nat n"]
  by (auto simp: ParseInt_def FormatInt_def parse_nat_digits in_int64_def Let_def)

lemma map_redis_ok: "redis_ok map_redis (\<lambda>V. V)"
proof -
  have "incr_law map_redis (\<lambda>V. V)"
    unfolding incr_law_def
  proof (intro allI impI exI conjI)
    fix k V res V' j assume "rd_incr map_redis k V = (res, V')" and "j \<noteq> k"
    then show "V' j = V j" by (auto simp: map_redis_def split: sum.splits if_splits)
  next
    fix k V res V' n x
    assume inc: "rd_incr map_redis k V = (res, V')" and c: "counter V k n x"
    show "if in_int64 (n + 1)
        then res = Inr (n + 1) \<and> V' = V(k \<mapsto> (FormatInt (n + 1), x)) \<or>
             (\<exists>e. res = Inl e) \<and> (V' = V \<or> V' = V(k \<mapsto> (FormatInt (n + 1), x)))
        else (\<exists>e. res = Inl e) \<and> V' = V"
      using inc c
      by (cases "in_int64 n")
        (auto simp: counter_def map_redis_def ParseInt_FormatInt ParseInt_FormatInt_bad split: if_splits)
  qed simp
  moreover have "get_law map_redis (\<lambda>V. V)" "exists_law map_redis (\<lambda>V. V)" "set_law map_redis (\<lambda>V. V)"
    by (auto simp: get_law_def exists_law_def set_law_def map_redis_def intro: aged_refl)
  ultimately show ?thesis by (simp add: redis_ok_def)
qed

subsection \<open>Keys\<close>

text \<open>The filters the HTTP layer builds: ids are positive, the status is one of the three.\<close>

definition filter_ok :: "TaskFilter \<Rightarrow> bool" where
  "filter_ok f \<longleftrightarrow> 1 \<le> tf_TeamID f \<and>
     (case tf_Status f of None \<Rightarrow> True
      | Some st \<Rightarrow> st \<in> {TaskStatusTodo, TaskStatusInProgress, TaskStatusDone}) \<and>
     (case tf_AssigneeID f of None \<Rightarrow> True | Some a \<Rightarrow> 1 \<le> a)"

lemma colon_split:
  assumes "a @ CHR '':'' # x = b @ CHR '':'' # y" and "CHR '':'' \<notin> set a" and "CHR '':'' \<notin> set b"
  shows "a = b \<and> x = y"
  using assms
proof (induction a arbitrary: b)
  case Nil
  then show ?case by (cases b) auto
next
  case (Cons c a)
  then show ?case by (cases b) auto
qed

definition status_part :: "TaskFilter \<Rightarrow> string" where
  "status_part f = (case tf_Status f of None \<Rightarrow> [] | Some st \<Rightarrow> st)"

definition assignee_part :: "TaskFilter \<Rightarrow> int" where
  "assignee_part f = (case tf_AssigneeID f of None \<Rightarrow> 0 | Some a \<Rightarrow> a)"

lemma status_part_ok:
  assumes "filter_ok f" and "filter_ok g"
  shows "CHR '':'' \<notin> set (status_part f)" and "status_part f = status_part g \<Longrightarrow> tf_Status f = tf_Status g"
  using assms
  by (auto simp: filter_ok_def status_part_def TaskStatusTodo_def TaskStatusInProgress_def TaskStatusDone_def
      split: option.splits)

lemma assignee_part_inj:
  "filter_ok f \<Longrightarrow> filter_ok g \<Longrightarrow> assignee_part f = assignee_part g \<Longrightarrow> tf_AssigneeID f = tf_AssigneeID g"
  by (auto simp: filter_ok_def assignee_part_def split: option.splits)

lemma listKey_inj:
  assumes f: "filter_ok f" and g: "filter_ok g" and eq: "listKey f v = listKey g w"
  shows "f = g \<and> v = w"
proof -
  note no_colon = FormatInt_no_colon status_part_ok(1) [OF f g] status_part_ok(1) [OF g f]
  from eq have
    "FormatInt (tf_TeamID f) @ CHR '':'' # FormatInt v @ CHR '':'' # status_part f @ CHR '':'' #
       FormatInt (assignee_part f) @ CHR '':'' # FormatInt (tf_AfterID f) @ CHR '':'' # FormatInt (tf_Limit f) =
     FormatInt (tf_TeamID g) @ CHR '':'' # FormatInt w @ CHR '':'' # status_part g @ CHR '':'' #
       FormatInt (assignee_part g) @ CHR '':'' # FormatInt (tf_AfterID g) @ CHR '':'' # FormatInt (tf_Limit g)"
    by (simp add: listKey_def status_part_def assignee_part_def Let_def)
  then have "FormatInt (tf_TeamID f) = FormatInt (tf_TeamID g)" "FormatInt v = FormatInt w"
    "status_part f = status_part g" "FormatInt (assignee_part f) = FormatInt (assignee_part g)"
    "FormatInt (tf_AfterID f) = FormatInt (tf_AfterID g)" "FormatInt (tf_Limit f) = FormatInt (tf_Limit g)"
    using no_colon by (auto dest!: colon_split)
  then have "tf_TeamID f = tf_TeamID g" "v = w" "tf_Status f = tf_Status g"
    "tf_AssigneeID f = tf_AssigneeID g" "tf_AfterID f = tf_AfterID g" "tf_Limit f = tf_Limit g"
    using status_part_ok(2) [OF f g] assignee_part_inj [OF f g] by (simp_all add: FormatInt_inj)
  then show ?thesis by simp
qed

lemma FormatInt_not_ver: "FormatInt i \<noteq> ''ver''"
  using nat_digits_no_char [of "CHR ''v''"] by (auto simp: FormatInt_def) (metis list.set_intros(1))+

lemma versionKey_not_listKey [simp]: "versionKey i \<noteq> listKey f v" "listKey f v \<noteq> versionKey i"
proof -
  have "versionKey i \<noteq> listKey f v"
  proof
    assume "versionKey i = listKey f v"
    then have "''ver'' @ CHR '':'' # FormatInt i = FormatInt (tf_TeamID f) @ CHR '':'' #
        drop (Suc (length (FormatInt (tf_TeamID f)))) (drop 6 (listKey f v))"
      by (simp add: versionKey_def listKey_def Let_def)
    then have "FormatInt (tf_TeamID f) = ''ver''"
      using colon_split [of "''ver''" _ "FormatInt (tf_TeamID f)"] FormatInt_no_colon by fastforce
    then show False using FormatInt_not_ver by blast
  qed
  then show "versionKey i \<noteq> listKey f v" "listKey f v \<noteq> versionKey i" by auto
qed

lemma versionKey_inj [simp]: "versionKey i = versionKey j \<longleftrightarrow> i = j"
  by (auto simp: versionKey_def dest: FormatInt_inj)

lemma sentKey_inj [simp]: "sentKey i = sentKey j \<longleftrightarrow> i = j"
  by (auto simp: sentKey_def dest: FormatInt_inj)

lemma sentKey_neq [simp]: "sentKey i \<noteq> versionKey j" "sentKey i \<noteq> listKey f v"
  by (simp_all add: sentKey_def versionKey_def listKey_def Let_def)

end
