(* ===== verification/Tasks_Service.thy ===== *)
theory Tasks_Service
  imports Comments_Service Cache
begin

text \<open>
  \<open>internal/service/tasks.go\<close>: tasks over the repositories and the list cache. The state is the
  database beside the cache's server. \<open>Create\<close> checks the actor and the assignee before its
  transaction, \<open>Update\<close> inside it; both invalidate the team's lists after the commit and only
  then.
\<close>

subsection \<open>Programs over the database and the cache\<close>

type_synonym ('r, 'a) svc = "db \<times> 'r \<Rightarrow> (gerr + 'a) \<times> db \<times> 'r"

definition on_db :: "'a prog \<Rightarrow> ('r, 'a) svc" where
  "on_db m w = (let (x, s') = m (fst w) in (x, s', snd w))"

definition on_cache :: "('r \<Rightarrow> 'a \<times> 'r) \<Rightarrow> ('r, 'a) svc" where
  "on_cache c w = (let (x, r') = c (snd w) in (Inr x, fst w, r'))"

subsection \<open>The service\<close>

record TaskInput =
  ti_AssigneeID :: "int64 option"
  ti_Title :: string
  ti_Description :: string
  ti_Status :: TaskStatus

definition requireAssigneeIsMember :: "env \<Rightarrow> int64 \<Rightarrow> int64 option \<Rightarrow> unit prog" where
  "requireAssigneeIsMember E teamID assigneeID =
     (case assigneeID of
        None \<Rightarrow> ret ()
      | Some a \<Rightarrow> go_try (TeamRepo_MemberRole E teamID a)
          (\<lambda>e. if errors_is e ErrNotFound then ErrNotTeamMember else Wrap ''assignee role'' e)
          (\<lambda>_. ret ()))"

definition new_task :: "int64 \<Rightarrow> int64 \<Rightarrow> TaskInput \<Rightarrow> Task" where
  "new_task actorID teamID inp =
     (let status = (if ti_Status inp = [] then TaskStatusTodo else ti_Status inp)
      in \<lparr>task_CreatedAt = 0, task_UpdatedAt = 0, task_CompletedAt = None,
          task_AssigneeID = ti_AssigneeID inp, task_Title = ti_Title inp,
          task_Description = ti_Description inp, task_Status = status, task_ID = 0,
          task_TeamID = teamID, task_CreatedBy = actorID\<rparr>)"

definition create_task_tx :: "env \<Rightarrow> Task \<Rightarrow> Task prog" where
  "create_task_tx E t =
     go_try (TaskRepo_Create E t) (Wrap ''create task'')
       (\<lambda>taskID. go_try (TaskRepo_ByID E taskID) (Wrap ''load created task'') ret)"

definition Tasks_Create ::
  "env \<Rightarrow> 'r redis \<Rightarrow> int64 \<Rightarrow> int64 \<Rightarrow> TaskInput \<Rightarrow> ('r, Task) svc" where
  "Tasks_Create E R actorID teamID inp =
     go_try (on_db (RequireTeamRole E actorID teamID TeamRoleMember)) id
       (\<lambda>_.
     go_try (on_db (requireAssigneeIsMember E teamID (ti_AssigneeID inp))) id
       (\<lambda>_.
     go_try (on_db (tx_do E (create_task_tx E (new_task actorID teamID inp)))) id
       (\<lambda>created.
     go_try (on_cache (InvalidateTeam R teamID)) id (\<lambda>_. ret created))))"

definition Tasks_List ::
  "env \<Rightarrow> 'r redis \<Rightarrow> codec \<Rightarrow> duration \<Rightarrow> int64 \<Rightarrow> TaskFilter \<Rightarrow> ('r, Task list) svc" where
  "Tasks_List E R J ttl actorID f =
     go_try (on_db (RequireTeamRole E actorID (tf_TeamID f) TeamRoleMember)) id
       (\<lambda>_.
     go_try (on_cache (GetList R J f)) id
       (\<lambda>(cached, version, ok). if ok then ret cached
         else go_try (on_db (TaskRepo_List E f)) (Wrap ''list tasks'')
           (\<lambda>ts. go_try (on_cache (SetList R J ttl f version ts)) id (\<lambda>_. ret ts))))"

definition apply_input :: "Task \<Rightarrow> TaskInput \<Rightarrow> Task" where
  "apply_input current inp =
     current\<lparr>task_Title := ti_Title inp, task_Description := ti_Description inp,
             task_Status := ti_Status inp, task_AssigneeID := ti_AssigneeID inp\<rparr>"

definition update_task_tx :: "env \<Rightarrow> int64 \<Rightarrow> int64 \<Rightarrow> TaskInput \<Rightarrow> Task prog" where
  "update_task_tx E actorID taskID inp =
     go_try (TaskRepo_ByID E taskID) (not_found_or ''load task'')
       (\<lambda>current.
     go_try (RequireTeamRole E actorID (task_TeamID current) TeamRoleMember) id
       (\<lambda>_.
     go_try (requireAssigneeIsMember E (task_TeamID current) (ti_AssigneeID inp)) id
       (\<lambda>_. go_try (TaskRepo_Update E actorID (apply_input current inp)) (Wrap ''update task'') ret)))"

definition Tasks_Update ::
  "env \<Rightarrow> 'r redis \<Rightarrow> int64 \<Rightarrow> int64 \<Rightarrow> TaskInput \<Rightarrow> ('r, Task) svc" where
  "Tasks_Update E R actorID taskID inp =
     go_try (on_db (tx_do E (update_task_tx E actorID taskID inp))) id
       (\<lambda>updated.
     go_try (on_cache (InvalidateTeam R (task_TeamID updated))) id (\<lambda>_. ret updated))"

definition Tasks_History :: "env \<Rightarrow> int64 \<Rightarrow> int64 \<Rightarrow> TaskChange list prog" where
  "Tasks_History E actorID taskID =
     go_try (TaskRepo_ByID E taskID) (not_found_or ''load task'')
       (\<lambda>task.
     go_try (RequireTeamRole E actorID (task_TeamID task) TeamRoleMember) id
       (\<lambda>_. go_try (TaskRepo_History E taskID) (Wrap ''task history'') ret))"

subsection \<open>Helpers\<close>

lemma on_db_Inr: "on_db m w = (Inr x, w') \<longleftrightarrow> m (fst w) = (Inr x, fst w') \<and> snd w' = snd w"
  by (cases w') (auto simp: on_db_def split: prod.splits)

lemma on_cache_Inr: "on_cache c w = (Inr x, w') \<longleftrightarrow> c (snd w) = (x, snd w') \<and> fst w' = fst w"
  by (cases w') (auto simp: on_cache_def split: prod.splits)

lemma on_db_fst [simp]: "fst (snd (on_db m w)) = snd (m (fst w))"
  by (simp add: on_db_def split: prod.splits)

lemma on_cache_fst [simp]: "fst (snd (on_cache c w)) = fst w"
  by (simp add: on_cache_def split: prod.splits)

lemma requireAssigneeIsMember_ro [ro_intros]: "read_only (requireAssigneeIsMember E teamID a)"
  unfolding requireAssigneeIsMember_def by (intro ro_intros)

lemma Tasks_History_ro [ro_intros]: "read_only (Tasks_History E actorID taskID)"
  unfolding Tasks_History_def by (intro ro_intros)

lemma requireAssigneeIsMember_Inr:
  "requireAssigneeIsMember E teamID a s = (Inr u, s') \<Longrightarrow> a = Some i \<Longrightarrow> (teamID, i) \<in> member_pairs (tbl s)"
  using find_member [of teamID i "tbl s"]
  by (auto simp: requireAssigneeIsMember_def go_try_Inr TeamRepo_MemberRole_Inr)

lemma create_task_tx_grows [grow_intros]: "cnt_grows (create_task_tx E t)"
  unfolding create_task_tx_def by (intro grow_intros ro_intros)

lemma update_task_tx_grows [grow_intros]: "cnt_grows (update_task_tx E actorID taskID inp)"
  unfolding update_task_tx_def by (intro grow_intros ro_intros)

subsection \<open>What the transactions leave\<close>

lemma create_task_tx_Inr:
  assumes "create_task_tx E t s = (Inr u, s')"
  obtains s1 i where "TaskRepo_Create E t s = (Inr i, s1)" and "tbl s' = tbl s1" and "cnt s' = cnt s1"
    and "TaskRepo_ByID E i s1 = (Inr u, s')"
  using assms by (auto simp: create_task_tx_def go_try_Inr ret_def TaskRepo_ByID_Inr)

lemma create_task_tx_inv:
  assumes I: "db_inv E s" and tx: "create_task_tx E t s = (Inr u, s')"
    and asg: "\<And>a. task_AssigneeID t = Some a \<Longrightarrow> (task_TeamID t, a) \<in> member_pairs (tbl s)"
  shows "db_inv E s'"
  using tx
proof (rule create_task_tx_Inr)
  fix s1 i assume c: "TaskRepo_Create E t s = (Inr i, s1)" and s': "tbl s' = tbl s1" "cnt s' = cnt s1"
  from c show ?thesis
  proof (rule TaskRepo_Create_Inr)
    fix completedAt g now1 now2
    let ?k = "\<lparr>k_id = i, k_team_id = task_TeamID t, k_title = task_Title t,
              k_description = Some (task_Description t), k_status = task_Status t,
              k_assignee_id = task_AssigneeID t, k_created_by = task_CreatedBy t,
              k_created_at = now1, k_updated_at = now1, k_completed_at = completedAt\<rparr>"
    let ?h = "\<lparr>h_id = n_history (cnt s), h_task_id = i, h_changed_by = task_CreatedBy t,
              h_change_group_id = g, h_field = ChangeFieldCreated, h_old_value = None,
              h_new_value = None, h_changed_at = now2\<rparr>"
    assume *: "i = n_tasks (cnt s)"
      "cnt s1 = (cnt s)\<lparr>n_tasks := i + 1, n_history := n_history (cnt s) + 1\<rparr>"
      "task_TeamID t \<in> team_ids (tbl s)" "task_CreatedBy t \<in> user_ids (tbl s)"
      "task_Status t \<in> set task_status_enum" "completedAt \<noteq> None \<longleftrightarrow> task_Status t = TaskStatusDone"
      "length g = 32"
      "tbl s1 = (tbl s)\<lparr>tasks := tasks (tbl s) @ [?k], task_history := task_history (tbl s) @ [?h]\<rparr>"
    have "task_ok (tbl s) ?k" using * asg by (simp add: task_ok_def)
    from inv_create_task [OF I _ this, of ?h] * s' show ?thesis by simp
  qed
qed

lemma update_task_tx_Inr:
  assumes "update_task_tx E actorID taskID inp s = (Inr u, s')"
  obtains old s1 where "find (\<lambda>r. k_id r = taskID) (tasks (tbl s)) = Some old"
    and "tbl s1 = tbl s" and "cnt s1 = cnt s"
    and "db_inv E s \<Longrightarrow> may_act (tbl s) actorID (k_team_id old) TeamRoleMember"
    and "\<And>a. ti_AssigneeID inp = Some a \<Longrightarrow> (k_team_id old, a) \<in> member_pairs (tbl s)"
    and "TaskRepo_Update E actorID (apply_input (scan_task old) inp) s1 = (Inr u, s')"
proof -
  let ?s = "s\<lparr>stmt := Suc (stmt s)\<rparr>"
  from assms obtain old s2 s3 where old: "find (\<lambda>r. k_id r = taskID) (tasks (tbl s)) = Some old"
    and role: "RequireTeamRole E actorID (k_team_id old) TeamRoleMember ?s = (Inr (), s2)"
    and asg: "requireAssigneeIsMember E (k_team_id old) (ti_AssigneeID inp) s2 = (Inr (), s3)"
    and upd: "TaskRepo_Update E actorID (apply_input (scan_task old) inp) s3 = (Inr u, s')"
    by (auto simp: update_task_tx_def go_try_Inr TaskRepo_ByID_Inr ret_def scan_task_def)
  have s2: "tbl s2 = tbl s" "cnt s2 = cnt s" using read_onlyD [OF RequireTeamRole_ro role] by simp_all
  have s3: "tbl s3 = tbl s" "cnt s3 = cnt s"
    using read_onlyD [OF requireAssigneeIsMember_ro asg] s2 by simp_all
  show ?thesis
  proof (rule that [OF old s3 _ _ upd])
    show "may_act (tbl s) actorID (k_team_id old) TeamRoleMember" if "db_inv E s"
      using RequireTeamRole_Inr [OF _ role] that by simp
    show "(k_team_id old, a) \<in> member_pairs (tbl s)" if "ti_AssigneeID inp = Some a" for a
      using requireAssigneeIsMember_Inr [OF asg that] s2 by simp
  qed
qed

lemma apply_input_fields [simp]:
  "task_ID (apply_input (scan_task r) inp) = k_id r"
  "task_TeamID (apply_input (scan_task r) inp) = k_team_id r"
  "task_Title (apply_input t inp) = ti_Title inp" "task_Description (apply_input t inp) = ti_Description inp"
  "task_Status (apply_input t inp) = ti_Status inp" "task_AssigneeID (apply_input t inp) = ti_AssigneeID inp"
  by (simp_all add: apply_input_def scan_task_def)

lemma update_task_tx_inv:
  assumes I: "db_inv E s" and tx: "update_task_tx E actorID taskID inp s = (Inr u, s')"
  shows "db_inv E s'"
  using tx
proof (rule update_task_tx_Inr)
  fix old s1
  assume old: "find (\<lambda>r. k_id r = taskID) (tasks (tbl s)) = Some old"
    and s1: "tbl s1 = tbl s" "cnt s1 = cnt s"
    and asg: "\<And>a. ti_AssigneeID inp = Some a \<Longrightarrow> (k_team_id old, a) \<in> member_pairs (tbl s)"
    and upd: "TaskRepo_Update E actorID (apply_input (scan_task old) inp) s1 = (Inr u, s')"
  let ?t = "apply_input (scan_task old) inp"
  from find_Some_iff_mem [OF old] have id: "k_id old = taskID" by simp
  from upd show ?thesis
  proof (rule TaskRepo_Update_Inr)
    fix old' w now g hs r
    assume *: "find (\<lambda>r. k_id r = task_ID ?t) (tasks (tbl s1)) = Some old'"
      "task_Status ?t \<in> set task_status_enum"
      "history_rows (n_history (cnt s1)) (task_ID ?t) actorID g (task_changes old' ?t) hs"
      "length g = 32" "task_changes old' ?t \<noteq> [] \<longrightarrow> actorID \<in> user_ids (tbl s1)"
      "cnt s' = (cnt s1)\<lparr>n_history := n_history (cnt s1) + int (length (task_changes old' ?t))\<rparr>"
      "tbl s' = (tbl s1)\<lparr>tasks := updated_tasks ?t (completed_after old' ?t w) now (tasks (tbl s1)),
           task_history := task_history (tbl s1) @ hs\<rparr>"
    have "old' = old" using *(1) old id s1 by simp
    then show ?thesis
      using inv_update_task [OF I, of ?t old actorID g hs w now] * s1 asg by simp
  qed
qed

subsection \<open>Invariant\<close>

definition svc_keeps :: "env \<Rightarrow> ('r, 'a) svc \<Rightarrow> bool" where
  "svc_keeps E m \<longleftrightarrow> (\<forall>w. db_inv E (fst w) \<longrightarrow> db_inv E (fst (snd (m w))))"

lemma svc_keeps_db: "keeps_inv E m \<Longrightarrow> svc_keeps E (on_db m)"
  by (simp add: svc_keeps_def keeps_inv_def)

lemma svc_keeps_cache: "svc_keeps E (on_cache c)"
  by (simp add: svc_keeps_def)

lemma svc_keeps_ret: "svc_keeps E (ret a)"
  by (simp add: svc_keeps_def ret_def)

lemma svc_keeps_try:
  fixes m :: "('r, 'a) svc"
  assumes "svc_keeps E m" and "\<And>x. svc_keeps E (k x)"
  shows "svc_keeps E (go_try m f k)"
  unfolding svc_keeps_def
proof (intro allI impI)
  fix w :: "db \<times> 'r" assume I: "db_inv E (fst w)"
  obtain r w1 where m: "m w = (r, w1)" by (cases "m w")
  with assms(1) I have "db_inv E (fst w1)" by (metis svc_keeps_def snd_conv)
  then have "db_inv E (fst (snd (k x w1)))" for x
    using assms(2) [unfolded svc_keeps_def, rule_format, of w1 x] by simp
  with \<open>db_inv E (fst w1)\<close> show "db_inv E (fst (snd (go_try m f k w)))"
    by (simp add: go_try_def m split: sum.splits)
qed

lemma Tasks_List_keeps: "svc_keeps E (Tasks_List E R J ttl actorID f)"
  unfolding Tasks_List_def
  by (intro svc_keeps_try svc_keeps_db svc_keeps_cache keeps_ro RequireTeamRole_ro)
    (auto intro!: svc_keeps_try svc_keeps_db svc_keeps_cache svc_keeps_ret keeps_ro TaskRepo_List_ro
      split: prod.splits)

lemma Tasks_Update_keeps: "svc_keeps E (Tasks_Update E R actorID taskID inp)"
  unfolding Tasks_Update_def
  by (intro svc_keeps_try svc_keeps_db svc_keeps_cache svc_keeps_ret
      keeps_tx [OF update_task_tx_grows update_task_tx_inv])

lemma Tasks_Create_keeps:
  fixes R :: "'r redis"
  shows "svc_keeps E (Tasks_Create E R actorID teamID inp)"
  unfolding svc_keeps_def
proof (intro allI impI)
  fix w :: "db \<times> 'r" assume I: "db_inv E (fst w)"
  let ?t = "new_task actorID teamID inp"
  obtain x1 s1 where role: "RequireTeamRole E actorID teamID TeamRoleMember (fst w) = (x1, s1)" by fastforce
  obtain x2 s2 where asg: "requireAssigneeIsMember E teamID (ti_AssigneeID inp) s1 = (x2, s2)" by fastforce
  obtain x3 s3 where tx: "tx_do E (create_task_tx E ?t) s2 = (x3, s3)" by fastforce
  have s1: "db_inv E s1" "tbl s1 = tbl (fst w)" using read_onlyD [OF RequireTeamRole_ro role] I by simp_all
  have s2: "db_inv E s2" "tbl s2 = tbl s1"
    using read_onlyD [OF requireAssigneeIsMember_ro asg] s1 by simp_all
  have "db_inv E s3" if "x2 = Inr ()"
  proof -
    have mem: "(task_TeamID ?t, a) \<in> member_pairs (tbl s2)" if "task_AssigneeID ?t = Some a" for a
      using requireAssigneeIsMember_Inr [of E teamID "ti_AssigneeID inp" s1 "()" s2 a] asg \<open>x2 = Inr ()\<close> that s2
      by (simp add: new_task_def Let_def)
    have "db_inv E (snd (tx_do E (create_task_tx E ?t) s2))"
      by (rule tx_inv_at [OF create_task_tx_grows s2(1)])
        (erule create_task_tx_inv [rotated], use s2(1) mem in simp_all)
    with tx show ?thesis by simp
  qed
  then show "db_inv E (fst (snd (Tasks_Create E R actorID teamID inp w)))"
    using s1(1) s2(1) role asg tx
    by (auto simp: Tasks_Create_def go_try_def on_db_def on_cache_def ret_def split: sum.splits prod.splits)
qed

end
