(* ===== verification/Scenario.thy ===== *)
theory Scenario
  imports Tasks_Service
begin

text \<open>
  A small concrete world for the instances the properties are evaluated on: three users (the
  third a global admin), one team with its owner and a member, one task assigned to the member,
  one comment and one queued email, in an environment where every call answers.
\<close>

definition demo_env :: env where
  "demo_env = \<lparr>fault = \<lambda>_. NoFault, clock = \<lambda>n. 5000000 + int n, wall = \<lambda>n. 5000000 + int n,
     rnd = \<lambda>_ _. 0, collate = \<lambda>x. x, locked = \<lambda>_ _. False,
     month_before = \<lambda>t. t - 2592000000000\<rparr>"

definition demo_user :: "int64 \<Rightarrow> string \<Rightarrow> Role \<Rightarrow> user_row" where
  "demo_user i email role = \<lparr>u_id = i, u_email = email, u_password_hash = ''h'', u_name = email,
     u_role = role, u_created_at = 0\<rparr>"

definition demo_task :: task_row where
  "demo_task = \<lparr>k_id = 1, k_team_id = 1, k_title = ''a'', k_description = Some ''d'',
     k_status = TaskStatusTodo, k_assignee_id = Some 2, k_created_by = 1, k_created_at = 0,
     k_updated_at = 0, k_completed_at = None\<rparr>"

definition demo_group :: string where
  "demo_group = replicate 32 CHR ''0''"

definition demo_tables :: tables where
  "demo_tables =
     \<lparr>users = [demo_user 1 ''u1'' RoleUser, demo_user 2 ''u2'' RoleUser, demo_user 3 ''u3'' RoleAdmin,
               demo_user 4 ''u4'' RoleUser],
      teams = [\<lparr>t_id = 1, t_name = ''t'', t_created_by = 1, t_created_at = 0\<rparr>],
      team_members =
        [\<lparr>m_team_id = 1, m_user_id = 1, m_role = TeamRoleOwner, m_joined_at = 0\<rparr>,
         \<lparr>m_team_id = 1, m_user_id = 2, m_role = TeamRoleMember, m_joined_at = 0\<rparr>],
      tasks = [demo_task],
      task_history = [\<lparr>h_id = 1, h_task_id = 1, h_changed_by = 1, h_change_group_id = demo_group,
         h_field = ChangeFieldCreated, h_old_value = None, h_new_value = None, h_changed_at = 0\<rparr>],
      task_comments = [\<lparr>c_id = 1, c_task_id = 1, c_user_id = 2, c_body = ''hi'', c_created_at = 0,
         c_updated_at = 0\<rparr>],
      email_outbox = [\<lparr>o_id = 1, o_recipient = ''u2'', o_subject = ''s'', o_body = ''b'',
         o_status = status_pending, o_attempts = 0, o_next_retry_at = None, o_last_error = None,
         o_created_at = 0\<rparr>]\<rparr>"

definition demo_db :: db where
  "demo_db = \<lparr>tbl = demo_tables, cnt = \<lparr>n_users = 5, n_teams = 2, n_tasks = 2, n_history = 2,
     n_comments = 2, n_outbox = 2\<rparr>, stmt = 0\<rparr>"

definition demo_input :: TaskInput where
  "demo_input = \<lparr>ti_AssigneeID = Some 1, ti_Title = ''b'', ti_Description = ''d'',
     ti_Status = TaskStatusDone\<rparr>"

lemma demo_log_ok: "log_ok demo_task (task_log 1 demo_tables)"
  by (simp add: task_log_def demo_tables_def log_ok_created ChangeFieldCreated_def demo_task_def)

lemma demo_inv: "db_inv demo_env demo_db"
proof -
  have "audit_ok demo_tables"
    using demo_log_ok by (simp add: audit_ok_def demo_tables_def demo_task_def)
  then show ?thesis
    by (simp add: inv_def part_defs demo_db_def demo_tables_def demo_env_def demo_user_def demo_task_def
        demo_group_def tab_ok_def task_ok_def id_set_defs owns_def team_role_enum_def task_status_enum_def
        role_defs team_role_defs status_defs outbox_status_defs)
qed

end
