(* ===== verification/Sharding.thy ===== *)
theory Sharding
  imports Domain Complex_Main
begin

text \<open>
  The two pure routines of \<open>outbox/relay.go\<close>: \<open>shardBy\<close>, which cuts a claimed batch into one piece
  per worker, and \<open>backoff\<close>, the delay before the next attempt.

  \<open>backoff\<close> computes with \<open>float64\<close>. The rounding of a real number to a \<open>float64\<close> is the parameter
  \<open>fl\<close>, with the error bound of IEEE rounding as the hypothesis \<open>float_ok\<close>; \<open>rand.Float64()\<close> is a
  number \<open>u\<close> with \<open>0 \<le> u < 1\<close>. The conversion of a float out of the range of \<open>int64\<close> is the one of
  amd64, the smallest integer.
\<close>

subsection \<open>Shards\<close>

function shard_loop :: "'a list \<Rightarrow> nat \<Rightarrow> nat \<Rightarrow> 'a list list" where
  "shard_loop items sz start =
     (if start < length items \<and> 0 < sz
      then take (min (start + sz) (length items) - start) (drop start items) #
           shard_loop items sz (start + sz)
      else [])"
  by pat_completeness auto
termination by (relation "measure (\<lambda>(items, sz, start). length items - start)") auto

definition shardBy :: "'a list \<Rightarrow> int \<Rightarrow> 'a list list" where
  "shardBy items workers =
     (if length items = 0 then []
      else let w1 = (if workers < 1 then 1 else workers);
               w = (if w1 > int (length items) then int (length items) else w1);
               sz = (int (length items) + w - 1) div w
           in shard_loop items (nat sz) 0)"

declare shard_loop.simps [simp del]

lemma concat_shard_loop:
  "0 < sz \<Longrightarrow> concat (shard_loop items sz start) = drop start items"
proof (induction items sz start rule: shard_loop.induct)
  case (1 items sz start)
  show ?case
  proof (cases "start < length items")
    case True
    have "take (min (start + sz) (length items) - start) (drop start items) = take sz (drop start items)"
      by (auto simp: min_def)
    with True 1 show ?thesis
      by (subst shard_loop.simps) (simp add: add.commute [of start] flip: drop_drop)
  qed (simp add: shard_loop.simps)
qed

lemma shard_loop_pieces:
  "xs \<in> set (shard_loop items sz start) \<Longrightarrow> xs \<noteq> [] \<and> length xs \<le> sz"
proof (induction items sz start rule: shard_loop.induct)
  case (1 items sz start)
  show ?case
  proof (cases "start < length items \<and> 0 < sz")
    case True
    with 1(2) have "xs = take (min (start + sz) (length items) - start) (drop start items) \<or>
        xs \<in> set (shard_loop items sz (start + sz))"
      by (subst (asm) shard_loop.simps) simp
    then show ?thesis
    proof
      assume "xs = take (min (start + sz) (length items) - start) (drop start items)"
      with True show ?thesis by (auto simp: min_def)
    qed (rule 1(1) [OF True])
  next
    case False
    with 1(2) show ?thesis by (simp add: shard_loop.simps [of items sz start])
  qed
qed

lemma length_shard_loop:
  assumes "0 < sz" and "start \<le> length items"
  shows "length (shard_loop items sz start) * sz < length items - start + sz"
  using assms
proof (induction items sz start rule: shard_loop.induct)
  case (1 items sz start)
  show ?case
  proof (cases "start + sz \<le> length items")
    case True
    with 1 show ?thesis by (subst shard_loop.simps) auto
  next
    case False
    then have "shard_loop items sz (start + sz) = []" by (simp add: shard_loop.simps)
    with 1 False show ?thesis by (subst shard_loop.simps) auto
  qed
qed

lemma ceil_div_pos: "0 < n \<Longrightarrow> 0 < w \<Longrightarrow> 0 < (n + w - 1) div (w :: int)"
  by (simp add: pos_imp_zdiv_pos_iff)

lemma shardBy_concat: "concat (shardBy items workers) = items"
proof (cases "items = []")
  case False
  then have "0 < (int (length items) + w - 1) div w" if "0 < w" for w
    using that by (intro ceil_div_pos) simp_all
  with False show ?thesis by (simp add: shardBy_def Let_def concat_shard_loop)
qed (simp add: shardBy_def)

lemma shardBy_nonempty: "xs \<in> set (shardBy items workers) \<Longrightarrow> xs \<noteq> []"
  by (auto simp: shardBy_def Let_def dest: shard_loop_pieces split: if_splits)

text \<open>Never more shards than workers, and never more than items.\<close>

lemma length_shardBy:
  assumes "items \<noteq> []"
  shows "int (length (shardBy items workers)) \<le> max 1 (min workers (int (length items)))"
proof -
  define w where "w = (let w1 = (if workers < 1 then 1 else workers)
    in if w1 > int (length items) then int (length items) else w1)"
  define sz where "sz = (int (length items) + w - 1) div w"
  have w: "0 < w" "w = max 1 (min workers (int (length items)))"
    using assms by (auto simp: w_def Let_def Suc_le_eq)
  have sz: "0 < sz" unfolding sz_def using assms w by (intro ceil_div_pos) simp_all
  let ?k = "length (shardBy items workers)"
  have "shardBy items workers = shard_loop items (nat sz) 0"
    using assms by (simp add: shardBy_def w_def sz_def Let_def)
  then have "?k * nat sz < length items + nat sz"
    using length_shard_loop [of "nat sz" 0 items] sz by simp
  then have "int (?k * nat sz) < int (length items + nat sz)" by (simp only: of_nat_less_iff)
  then have "int ?k * sz < int (length items) + sz" using sz by simp
  moreover have "int (length items) \<le> w * sz"
  proof -
    have "int (length items) + w - 1 = w * sz + (int (length items) + w - 1) mod w"
      by (simp add: sz_def)
    moreover have "(int (length items) + w - 1) mod w < w" using w by simp
    ultimately show ?thesis by linarith
  qed
  ultimately have "int ?k * sz < (w + 1) * sz" by (simp add: algebra_simps)
  with sz have "int ?k < w + 1" by simp
  with w show ?thesis by simp
qed

subsection \<open>Backoff\<close>

definition Second :: duration where "Second = 1000000000"
definition backoffCap :: duration where "backoffCap = 3600 * Second"

definition float_to_int64 :: "real \<Rightarrow> int" where
  "float_to_int64 x = (let n = (if x < 0 then \<lceil>x\<rceil> else \<lfloor>x\<rfloor>) in if in_int64 n then n else - (2 ^ 63))"

definition backoff :: "(real \<Rightarrow> real) \<Rightarrow> real \<Rightarrow> int \<Rightarrow> duration" where
  "backoff fl u attempt =
     (let d0 = wrap64 (float_to_int64 (fl (fl (of_int attempt) ^ 4)) * Second);
          d = (if d0 > backoffCap then backoffCap else d0);
          jitter = fl (1 + fl (fl (u * fl (1 / 5)) - fl (1 / 10)))
      in float_to_int64 (fl (fl (of_int d) * jitter)))"

text \<open>Rounding to nearest: exact on integers of 53 bits, relative error at most \<open>2^-53\<close>.\<close>

definition float_ok :: "(real \<Rightarrow> real) \<Rightarrow> bool" where
  "float_ok fl \<longleftrightarrow> (\<forall>x. \<bar>fl x - x\<bar> \<le> \<bar>x\<bar> / 2 ^ 53) \<and> (\<forall>n :: int. \<bar>n\<bar> \<le> 2 ^ 53 \<longrightarrow> fl (of_int n) = of_int n)"

text \<open>One rounding moves a value between \<open>lo\<close> and \<open>hi\<close> by little.\<close>

lemma float_between:
  assumes "float_ok fl" and "0 \<le> lo" and "lo \<le> x" and "x \<le> hi"
  shows "lo - hi / 2 ^ 53 \<le> fl x" and "fl x \<le> hi + hi / 2 ^ 53"
proof -
  have "\<bar>fl x - x\<bar> \<le> \<bar>x\<bar> / 2 ^ 53" using assms(1) unfolding float_ok_def by blast
  moreover have "\<bar>x\<bar> = x" using assms by simp
  moreover have "x / 2 ^ 53 \<le> hi / 2 ^ 53" using assms(4) by (simp add: divide_right_mono)
  ultimately have "\<bar>fl x - x\<bar> \<le> hi / 2 ^ 53" by simp
  with assms show "lo - hi / 2 ^ 53 \<le> fl x" "fl x \<le> hi + hi / 2 ^ 53" by linarith+
qed

definition jitter :: "(real \<Rightarrow> real) \<Rightarrow> real \<Rightarrow> real" where
  "jitter fl u = fl (1 + fl (fl (u * fl (1 / 5)) - fl (1 / 10)))"

lemma jitter_bounds:
  assumes fl: "float_ok fl" and u: "0 \<le> u" "u < 1"
  shows "899 / 1000 \<le> jitter fl u" and "jitter fl u \<le> 1101 / 1000"
proof -
  let ?e = "1 / 10 ^ 9 :: real"
  have e: "(2 :: real) / 2 ^ 53 \<le> ?e" by simp
  have fifth: "1 / 5 - ?e \<le> fl (1 / 5)" "fl (1 / 5) \<le> 1 / 5 + ?e"
    using float_between [OF fl, of "1 / 5" "1 / 5" "1 / 5"] by simp_all
  have tenth: "1 / 10 - ?e \<le> fl (1 / 10)" "fl (1 / 10) \<le> 1 / 10 + ?e"
    using float_between [OF fl, of "1 / 10" "1 / 10" "1 / 10"] by simp_all
  have "0 \<le> u * fl (1 / 5)" using u fifth by simp
  moreover have "u * fl (1 / 5) \<le> 1 * fl (1 / 5)" using u fifth by (intro mult_right_mono) simp_all
  then have "u * fl (1 / 5) \<le> 1 / 5 + ?e" using fifth by linarith
  ultimately have p: "- ?e \<le> fl (u * fl (1 / 5))" "fl (u * fl (1 / 5)) \<le> 1 / 5 + 3 * ?e"
    using float_between [OF fl, of 0 "u * fl (1 / 5)" "1 / 5 + ?e"] by simp_all
  let ?d = "fl (u * fl (1 / 5)) - fl (1 / 10)"
  have d: "- 1 / 10 - 2 * ?e \<le> ?d" "?d \<le> 1 / 10 + 4 * ?e" using p tenth by simp_all
  have "\<bar>fl ?d - ?d\<bar> \<le> \<bar>?d\<bar> / 2 ^ 53" using fl by (simp add: float_ok_def)
  moreover have "\<bar>?d\<bar> \<le> 1" using d by simp
  ultimately have "\<bar>fl ?d - ?d\<bar> \<le> ?e" by simp
  with d have r: "9 / 10 - 3 * ?e \<le> 1 + fl ?d" "1 + fl ?d \<le> 11 / 10 + 5 * ?e" by linarith+
  with float_between [OF fl, of "9 / 10 - 3 * ?e" "1 + fl ?d" "11 / 10 + 5 * ?e"]
  show "899 / 1000 \<le> jitter fl u" "jitter fl u \<le> 1101 / 1000"
    unfolding jitter_def by simp_all
qed

text \<open>Up to 309 attempts the product stays within \<open>int64\<close>; the delay is the fourth power in seconds,
  at most an hour, moved by at most about a tenth.\<close>

definition base_delay :: "int \<Rightarrow> duration" where
  "base_delay attempt = min (attempt ^ 4 * Second) backoffCap"

lemma backoff_unfold:
  assumes fl: "float_ok fl" and n: "1 \<le> attempt" "attempt \<le> 309"
  shows "backoff fl u attempt = float_to_int64 (fl (of_int (base_delay attempt) * jitter fl u))"
proof -
  have p: "1 \<le> attempt ^ 4" "attempt ^ 4 \<le> 309 ^ 4"
    using n power_mono [of attempt 309 4] by simp_all
  have a: "fl (of_int attempt) = of_int attempt" using fl n by (simp add: float_ok_def)
  have "fl (of_int (attempt ^ 4)) = of_int (attempt ^ 4)" using fl p by (simp add: float_ok_def del: of_int_power)
  then have pw: "float_to_int64 (fl (fl (of_int attempt) ^ 4)) = attempt ^ 4"
    using p by (simp add: a float_to_int64_def in_int64_def Let_def flip: of_int_power)
  have "wrap64 (attempt ^ 4 * Second) = attempt ^ 4 * Second"
    using p by (intro wrap64_id) (simp add: in_int64_def Second_def)
  then have d: "(let d0 = wrap64 (float_to_int64 (fl (fl (of_int attempt) ^ 4)) * Second)
      in if d0 > backoffCap then backoffCap else d0) = base_delay attempt"
    by (simp add: pw base_delay_def Let_def)
  have "\<bar>base_delay attempt\<bar> \<le> 2 ^ 53" using p by (simp add: base_delay_def backoffCap_def Second_def)
  with fl have "fl (of_int (base_delay attempt)) = of_int (base_delay attempt)" by (simp add: float_ok_def)
  with d show ?thesis by (simp add: backoff_def jitter_def Let_def)
qed

lemma backoff_bounds:
  assumes fl: "float_ok fl" and u: "0 \<le> u" "u < 1" and n: "1 \<le> attempt" "attempt \<le> 309"
  shows "89 * base_delay attempt \<le> 100 * backoff fl u attempt"
    and "100 * backoff fl u attempt \<le> 111 * base_delay attempt"
proof -
  let ?d = "of_int (base_delay attempt) :: real"
  let ?x = "fl (?d * jitter fl u)"
  have "1 \<le> attempt ^ 4" using n by simp
  then have "Second \<le> base_delay attempt" "base_delay attempt \<le> backoffCap"
    by (simp_all add: base_delay_def backoffCap_def Second_def)
  then have d: "1000000000 \<le> ?d" "?d \<le> 3600000000000" by (simp_all add: backoffCap_def Second_def)
  have "?d * (899 / 1000) \<le> ?d * jitter fl u" "?d * jitter fl u \<le> ?d * (1101 / 1000)"
    using d jitter_bounds [OF fl u] by (auto intro: mult_left_mono)
  from float_between [OF fl _ this] d have x: "?d * (895 / 1000) \<le> ?x" "?x \<le> ?d * (1105 / 1000)"
    by simp_all
  have fx: "backoff fl u attempt = \<lfloor>?x\<rfloor>"
  proof -
    have "0 \<le> ?x" "?x \<le> 3978000000000" using x d by simp_all
    then have "0 \<le> \<lfloor>?x\<rfloor>" "\<lfloor>?x\<rfloor> \<le> 3978000000000" by linarith+
    with \<open>0 \<le> ?x\<close> show ?thesis
      by (simp add: backoff_unfold [OF fl n] float_to_int64_def in_int64_def)
  qed
  have fl_x: "?x - 1 < of_int \<lfloor>?x\<rfloor>" "of_int \<lfloor>?x\<rfloor> \<le> ?x" by linarith+
  have "89 * ?d \<le> 100 * of_int \<lfloor>?x\<rfloor>" "100 * of_int \<lfloor>?x\<rfloor> \<le> 111 * ?d"
    using fl_x x d(1) by linarith+
  then have "of_int (89 * base_delay attempt) \<le> (of_int (100 * \<lfloor>?x\<rfloor>) :: real)"
    "of_int (100 * \<lfloor>?x\<rfloor>) \<le> (of_int (111 * base_delay attempt) :: real)" by simp_all
  then show "89 * base_delay attempt \<le> 100 * backoff fl u attempt"
    "100 * backoff fl u attempt \<le> 111 * base_delay attempt"
    unfolding fx of_int_le_iff .
qed

lemma float_to_int64_negative: "x \<le> - 1 \<Longrightarrow> float_to_int64 x < 0"
  by (simp add: float_to_int64_def Let_def in_int64_def ceiling_less_iff)

lemma backoff_310_negative:
  assumes fl: "float_ok fl" and u: "0 \<le> u" "u < 1"
  shows "backoff fl u 310 < 0"
proof -
  let ?d = "- 9211534073709551616 :: int"
  have "fl (of_int 310) = of_int 310" and "fl (of_int 9235210000) = of_int 9235210000"
    using fl unfolding float_ok_def by (auto simp del: of_int_numeral)
  then have "float_to_int64 (fl (fl (of_int 310) ^ 4)) = 9235210000"
    by (simp add: float_to_int64_def in_int64_def)
  then have b: "backoff fl u 310 = float_to_int64 (fl (fl (of_int ?d) * jitter fl u))"
    by (simp add: backoff_def jitter_def Let_def wrap64_def Second_def backoffCap_def)
  have "\<bar>fl (of_int ?d) - of_int ?d\<bar> \<le> \<bar>of_int ?d\<bar> / 2 ^ 53" using fl unfolding float_ok_def by blast
  moreover have "\<bar>of_int ?d\<bar> / 2 ^ 53 \<le> (10000 :: real)" by simp
  ultimately have d: "fl (of_int ?d) \<le> - 9000000000000000000"
    by (simp only: of_int_minus of_int_numeral)
  let ?y = "fl (of_int ?d) * jitter fl u"
  have "?y \<le> - 9000000000000000000 * (899 / 1000)"
    using d jitter_bounds(1) [OF fl u] mult_mono [of "9000000000000000000" "- fl (of_int ?d)" "899 / 1000" "jitter fl u"]
    by simp
  then have y: "?y \<le> - 10" by simp
  have "\<bar>fl ?y - ?y\<bar> \<le> \<bar>?y\<bar> / 2 ^ 53" using fl unfolding float_ok_def by blast
  moreover have "\<bar>z\<bar> / 2 ^ 53 \<le> - z / 2" if "z \<le> - 10" for z :: real using that by simp
  from this [OF y] have "\<bar>?y\<bar> / 2 ^ 53 \<le> - ?y / 2" .
  ultimately have "fl ?y \<le> - 1" using y by linarith
  then show ?thesis unfolding b by (rule float_to_int64_negative)
qed

lemma float_id_ok: "float_ok (\<lambda>x. x)"
  by (simp add: float_ok_def)

subsection \<open>Properties\<close>

text \<open>\<open>shardBy\<close> hands every claimed row to exactly one worker, in order: the shards concatenated
  are the batch, no shard is empty and there are never more of them than workers (one when the
  configuration says less) nor than rows.\<close>

theorem shardBy_partitions:
  "concat (shardBy items workers) = items \<and> (\<forall>xs \<in> set (shardBy items workers). xs \<noteq> []) \<and>
   int (length (shardBy items workers)) \<le> max 1 (min workers (int (length items)))"
proof (cases "items = []")
  case False
  from length_shardBy [OF this] show ?thesis by (simp add: shardBy_concat) (blast dest: shardBy_nonempty)
qed (simp add: shardBy_def)

theorem shardBy_partitions_witness:
  "shardBy [1 :: nat, 2, 3, 4, 5] 2 = [[1, 2, 3], [4, 5]] \<and> concat (shardBy [1 :: nat, 2, 3, 4, 5] 2) = [1, 2, 3, 4, 5]"
  using shardBy_partitions [of "[1 :: nat, 2, 3, 4, 5]" 2] by (simp add: shardBy_def shard_loop.simps)

text \<open>C30. The delay before the next attempt: for every attempt up to the 309th it lies within 11 percent
  of the fourth power of the attempt in seconds, capped at an hour, whatever the jitter drawn and
  however the floating-point unit rounds. At the 310th attempt the product with \<open>time.Second\<close> leaves the range
  of \<open>int64\<close>: the delay comes out negative and the row is due again at once. The configuration puts no
  upper bound on \<open>max_attempts\<close>.\<close>

theorem backoff_within_bounds:
  assumes "float_ok fl" and "0 \<le> u" and "u < 1"
  shows "(\<forall>attempt \<in> {1..309}. 89 * min (attempt ^ 4 * Second) backoffCap \<le> 100 * backoff fl u attempt \<and>
      100 * backoff fl u attempt \<le> 111 * min (attempt ^ 4 * Second) backoffCap) \<and>
    backoff fl u 310 < 0"
  using backoff_bounds [OF assms] backoff_310_negative [OF assms] by (simp add: base_delay_def)

theorem backoff_within_bounds_witness:
  "89 * backoffCap \<le> 100 * backoff (\<lambda>x. x) (1 / 2) 8 \<and> 100 * backoff (\<lambda>x. x) (1 / 2) 8 \<le> 111 * backoffCap \<and>
   backoff (\<lambda>x. x) (1 / 2) 310 < 0"
proof -
  note b = backoff_within_bounds [OF float_id_ok, of "1 / 2", simplified]
  from bspec [OF conjunct1 [OF b], of 8] conjunct2 [OF b] show ?thesis by (simp add: backoffCap_def Second_def)
qed

end
