(* ===== verification/Teams_Service.thy ===== *)
theory Teams_Service
  imports Authorizer
begin

text \<open>
  \<open>internal/service/teams.go\<close>: creating a team with its owner, listing, and the invitation that
  adds the member and queues the email in one transaction.
\<close>

definition create_team_tx :: "env \<Rightarrow> int64 \<Rightarrow> string \<Rightarrow> int64 prog" where
  "create_team_tx E actorID name =
     go_try (TeamRepo_Create E name actorID) id
       (\<lambda>teamID. go_try (TeamRepo_AddMember E teamID actorID TeamRoleOwner) id (\<lambda>_. ret teamID))"

definition Teams_Create :: "env \<Rightarrow> int64 \<Rightarrow> string \<Rightarrow> TeamMembership prog" where
  "Teams_Create E actorID name =
     go_try (tx_do E (create_team_tx E actorID name)) (Wrap ''create team'')
       (\<lambda>teamID. ret \<lparr>tm_Name = name, tm_Role = TeamRoleOwner, tm_ID = teamID\<rparr>)"

definition Teams_List :: "env \<Rightarrow> int64 \<Rightarrow> TeamMembership list prog" where
  "Teams_List E actorID = go_try (TeamRepo_ListByUser E actorID) (Wrap ''list teams'') ret"

definition invite_message :: "string \<Rightarrow> int64 \<Rightarrow> Message" where
  "invite_message inviteeEmail teamID =
     \<lparr>msg_Recipient = inviteeEmail,
      msg_Subject = ''You have been invited to a team'',
      msg_Body = ''You have been added to team '' @ FormatInt teamID @
        ''. Open Task Tracker to get started.''\<rparr>"

definition invite_tx :: "env \<Rightarrow> int64 \<Rightarrow> int64 \<Rightarrow> string \<Rightarrow> unit prog" where
  "invite_tx E teamID userID email =
     go_try (TeamRepo_AddMember E teamID userID TeamRoleMember) id
       (\<lambda>_. OutboxRepo_Enqueue E (invite_message email teamID))"

definition Teams_Invite :: "env \<Rightarrow> int64 \<Rightarrow> int64 \<Rightarrow> string \<Rightarrow> unit prog" where
  "Teams_Invite E actorID teamID inviteeEmail =
     go_try (RequireTeamRole E actorID teamID TeamRoleAdmin) id
       (\<lambda>_.
     go_try (UserRepo_ByEmail E inviteeEmail) (Wrap ''find invitee'')
       (\<lambda>invitee.
     tx_do E (invite_tx E teamID (user_ID invitee) inviteeEmail)))"

subsection \<open>Behaviour\<close>

lemma Teams_List_ro [ro_intros]: "read_only (Teams_List E actorID)"
  unfolding Teams_List_def by (intro ro_intros)

lemma create_team_tx_Inr:
  assumes "create_team_tx E actorID name s = (Inr i, s')"
  obtains t m where "i = n_teams (cnt s)" and "t_id t = i" and "t_name t = name"
    and "t_created_by t = actorID" and "actorID \<in> user_ids (tbl s)"
    and "m_team_id m = i" and "m_user_id m = actorID" and "m_role m = TeamRoleOwner"
    and "cnt s' = (cnt s)\<lparr>n_teams := i + 1\<rparr>"
    and "tbl s' = (tbl s)\<lparr>teams := teams (tbl s) @ [t], team_members := team_members (tbl s) @ [m]\<rparr>"
proof -
  from assms obtain s1 where c: "TeamRepo_Create E name actorID s = (Inr i, s1)"
    and a: "TeamRepo_AddMember E i actorID TeamRoleOwner s1 = (Inr (), s')"
    by (auto simp: create_team_tx_def go_try_Inr ret_def)
  note c' = TeamRepo_Create_Inr [OF c] and a' = TeamRepo_AddMember_Inr [OF a]
  show ?thesis
    by (rule that [of "\<lparr>t_id = i, t_name = name, t_created_by = actorID,
          t_created_at = current_timestamp (clock E (stmt s))\<rparr>"
          "\<lparr>m_team_id = i, m_user_id = actorID, m_role = TeamRoleOwner,
            m_joined_at = current_timestamp (clock E (stmt s1))\<rparr>"])
      (use c' a' in simp_all)
qed

lemma create_team_tx_inv:
  assumes "db_inv E s" and "create_team_tx E actorID name s = (Inr i, s')"
  shows "db_inv E s'"
  using assms(2)
proof (rule create_team_tx_Inr)
  fix t m
  assume *: "i = n_teams (cnt s)" "t_id t = i" "t_created_by t = actorID" "actorID \<in> user_ids (tbl s)"
    "m_team_id m = i" "m_user_id m = actorID" "m_role m = TeamRoleOwner"
    "cnt s' = (cnt s)\<lparr>n_teams := i + 1\<rparr>"
    "tbl s' = (tbl s)\<lparr>teams := teams (tbl s) @ [t], team_members := team_members (tbl s) @ [m]\<rparr>"
  then show ?thesis using inv_create_team [OF assms(1), of t m] by simp
qed

lemma invite_tx_Inr:
  assumes "invite_tx E teamID userID email s = (Inr u, s')"
  obtains m r where "m_team_id m = teamID" and "m_user_id m = userID" and "m_role m = TeamRoleMember"
    and "(teamID, userID) \<notin> member_pairs (tbl s)" and "teamID \<in> team_ids (tbl s)"
    and "userID \<in> user_ids (tbl s)"
    and "o_id r = n_outbox (cnt s)" and "o_status r = status_pending" and "o_attempts r = 0"
    and "o_next_retry_at r = None"
    and "cl_Message (scan_claimed r) = invite_message email teamID"
    and "cnt s' = (cnt s)\<lparr>n_outbox := n_outbox (cnt s) + 1\<rparr>"
    and "tbl s' = (tbl s)\<lparr>team_members := team_members (tbl s) @ [m],
           email_outbox := email_outbox (tbl s) @ [r]\<rparr>"
proof -
  from assms obtain s1 where a: "TeamRepo_AddMember E teamID userID TeamRoleMember s = (Inr (), s1)"
    and q: "OutboxRepo_Enqueue E (invite_message email teamID) s1 = (Inr (), s')"
    by (auto simp: invite_tx_def go_try_Inr)
  note a' = TeamRepo_AddMember_Inr [OF a] and q' = OutboxRepo_Enqueue_Inr [OF q]
  let ?msg = "invite_message email teamID"
  show ?thesis
    by (rule that [of "\<lparr>m_team_id = teamID, m_user_id = userID, m_role = TeamRoleMember,
            m_joined_at = current_timestamp (clock E (stmt s))\<rparr>"
          "\<lparr>o_id = n_outbox (cnt s), o_recipient = msg_Recipient ?msg, o_subject = msg_Subject ?msg,
              o_body = msg_Body ?msg, o_status = status_pending, o_attempts = 0,
              o_next_retry_at = None, o_last_error = None, o_created_at = now3 (clock E (stmt s1))\<rparr>"])
      (use a' q' in \<open>simp_all add: scan_claimed_def\<close>)
qed

lemma invite_tx_inv:
  assumes I: "db_inv E s" and tx: "invite_tx E teamID userID email s = (Inr u, s')"
  shows "db_inv E s'"
  using tx
proof (rule invite_tx_Inr)
  fix m r
  assume *: "m_team_id m = teamID" "m_user_id m = userID" "m_role m = TeamRoleMember"
    "(teamID, userID) \<notin> member_pairs (tbl s)" "teamID \<in> team_ids (tbl s)" "userID \<in> user_ids (tbl s)"
    "o_id r = n_outbox (cnt s)" "o_status r = status_pending" "o_attempts r = 0"
    "cnt s' = (cnt s)\<lparr>n_outbox := n_outbox (cnt s) + 1\<rparr>"
    "tbl s' = (tbl s)\<lparr>team_members := team_members (tbl s) @ [m],
           email_outbox := email_outbox (tbl s) @ [r]\<rparr>"
  then have "inv E ((tbl s)\<lparr>team_members := team_members (tbl s) @ [m]\<rparr>) (cnt s)"
    by (intro inv_add_member I) (auto simp: team_role_enum_def)
  from inv_enqueue [OF this, of r] * show ?thesis by simp
qed

subsection \<open>Invariant\<close>

lemma create_team_tx_grows [grow_intros]: "cnt_grows (create_team_tx E actorID name)"
  unfolding create_team_tx_def by (intro grow_intros ro_intros)

lemma invite_tx_grows [grow_intros]: "cnt_grows (invite_tx E teamID userID email)"
  unfolding invite_tx_def by (intro grow_intros ro_intros)

lemma Teams_Create_inv: "keeps_inv E (Teams_Create E actorID name)"
  unfolding Teams_Create_def
  by (rule keeps_try [OF keeps_tx [OF create_team_tx_grows]])
    (auto intro: create_team_tx_inv keeps_ro ro_ret)

lemma invite_tx_do_inv: "keeps_inv E (tx_do E (invite_tx E teamID userID email))"
  by (rule keeps_tx [OF invite_tx_grows]) (rule invite_tx_inv)

lemma Teams_Invite_inv: "keeps_inv E (Teams_Invite E actorID teamID inviteeEmail)"
  unfolding Teams_Invite_def
  by (intro keeps_try invite_tx_do_inv keeps_ro RequireTeamRole_ro UserRepo_ByEmail_ro)

end
