(* ===== verification/Auth_Service.thy ===== *)
theory Auth_Service
  imports Authorizer
begin

text \<open>
  \<open>internal/service/auth.go\<close>: registration, login, the admin grant. \<open>bcrypt\<close> and the token issuer
  are parameters: \<open>genpw\<close> stands for \<open>bcrypt.GenerateFromPassword\<close>, \<open>cmppw\<close> for
  \<open>bcrypt.CompareHashAndPassword\<close> (true for a nil error), \<open>issue\<close> for \<open>TokenIssuer.Issue\<close>.
\<close>

record SvcUser =
  su_Email :: string
  su_Name :: string
  su_Role :: Role
  su_ID :: int64

definition lift_result :: "gerr + 'a \<Rightarrow> 'a prog" where
  "lift_result r s = (r, s)"

lemma lift_result_ro [ro_intros]: "read_only (lift_result r)"
  by (simp add: read_only_def lift_result_def)

definition Auth_Register ::
  "env \<Rightarrow> (string \<Rightarrow> int \<Rightarrow> gerr + string) \<Rightarrow> int \<Rightarrow> string \<Rightarrow> string \<Rightarrow> string \<Rightarrow> SvcUser prog" where
  "Auth_Register E genpw passwordCost email name password =
     go_try (lift_result (genpw password passwordCost)) (Wrap ''hash password'')
       (\<lambda>hash.
     go_try (UserRepo_Create E \<lparr>user_CreatedAt = 0, user_Email = email, user_Name = name,
               user_PasswordHash = hash, user_Role = [], user_ID = 0\<rparr>) (Wrap ''create user'')
       (\<lambda>uid. ret \<lparr>su_Email = email, su_Name = name, su_Role = RoleUser, su_ID = uid\<rparr>))"

definition Auth_UserByID :: "env \<Rightarrow> int64 \<Rightarrow> SvcUser prog" where
  "Auth_UserByID E uid =
     go_try (UserRepo_ByID E uid) (Wrap ''find user by id'')
       (\<lambda>u. ret \<lparr>su_Email = user_Email u, su_Name = user_Name u, su_Role = user_Role u,
                 su_ID = user_ID u\<rparr>)"

definition Auth_GrantAdmin :: "env \<Rightarrow> string \<Rightarrow> unit prog" where
  "Auth_GrantAdmin E email = go_try (UserRepo_GrantAdmin E email) (Wrap ''grant admin'') ret"

definition Auth_Login ::
  "env \<Rightarrow> (string \<Rightarrow> string \<Rightarrow> bool) \<Rightarrow> (int64 \<Rightarrow> gerr + string) \<Rightarrow> string \<Rightarrow> string \<Rightarrow> string prog" where
  "Auth_Login E cmppw issue email password =
     go_try (UserRepo_ByEmail E email)
       (\<lambda>e. if errors_is e ErrNotFound then ErrInvalidCredentials else Wrap ''find user'' e)
       (\<lambda>u. if \<not> cmppw (user_PasswordHash u) password then fail ErrInvalidCredentials
            else go_try (lift_result (issue (user_ID u))) (Wrap ''issue token'') ret)"

subsection \<open>Invariant\<close>

lemma Auth_Login_ro [ro_intros]: "read_only (Auth_Login E cmppw issue email password)"
  unfolding Auth_Login_def by (intro ro_intros)

lemma Auth_UserByID_ro [ro_intros]: "read_only (Auth_UserByID E uid)"
  unfolding Auth_UserByID_def by (intro ro_intros)

text \<open>A statement outside a transaction may take effect without being acknowledged.\<close>

lemma sql_insert_user_inv [inv_intros]: "keeps_inv E (sql_insert_user E email h name)"
  unfolding sql_insert_user_def
proof (rule keeps_exec)
  fix now s assume I: "db_inv E s"
  then have "inv E (tbl s) ((cnt s)\<lparr>n_users := n_users (cnt s) + 1\<rparr>)"
    by (rule inv_cnt_mono) (simp add: cnt_le_def)
  with I show "db_inv E (snd (let i = n_users (cnt s); s1 = s\<lparr>cnt := (cnt s)\<lparr>n_users := i + 1\<rparr>\<rparr>
     in if \<exists>u \<in> set (users (tbl s)). collate E (u_email u) = collate E email
        then (Inl (MySQLError duplicateEntryCode), s1)
        else (Inr i, s1\<lparr>tbl := (tbl s)\<lparr>users := users (tbl s) @
          [\<lparr>u_id = i, u_email = email, u_password_hash = h, u_name = name,
            u_role = RoleUser, u_created_at = current_timestamp now\<rparr>]\<rparr>\<rparr>)))"
    by (simp add: Let_def inv_insert_user)
qed

lemma UserRepo_Create_inv [inv_intros]: "keeps_inv E (UserRepo_Create E u)"
  unfolding UserRepo_Create_def by (rule keeps_try [OF sql_insert_user_inv]) (intro keeps_ro ro_intros)

lemma Auth_Register_inv: "keeps_inv E (Auth_Register E genpw c email name pw)"
  unfolding Auth_Register_def
  by (intro keeps_try UserRepo_Create_inv keeps_ro lift_result_ro ro_ret)

lemma UserRepo_GrantAdmin_inv [inv_intros]: "keeps_inv E (UserRepo_GrantAdmin E email)"
  unfolding UserRepo_GrantAdmin_def
proof (rule keeps_try)
  show "keeps_inv E (sql_grant_admin E email)"
    unfolding sql_grant_admin_def by (rule keeps_exec) (simp add: Let_def inv_grant_admin)
qed (intro keeps_ro ro_intros)

lemma Auth_GrantAdmin_inv: "keeps_inv E (Auth_GrantAdmin E email)"
  unfolding Auth_GrantAdmin_def by (intro keeps_try UserRepo_GrantAdmin_inv keeps_ro ro_ret)

subsection \<open>Registration and login\<close>

lemma Auth_Register_Inr:
  assumes "Auth_Register E genpw c email name pw s = (Inr u, s')"
  obtains h where "genpw pw c = Inr h" and "u = \<lparr>su_Email = email, su_Name = name,
      su_Role = RoleUser, su_ID = n_users (cnt s)\<rparr>"
    and "\<forall>r \<in> set (users (tbl s)). collate E (u_email r) \<noteq> collate E email"
    and "tbl s' = (tbl s)\<lparr>users := users (tbl s) @
      [\<lparr>u_id = n_users (cnt s), u_email = email, u_password_hash = h,
        u_name = name, u_role = RoleUser, u_created_at = current_timestamp (clock E (stmt s))\<rparr>]\<rparr>"
proof -
  from assms obtain h uid where h: "genpw pw c = Inr h" and c: "UserRepo_Create E
      \<lparr>user_CreatedAt = 0, user_Email = email, user_Name = name,
               user_PasswordHash = h, user_Role = [], user_ID = 0\<rparr> s = (Inr uid, s')"
    and u: "u = \<lparr>su_Email = email, su_Name = name, su_Role = RoleUser, su_ID = uid\<rparr>"
    by (auto simp: Auth_Register_def go_try_Inr lift_result_def ret_def)
  from UserRepo_Create_Inr [OF c] h u show ?thesis by (intro that [of h]) simp_all
qed

lemma Auth_Login_Inr:
  assumes "Auth_Login E cmppw issue email pw s = (Inr tok, s')"
  obtains r where "r \<in> set (users (tbl s))" and "collate E (u_email r) = collate E email"
    and "cmppw (u_password_hash r) pw" and "issue (u_id r) = Inr tok"
proof -
  from assms obtain r where "find (\<lambda>r. collate E (u_email r) = collate E email) (users (tbl s)) = Some r"
    "cmppw (u_password_hash r) pw" "issue (u_id r) = Inr tok"
    by (auto simp: Auth_Login_def go_try_Inr UserRepo_ByEmail_Inr lift_result_def fail_def ret_def
        split: if_splits)
  then show ?thesis using that [of r] by (auto dest!: find_Some_iff_mem)
qed

end
