(* ===== verification/Analytics.thy ===== *)
theory Analytics
  imports Authorizer
begin

text \<open>
  \<open>internal/infrastructure/persistence/analytics.go\<close> and \<open>internal/service/analytics.go\<close>: the
  three admin reports. Their SQL is modelled clause by clause, the common table expressions as
  functions of their own.
\<close>

subsection \<open>Team statistics\<close>

definition seven_days :: int where "seven_days = 7 * 86400 * 1000000"

text \<open>\<open>page\<close>: the teams after the cursor, in id order, at most \<open>limit\<close> of them.\<close>

definition stats_page :: "int64 \<Rightarrow> int \<Rightarrow> tables \<Rightarrow> team_row list" where
  "stats_page afterID limit T =
     take (nat limit) (sort_key t_id (filter (\<lambda>t. t_id t > afterID) (teams T)))"

definition member_count :: "tables \<Rightarrow> int64 \<Rightarrow> int64" where
  "member_count T i = int (length (filter (\<lambda>m. m_team_id m = i) (team_members T)))"

definition done_count :: "int \<Rightarrow> tables \<Rightarrow> int64 \<Rightarrow> int64" where
  "done_count now T i = int (length (filter (\<lambda>k. k_team_id k = i \<and> k_status k = TaskStatusDone \<and>
     (case k_completed_at k of None \<Rightarrow> False | Some c \<Rightarrow> c \<ge> current_timestamp now - seven_days))
     (tasks T)))"

definition sel_team_stats :: "int64 \<Rightarrow> int \<Rightarrow> int \<Rightarrow> tables \<Rightarrow> TeamStats list" where
  "sel_team_stats afterID limit now T =
     map (\<lambda>p. \<lparr>ts_Name = t_name p, ts_ID = t_id p, ts_Members = member_count T (t_id p),
               ts_DoneLast7Days = done_count now T (t_id p)\<rparr>) (stats_page afterID limit T)"

definition AnalyticsRepo_TeamStats :: "env \<Rightarrow> int64 \<Rightarrow> int \<Rightarrow> TeamStats list prog" where
  "AnalyticsRepo_TeamStats E afterID limit =
     go_try (if limit < 0 then fail (OtherErr ''negative limit'')
             else query E (sel_team_stats afterID limit)) (Wrap ''team stats'')
       (\<lambda>stats. driver_call E stats)"

subsection \<open>Top creators\<close>

definition recent_tasks :: "env \<Rightarrow> int \<Rightarrow> tables \<Rightarrow> task_row list" where
  "recent_tasks E now T =
     filter (\<lambda>k. k_created_at k \<ge> month_before E (current_timestamp now)) (tasks T)"

definition page_teams :: "env \<Rightarrow> int64 \<Rightarrow> int \<Rightarrow> int \<Rightarrow> tables \<Rightarrow> int64 list" where
  "page_teams E afterID limit now T =
     take (nat limit) (sort (remdups (map k_team_id
       (filter (\<lambda>k. k_team_id k > afterID) (recent_tasks E now T)))))"

definition created_cnt :: "env \<Rightarrow> int \<Rightarrow> tables \<Rightarrow> int64 \<Rightarrow> int64 \<Rightarrow> int64" where
  "created_cnt E now T i u =
     int (length (filter (\<lambda>k. k_team_id k = i \<and> k_created_by k = u) (recent_tasks E now T)))"

text \<open>\<open>ROW_NUMBER() OVER (PARTITION BY team_id ORDER BY cnt DESC, created_by)\<close>: the creators of a
  team by falling count, ties by user id.\<close>

definition ranked :: "env \<Rightarrow> int \<Rightarrow> tables \<Rightarrow> int64 \<Rightarrow> int64 list" where
  "ranked E now T i =
     sort_key (\<lambda>u. - created_cnt E now T i u)
       (sort (remdups (map k_created_by (filter (\<lambda>k. k_team_id k = i) (recent_tasks E now T)))))"

definition team_top :: "env \<Rightarrow> int \<Rightarrow> tables \<Rightarrow> int64 \<Rightarrow> TeamTopCreator list" where
  "team_top E now T i =
     concat (map (\<lambda>(rn, u).
       concat (map (\<lambda>t. map (\<lambda>w. \<lparr>tp_TeamName = t_name t, tp_UserName = u_name w, tp_TeamID = i,
           tp_UserID = u, tp_TasksCreated = created_cnt E now T i u, tp_Rank = rn\<rparr>)
         (filter (\<lambda>w. u_id w = u) (users T))) (filter (\<lambda>t. t_id t = i) (teams T))))
       (filter (\<lambda>(rn, u). rn \<le> 3)
         (zip (map (\<lambda>n. int n + 1) [0..<length (ranked E now T i)]) (ranked E now T i))))"

definition sel_top_creators :: "env \<Rightarrow> int64 \<Rightarrow> int \<Rightarrow> int \<Rightarrow> tables \<Rightarrow> TeamTopCreator list" where
  "sel_top_creators E afterID limit now T =
     concat (map (team_top E now T) (page_teams E afterID limit now T))"

definition AnalyticsRepo_TopCreators :: "env \<Rightarrow> int64 \<Rightarrow> int \<Rightarrow> TeamTopCreator list prog" where
  "AnalyticsRepo_TopCreators E afterID limit =
     go_try (if limit < 0 then fail (OtherErr ''negative limit'')
             else query E (sel_top_creators E afterID limit)) (Wrap ''top creators'')
       (\<lambda>creators. driver_call E creators)"

subsection \<open>Orphan assignees\<close>

text \<open>The anti-join: tasks with an assignee for whom \<open>team_members\<close> has no row.\<close>

definition is_orphan :: "tables \<Rightarrow> task_row \<Rightarrow> bool" where
  "is_orphan T k \<longleftrightarrow> (case k_assignee_id k of None \<Rightarrow> False
     | Some a \<Rightarrow> find (\<lambda>m. m_team_id m = k_team_id k \<and> m_user_id m = a) (team_members T) = None)"

definition orphan_of :: "task_row \<Rightarrow> OrphanAssignee" where
  "orphan_of k = \<lparr>oa_Title = k_title k, oa_TaskID = k_id k, oa_TeamID = k_team_id k,
     oa_AssigneeID = the (k_assignee_id k)\<rparr>"

definition sel_orphans :: "int64 \<Rightarrow> int \<Rightarrow> tables \<Rightarrow> task_row list" where
  "sel_orphans afterID limit T =
     take (nat limit) (sort_key k_id (filter (\<lambda>k. is_orphan T k \<and> k_id k > afterID) (tasks T)))"

definition AnalyticsRepo_OrphanAssignees :: "env \<Rightarrow> int64 \<Rightarrow> int \<Rightarrow> OrphanAssignee list prog" where
  "AnalyticsRepo_OrphanAssignees E afterID limit =
     go_try (if limit < 0 then fail (OtherErr ''negative limit'')
             else query E (\<lambda>_ T. map orphan_of (sel_orphans afterID limit T))) (Wrap ''orphan assignees'')
       (\<lambda>orphans. driver_call E orphans)"

subsection \<open>The service\<close>

definition Analytics_TeamStats :: "env \<Rightarrow> int64 \<Rightarrow> int64 \<Rightarrow> int \<Rightarrow> TeamStats list prog" where
  "Analytics_TeamStats E actorID afterID limit =
     go_try (RequireAdmin E actorID) id
       (\<lambda>_. go_try (AnalyticsRepo_TeamStats E afterID limit) (Wrap ''team stats'') ret)"

definition Analytics_TopCreators :: "env \<Rightarrow> int64 \<Rightarrow> int64 \<Rightarrow> int \<Rightarrow> TeamTopCreator list prog" where
  "Analytics_TopCreators E actorID afterID limit =
     go_try (RequireAdmin E actorID) id
       (\<lambda>_. go_try (AnalyticsRepo_TopCreators E afterID limit) (Wrap ''top creators'') ret)"

definition Analytics_OrphanAssignees :: "env \<Rightarrow> int64 \<Rightarrow> int64 \<Rightarrow> int \<Rightarrow> OrphanAssignee list prog" where
  "Analytics_OrphanAssignees E actorID afterID limit =
     go_try (RequireAdmin E actorID) id
       (\<lambda>_. go_try (AnalyticsRepo_OrphanAssignees E afterID limit) (Wrap ''orphan assignees'') ret)"

subsection \<open>Reports never write\<close>

lemma Analytics_TeamStats_ro [ro_intros]: "read_only (Analytics_TeamStats E actorID afterID limit)"
  unfolding Analytics_TeamStats_def AnalyticsRepo_TeamStats_def by (intro ro_intros)

lemma Analytics_TopCreators_ro [ro_intros]: "read_only (Analytics_TopCreators E actorID afterID limit)"
  unfolding Analytics_TopCreators_def AnalyticsRepo_TopCreators_def by (intro ro_intros)

lemma Analytics_OrphanAssignees_ro [ro_intros]:
  "read_only (Analytics_OrphanAssignees E actorID afterID limit)"
  unfolding Analytics_OrphanAssignees_def AnalyticsRepo_OrphanAssignees_def by (intro ro_intros)

subsection \<open>What the reports contain\<close>

lemma is_orphan_iff:
  "is_orphan T k \<longleftrightarrow> (\<exists>a. k_assignee_id k = Some a \<and> (k_team_id k, a) \<notin> member_pairs T)"
proof (cases "k_assignee_id k")
  case (Some a)
  then show ?thesis using find_member [of "k_team_id k" a T] by (auto simp: is_orphan_def)
qed (simp add: is_orphan_def)

lemma inv_no_orphans: "inv E T N \<Longrightarrow> sel_orphans afterID limit T = []"
  by (auto simp: sel_orphans_def inv_def tasks_ok_def task_ok_def is_orphan_iff filter_empty_conv)

text \<open>Nobody ranked above is beaten: a creator left out of the ranking has created nothing, and
  the ranking falls by count and, at equal counts, rises by user id.\<close>

lemma ranked_set:
  "set (ranked E now T i) = {u. created_cnt E now T i u > 0}"
proof -
  have "created_cnt E now T i u > 0 \<longleftrightarrow> (\<exists>k \<in> set (recent_tasks E now T). k_team_id k = i \<and> k_created_by k = u)" for u
    by (auto simp: created_cnt_def filter_empty_conv)
  then show ?thesis by (auto simp: ranked_def)
qed

lemma ranked_distinct: "distinct (ranked E now T i)"
  by (simp add: ranked_def)

lemma ranked_order:
  "sorted_wrt (\<lambda>u v. created_cnt E now T i u > created_cnt E now T i v \<or>
      created_cnt E now T i u = created_cnt E now T i v \<and> u < v) (ranked E now T i)"
proof -
  let ?us = "sort (remdups (map k_created_by (filter (\<lambda>k. k_team_id k = i) (recent_tasks E now T))))"
  have "sorted_wrt (<) ?us" by (simp add: strict_sorted_iff)
  from sorted_wrt_sort_key [OF this, of "\<lambda>u. - created_cnt E now T i u"]
  show ?thesis unfolding ranked_def by simp
qed

lemma team_ids_unique:
  assumes "inv E T N" and "i \<in> team_ids T"
  obtains t where "filter (\<lambda>t. t_id t = i) (teams T) = [t]" and "t_id t = i"
proof -
  from assms(1) have "distinct (map t_id (teams T))"
    by (auto simp: inv_def teams_ok_def dest: tab_ok_distinct)
  with assms(2) filter_key_unique [of t_id "teams T"] that show ?thesis
    by (auto simp: team_ids_def)
qed

lemma user_ids_unique:
  assumes "inv E T N" and "i \<in> user_ids T"
  obtains u where "filter (\<lambda>u. u_id u = i) (users T) = [u]" and "u_id u = i"
proof -
  from assms(1) have "distinct (map u_id (users T))"
    by (auto simp: inv_def users_ok_def dest: tab_ok_distinct)
  with assms(2) filter_key_unique [of u_id "users T"] that show ?thesis
    by (auto simp: user_ids_def)
qed

text \<open>The joins lose nobody: a team's block of the report is exactly its first three creators.\<close>

lemma team_top_rows:
  assumes I: "inv E T N" and i: "i \<in> team_ids T"
  shows "map (\<lambda>c. (tp_TeamID c, tp_UserID c, tp_TasksCreated c, tp_Rank c)) (team_top E now T i) =
    map (\<lambda>(rn, u). (i, u, created_cnt E now T i u, rn))
      (filter (\<lambda>(rn, u). rn \<le> 3)
        (zip (map (\<lambda>n. int n + 1) [0..<length (ranked E now T i)]) (ranked E now T i)))"
proof -
  obtain t where t: "filter (\<lambda>t. t_id t = i) (teams T) = [t]" using team_ids_unique [OF I i] .
  have user: "\<exists>w. filter (\<lambda>w. u_id w = u) (users T) = [w]" if u: "u \<in> set (ranked E now T i)" for u
  proof -
    from u obtain k where "k \<in> set (tasks T)" "k_created_by k = u"
      by (auto simp: ranked_def recent_tasks_def)
    with I have "u \<in> user_ids T" by (auto simp: inv_def tasks_ok_def task_ok_def)
    with user_ids_unique [OF I] show ?thesis by metis
  qed
  have block: "map f (concat (map g xs)) = map h xs" if "\<forall>x \<in> set xs. map f (g x) = [h x]"
    for f :: "TeamTopCreator \<Rightarrow> int64 \<times> int64 \<times> int64 \<times> int64" and g h and xs :: "(int \<times> int64) list"
    using that by (induction xs) auto
  show ?thesis
    unfolding team_top_def
    by (rule block) (use user in \<open>fastforce simp: t dest!: set_zip_rightD\<close>)
qed

end
