(* ===== verification/Evolution.thy ===== *)
theory Evolution
  imports Tasks_Service Teams_Service Auth_Service Analytics
begin

text \<open>
  What no operation of the application ever takes back: users, memberships and their roles, global
  admins; and what it may add to the outbox: fresh rows only. A preorder on
  tables is followed by every program that is put together from programs that follow it (the locale
  \<open>table_preorder\<close>); \<open>evolves\<close> is one, and every service follows it by its structure.
\<close>

subsection \<open>Programs that follow a preorder on the tables\<close>

text \<open>\<open>along R m\<close>: whatever \<open>m\<close> returns, the tables it leaves are \<open>R\<close>-related to those it found.\<close>

definition along :: "(tables \<Rightarrow> tables \<Rightarrow> bool) \<Rightarrow> 'a prog \<Rightarrow> bool" where
  "along R m \<longleftrightarrow> (\<forall>s. R (tbl s) (tbl (snd (m s))))"

lemma alongD: "along R m \<Longrightarrow> m s = (x, s') \<Longrightarrow> R (tbl s) (tbl s')"
  by (metis along_def snd_conv)

locale table_preorder =
  fixes R :: "tables \<Rightarrow> tables \<Rightarrow> bool"
  assumes refl: "R T T"
    and trans: "R T1 T2 \<Longrightarrow> R T2 T3 \<Longrightarrow> R T1 T3"
begin

lemma along_ro: "read_only m \<Longrightarrow> along R m"
  by (simp add: along_def read_only_def refl)

lemma along_try:
  assumes "along R m" and "\<And>x. along R (k x)"
  shows "along R (go_try m f k)"
  unfolding along_def
proof
  fix s
  obtain r s1 where m: "m s = (r, s1)" by fastforce
  with assms(1) have "R (tbl s) (tbl s1)" by (rule alongD)
  moreover have "R (tbl s1) (tbl (snd (k x s1)))" for x using assms(2) by (simp add: along_def)
  ultimately show "R (tbl s) (tbl (snd (go_try m f k s)))"
    by (auto simp: go_try_def m split: sum.splits intro: trans)
qed

lemma along_exec:
  assumes "\<And>now. along R (body now)"
  shows "along R (exec E body)"
  unfolding along_def
proof
  fix s
  have "R (tbl s) (tbl (snd (body t (s\<lparr>stmt := k\<rparr>))))" for t k
    using assms [unfolded along_def, rule_format, of "s\<lparr>stmt := k\<rparr>" t] by simp
  then show "R (tbl s) (tbl (snd (exec E body s)))"
    by (simp add: exec_def Let_def refl split: fault.splits)
qed

lemma along_tx:
  assumes "along R fn"
  shows "along R (tx_do E fn)"
  unfolding along_def
proof
  fix s
  obtain res s' where tx: "tx_do E fn s = (res, s')" by fastforce
  from tx_do_atomic [OF tx] have "R (tbl s) (tbl s')"
    using alongD [OF assms, of "s\<lparr>stmt := Suc (stmt s)\<rparr>"] refl by auto
  with tx show "R (tbl s) (tbl (snd (tx_do E fn s)))" by simp
qed

lemma along_if: "along R m \<Longrightarrow> along R n \<Longrightarrow> along R (if b then m else n)"
  by simp

lemma along_option:
  "along R m \<Longrightarrow> (\<And>x. along R (k x)) \<Longrightarrow> along R (case v of None \<Rightarrow> m | Some x \<Rightarrow> k x)"
  by (cases v) simp_all

end

subsection \<open>What is never taken back\<close>

definition evolves :: "tables \<Rightarrow> tables \<Rightarrow> bool" where
  "evolves T T' \<longleftrightarrow> set (team_members T) \<subseteq> set (team_members T') \<and> user_ids T \<subseteq> user_ids T' \<and>
     (\<forall>u. is_global_admin T u \<longrightarrow> is_global_admin T' u) \<and>
     (\<forall>r \<in> set (email_outbox T'). r \<in> set (email_outbox T) \<or> o_status r = status_pending \<and> o_attempts r = 0)"

lemma evolves_refl [simp]: "evolves T T"
  by (simp add: evolves_def)

lemma evolves_trans: "evolves T1 T2 \<Longrightarrow> evolves T2 T3 \<Longrightarrow> evolves T1 T3"
  unfolding evolves_def by blast

interpretation evo: table_preorder evolves
  by unfold_locales (auto intro: evolves_trans)

abbreviation evolving :: "'a prog \<Rightarrow> bool" where
  "evolving \<equiv> along evolves"

named_theorems evo_intros \<open>programs that take no user, member or role back\<close>

lemmas evolving_def = along_def [of evolves]
lemmas evolvingD = alongD [of evolves]
lemmas evo_ro = evo.along_ro
lemmas evo_try [evo_intros] = evo.along_try
lemmas evo_exec = evo.along_exec
lemmas evo_tx [evo_intros] = evo.along_tx
lemmas evo_if [evo_intros] = evo.along_if
lemmas evo_option [evo_intros] = evo.along_option

subsection \<open>Statements\<close>

lemmas evolves_defs = evolving_def evolves_def is_global_admin_def id_set_defs

lemma evolves_users_map:
  assumes "\<And>r. u_id (f r) = u_id r" and "\<And>r. u_role r = RoleAdmin \<Longrightarrow> u_role (f r) = RoleAdmin"
  shows "evolves T (T\<lparr>users := map f (users T)\<rparr>)"
  using assms by (auto simp: evolves_def user_ids_def is_global_admin_def image_image)

lemma evo_users [evo_intros]: "evolving (sql_insert_user E a b c)" "evolving (sql_grant_admin E a)"
proof -
  show "evolving (sql_insert_user E a b c)"
    unfolding sql_insert_user_def by (rule evo_exec) (auto simp: evolves_defs Let_def)
  show "evolving (sql_grant_admin E a)"
    unfolding sql_grant_admin_def
    by (rule evo_exec) (auto simp: evolving_def Let_def intro: evolves_users_map)
qed

lemma evo_teams [evo_intros]: "evolving (sql_insert_team E name i)" "evolving (sql_insert_member E i j role)"
  unfolding sql_insert_team_def sql_insert_member_def
  by (rule evo_exec; auto simp: evolves_defs Let_def)+

lemma evo_tasks [evo_intros]:
  "evolving (sql_insert_task E t c)" "evolving (sql_insert_history E i j g f ov nv)" "evolving (sql_update_task E t c)"
  unfolding sql_insert_task_def sql_insert_history_def sql_update_task_def
  by (rule evo_exec; auto simp: evolves_defs Let_def)+

lemma evo_comments [evo_intros]:
  "evolving (sql_insert_comment E i j b)" "evolving (sql_update_comment E i b)" "evolving (sql_delete_comment E i)"
  unfolding sql_insert_comment_def sql_update_comment_def sql_delete_comment_def
  by (rule evo_exec; auto simp: evolves_defs Let_def)+

lemma evo_outbox [evo_intros]: "evolving (sql_insert_outbox E msg)"
  unfolding sql_insert_outbox_def by (rule evo_exec) (auto simp: evolves_defs Let_def)

subsection \<open>Repositories and services\<close>

lemma evo_insert_changes [evo_intros]: "evolving (insert_changes E i a g chs)"
  by (induction chs) (auto intro!: evo_try evo_tasks intro: evo_ro ro_ret)

lemma evo_TaskRepo [evo_intros]: "evolving (TaskRepo_Create E t)" "evolving (TaskRepo_Update E a t)"
  unfolding TaskRepo_Create_def TaskRepo_Update_def initial_completed_at_def
  by (intro evo_intros evo_ro ro_intros)+

lemma evo_create_team_tx [evo_intros]: "evolving (create_team_tx E a name)"
  unfolding create_team_tx_def TeamRepo_Create_def TeamRepo_AddMember_def
  by (intro evo_try evo_teams evo_ro ro_intros)

lemma evo_invite_tx [evo_intros]: "evolving (invite_tx E i j email)"
  unfolding invite_tx_def TeamRepo_AddMember_def OutboxRepo_Enqueue_def
  by (intro evo_try evo_teams evo_outbox evo_ro ro_ret)

lemma evo_Auth: "evolving (Auth_Register E g c email name pw)" "evolving (Auth_GrantAdmin E email)"
  unfolding Auth_Register_def Auth_GrantAdmin_def UserRepo_Create_def UserRepo_GrantAdmin_def
  by (intro evo_try evo_users evo_ro ro_intros)+

lemma evo_Teams: "evolving (Teams_Create E a name)" "evolving (Teams_Invite E a i email)"
  unfolding Teams_Create_def Teams_Invite_def
  by (intro evo_try evo_tx evo_create_team_tx evo_invite_tx evo_ro ro_intros)+

lemma evo_Comments: "evolving (Comments_Create E a i b)" "evolving (Comments_Update E a i b)" "evolving (Comments_Delete E a i)"
  unfolding Comments_Create_def create_comment_tx_def CommentRepo_Create_def
    Comments_Update_def update_comment_tx_def CommentRepo_Update_def
    Comments_Delete_def delete_comment_tx_def CommentRepo_Delete_def
  by (intro evo_tx evo_try evo_comments evo_ro ro_intros)+

lemma evo_task_tx [evo_intros]: "evolving (create_task_tx E t)" "evolving (update_task_tx E a i inp)"
  unfolding create_task_tx_def update_task_tx_def
  by (intro evo_try evo_TaskRepo evo_ro ro_intros)+

definition svc_evolves :: "('r, 'a) svc \<Rightarrow> bool" where
  "svc_evolves m \<longleftrightarrow> (\<forall>w. evolves (tbl (fst w)) (tbl (fst (snd (m w)))))"

lemma svc_evolves_db: "evolving m \<Longrightarrow> svc_evolves (on_db m)"
  by (simp add: svc_evolves_def evolving_def)

lemma svc_evolves_ro: "read_only m \<Longrightarrow> svc_evolves (on_db m)"
  by (intro svc_evolves_db evo_ro)

lemma svc_evolves_cache: "svc_evolves (on_cache c)"
  by (simp add: svc_evolves_def)

lemma svc_evolves_ret: "svc_evolves (ret a)"
  by (simp add: svc_evolves_def ret_def)

lemma svc_evolves_try:
  fixes m :: "('r, 'a) svc"
  assumes "svc_evolves m" and "\<And>x. svc_evolves (k x)"
  shows "svc_evolves (go_try m f k)"
  unfolding svc_evolves_def
proof
  fix w :: "db \<times> 'r"
  obtain r w1 where m: "m w = (r, w1)" by (cases "m w")
  with assms(1) have "evolves (tbl (fst w)) (tbl (fst w1))" by (metis svc_evolves_def snd_conv)
  moreover have "evolves (tbl (fst w1)) (tbl (fst (snd (k x w1))))" for x
    using assms(2) [of x] unfolding svc_evolves_def by blast
  ultimately show "evolves (tbl (fst w)) (tbl (fst (snd (go_try m f k w))))"
    by (auto simp: go_try_def m split: sum.splits intro: evolves_trans)
qed

lemmas svc_evolves_intros = svc_evolves_try svc_evolves_cache svc_evolves_ret

lemma svc_evolves_Tasks:
  "svc_evolves (Tasks_Create E R a i inp)" "svc_evolves (Tasks_Update E R a i inp)"
  unfolding Tasks_Create_def Tasks_Update_def
  by (intro svc_evolves_intros svc_evolves_db evo_tx evo_task_tx evo_ro RequireTeamRole_ro
      requireAssigneeIsMember_ro)+

lemma svc_evolves_Tasks_List: "svc_evolves (Tasks_List E R J ttl a f)"
  unfolding Tasks_List_def
  by (intro svc_evolves_intros svc_evolves_ro RequireTeamRole_ro)
    (auto intro!: svc_evolves_intros svc_evolves_ro TaskRepo_List_ro split: prod.splits)

subsection \<open>Consequences\<close>

lemma evolves_member: "evolves T T' \<Longrightarrow> (i, u) \<in> member_pairs T \<Longrightarrow> (i, u) \<in> member_pairs T'"
  by (auto simp: evolves_def member_pairs_def)

lemma team_role_of_mem:
  assumes "members_ok T"
  shows "team_role_of T i u = Some role \<longleftrightarrow>
    (\<exists>m \<in> set (team_members T). m_team_id m = i \<and> m_user_id m = u \<and> m_role m = role)"
proof -
  let ?key = "\<lambda>m. (m_team_id m, m_user_id m)"
  from assms have d: "distinct (map ?key (team_members T))" by (simp add: members_ok_def)
  have "find (\<lambda>r. m_team_id r = i \<and> m_user_id r = u) (team_members T) = Some m"
    if "m \<in> set (team_members T)" "m_team_id m = i" "m_user_id m = u" for m
    using find_key_unique [OF d that(1)] that(2,3) by (simp add: prod_eq_iff)
  then show ?thesis by (auto simp: team_role_of_def dest!: find_Some_iff_mem)
qed

text \<open>A permission once held is held for good.\<close>

lemma evolves_may_act:
  assumes "evolves T T'" and "members_ok T" and "members_ok T'" and "may_act T u i least"
  shows "may_act T' u i least"
proof -
  have "team_role_of T' i u = Some role" if "team_role_of T i u = Some role" for role
    using that assms(1) unfolding team_role_of_mem [OF assms(2)] team_role_of_mem [OF assms(3)] evolves_def by blast
  with assms(1,4) show ?thesis by (auto simp: may_act_def evolves_def)
qed

end
