(* ===== verification/Identity.thy ===== *)
theory Identity
  imports Domain
begin

text \<open>
  \<open>internal/identity\<close>: the provider that issues and reads access tokens. The JWT library is the
  parameter \<open>jwt\<close>; the code around it (the claims it fills in, the key function that refuses every
  signing method that is not an HMAC, the reading of the subject) is modelled. What the library
  promises is \<open>jwt_ok\<close>: a token it signed is read back under the same key until it expires, and
  whatever it accepts was signed with the key and method the key function approved and carries the
  issuer and audience asked for.
\<close>

subsection \<open>Configuration\<close>

record IdentityConfig =
  ic_Secret :: string
  ic_TTL :: duration

definition minSecretLen :: nat where "minSecretLen = 32"

text \<open>The texts of configuration errors are kept without the values formatted into them.\<close>

definition IdentityConfig_Validate :: "IdentityConfig \<Rightarrow> gerr option" where
  "IdentityConfig_Validate c =
     (if ic_Secret c = [] then Some (OtherErr ''secret is required'')
      else if length (ic_Secret c) < minSecretLen then Some (OtherErr ''secret must be at least 32 bytes'')
      else if ic_TTL c \<le> 0 then Some (OtherErr ''ttl must be positive'')
      else None)"

subsection \<open>The provider\<close>

record Principal =
  pr_UserID :: int64

record RegisteredClaims =
  rc_Issuer :: string
  rc_Audience :: "string list"
  rc_Subject :: string
  rc_IssuedAt :: "int option"
  rc_ExpiresAt :: "int option"

text \<open>A signing method: one of the HMAC family or another, by its name.\<close>

datatype signing_method = SigningMethodHMAC string | OtherMethod string

type_synonym keyfunc = "signing_method \<Rightarrow> gerr + string"

record jwt =
  jwt_date :: "int \<Rightarrow> int" \<comment> \<open>\<open>NewNumericDate\<close>\<close>
  jwt_sign :: "signing_method \<Rightarrow> RegisteredClaims \<Rightarrow> string \<Rightarrow> gerr + string"
  jwt_parse :: "keyfunc \<Rightarrow> string \<Rightarrow> string \<Rightarrow> int \<Rightarrow> string \<Rightarrow> gerr + RegisteredClaims"
    \<comment> \<open>\<open>ParseWithClaims\<close> with \<open>WithIssuer\<close> and \<open>WithAudience\<close>, at a time\<close>

definition issuer :: string where "issuer = ''task-tracker''"
definition audience :: string where "audience = ''task-tracker-api''"
definition HS256 :: signing_method where "HS256 = SigningMethodHMAC ''HS256''"

definition issued_claims :: "jwt \<Rightarrow> IdentityConfig \<Rightarrow> int \<Rightarrow> int64 \<Rightarrow> RegisteredClaims" where
  "issued_claims J cfg now userID =
     \<lparr>rc_Issuer = issuer, rc_Audience = [audience], rc_Subject = FormatInt userID,
      rc_IssuedAt = Some (jwt_date J now), rc_ExpiresAt = Some (jwt_date J (now + ic_TTL cfg))\<rparr>"

definition Issue :: "jwt \<Rightarrow> IdentityConfig \<Rightarrow> int \<Rightarrow> int64 \<Rightarrow> gerr + string" where
  "Issue J cfg now userID =
     (case jwt_sign J HS256 (issued_claims J cfg now userID) (ic_Secret cfg) of
        Inl e \<Rightarrow> Inl (Wrap ''sign token'' e)
      | Inr tok \<Rightarrow> Inr tok)"

definition token_key :: "IdentityConfig \<Rightarrow> keyfunc" where
  "token_key cfg m =
     (case m of SigningMethodHMAC alg \<Rightarrow> Inr (ic_Secret cfg)
      | OtherMethod alg \<Rightarrow> Inl (Wrap (''unexpected signing method '' @ alg) ErrInvalidToken))"

definition Parse :: "jwt \<Rightarrow> IdentityConfig \<Rightarrow> int \<Rightarrow> string \<Rightarrow> gerr + Principal" where
  "Parse J cfg now raw =
     (case jwt_parse J (token_key cfg) issuer audience now raw of
        Inl e \<Rightarrow> Inl (Wrap2 ErrInvalidToken e)
      | Inr claims \<Rightarrow>
          (case ParseInt (rc_Subject claims) of
             Inl e \<Rightarrow> Inl (Wrap2 ErrInvalidToken e)
           | Inr userID \<Rightarrow> Inr \<lparr>pr_UserID = userID\<rparr>))"

subsection \<open>What the library promises\<close>

definition claims_valid :: "RegisteredClaims \<Rightarrow> string \<Rightarrow> string \<Rightarrow> int \<Rightarrow> bool" where
  "claims_valid cl iss aud now \<longleftrightarrow> rc_Issuer cl = iss \<and> aud \<in> set (rc_Audience cl) \<and>
     (case rc_ExpiresAt cl of None \<Rightarrow> True | Some t \<Rightarrow> now < t)"

definition jwt_ok :: "jwt \<Rightarrow> bool" where
  "jwt_ok J \<longleftrightarrow>
     (\<forall>m cl key raw kf iss aud now. jwt_sign J m cl key = Inr raw \<and> kf m = Inr key \<and>
        claims_valid cl iss aud now \<longrightarrow> jwt_parse J kf iss aud now raw = Inr cl) \<and>
     (\<forall>kf iss aud now raw cl. jwt_parse J kf iss aud now raw = Inr cl \<longrightarrow>
        claims_valid cl iss aud now \<and> (\<exists>m key. kf m = Inr key \<and> jwt_sign J m cl key = Inr raw))"

lemma jwt_round: "jwt_ok J \<Longrightarrow> jwt_sign J m cl key = Inr raw \<Longrightarrow> kf m = Inr key \<Longrightarrow>
    claims_valid cl iss aud now \<Longrightarrow> jwt_parse J kf iss aud now raw = Inr cl"
  unfolding jwt_ok_def by blast

lemma jwt_sound:
  assumes "jwt_ok J" and "jwt_parse J kf iss aud now raw = Inr cl"
  obtains m key where "kf m = Inr key" and "jwt_sign J m cl key = Inr raw" and "claims_valid cl iss aud now"
  using assms unfolding jwt_ok_def by blast

text \<open>A library that signs one token and knows it again: the promises can hold together.\<close>

definition demo_secret :: string where "demo_secret = ''0123456789abcdef0123456789abcdef''"

definition demo_claims :: RegisteredClaims where
  "demo_claims = \<lparr>rc_Issuer = issuer, rc_Audience = [audience], rc_Subject = ''42'',
     rc_IssuedAt = Some 0, rc_ExpiresAt = Some 60\<rparr>"

definition demo_jwt :: jwt where
  "demo_jwt =
     \<lparr>jwt_date = \<lambda>t. t,
      jwt_sign = \<lambda>m cl key. if m = HS256 \<and> cl = demo_claims \<and> key = demo_secret then Inr ''t''
        else Inl (OtherErr ''key''),
      jwt_parse = \<lambda>kf iss aud now raw.
        if raw = ''t'' \<and> kf HS256 = Inr demo_secret \<and> claims_valid demo_claims iss aud now
        then Inr demo_claims else Inl (OtherErr ''token'')\<rparr>"

lemma FormatInt_42: "FormatInt 42 = ''42''" by code_simp

lemma demo_jwt_ok: "jwt_ok demo_jwt"
  by (auto simp: jwt_ok_def demo_jwt_def split: if_splits)

subsection \<open>Lemmas\<close>

lemma Parse_of_claims:
  "jwt_parse J (token_key cfg) issuer audience now raw = Inr (issued_claims J cfg t0 userID) \<Longrightarrow>
     in_int64 userID \<Longrightarrow> Parse J cfg now raw = Inr \<lparr>pr_UserID = userID\<rparr>"
  by (simp add: Parse_def issued_claims_def ParseInt_FormatInt)

lemma token_key_Inr: "token_key cfg m = Inr key \<longleftrightarrow> key = ic_Secret cfg \<and> (\<exists>alg. m = SigningMethodHMAC alg)"
  by (auto simp: token_key_def split: signing_method.splits)

lemma Issue_Inr: "Issue J cfg now userID = Inr raw \<longleftrightarrow>
    jwt_sign J HS256 (issued_claims J cfg now userID) (ic_Secret cfg) = Inr raw"
  by (simp add: Issue_def split: sum.splits)

lemma Parse_Inr:
  assumes "Parse J cfg now raw = Inr p"
  obtains cl where "jwt_parse J (token_key cfg) issuer audience now raw = Inr cl"
    and "ParseInt (rc_Subject cl) = Inr (pr_UserID p)"
  using assms by (auto simp: Parse_def split: sum.splits)

lemma Parse_Inl: "Parse J cfg now raw = Inl e \<Longrightarrow> errors_is e ErrInvalidToken"
  by (auto simp: Parse_def split: sum.splits)

subsection \<open>Properties\<close>

lemma Issue_Parse:
  assumes "jwt_ok J" and "in_int64 userID" and "Issue J cfg t0 userID = Inr raw"
    and "now < jwt_date J (t0 + ic_TTL cfg)"
  shows "Parse J cfg now raw = Inr \<lparr>pr_UserID = userID\<rparr>"
proof -
  let ?cl = "issued_claims J cfg t0 userID"
  have sign: "jwt_sign J HS256 ?cl (ic_Secret cfg) = Inr raw" using assms(3) by (simp add: Issue_Inr)
  have key: "token_key cfg HS256 = Inr (ic_Secret cfg)" by (simp add: token_key_def HS256_def)
  show ?thesis
    using assms(4) jwt_round [of J HS256 ?cl "ic_Secret cfg" raw "token_key cfg" issuer audience now, OF assms(1) sign key]
    by (intro Parse_of_claims [OF _ assms(2)]) (simp add: claims_valid_def issued_claims_def)
qed

text \<open>A token issued for a user identifies that user, with the same configuration, at every moment
  before it expires, and at no moment from its expiry on.\<close>

theorem token_round_trip:
  assumes "jwt_ok J" and "in_int64 userID" and "Issue J cfg t0 userID = Inr raw"
  shows "Parse J cfg now raw = Inr \<lparr>pr_UserID = userID\<rparr> \<longleftrightarrow> now < jwt_date J (t0 + ic_TTL cfg)"
proof
  let ?cl = "issued_claims J cfg t0 userID"
  have sign: "jwt_sign J HS256 ?cl (ic_Secret cfg) = Inr raw" using assms(3) by (simp add: Issue_Inr)
  have key: "token_key cfg HS256 = Inr (ic_Secret cfg)" by (simp add: token_key_def HS256_def)
  show "Parse J cfg now raw = Inr \<lparr>pr_UserID = userID\<rparr>" if "now < jwt_date J (t0 + ic_TTL cfg)"
    by (rule Issue_Parse [OF assms that])
  show "now < jwt_date J (t0 + ic_TTL cfg)" if "Parse J cfg now raw = Inr \<lparr>pr_UserID = userID\<rparr>"
    using that
  proof (rule Parse_Inr)
    fix cl assume p: "jwt_parse J (token_key cfg) issuer audience now raw = Inr cl"
    from jwt_sound [OF assms(1) p] obtain m key' where cl: "token_key cfg m = Inr key'"
      "jwt_sign J m cl key' = Inr raw" "claims_valid cl issuer audience now" .
    \<comment> \<open>read without its expiry in the way, the token is both \<open>cl\<close> and the issued claims\<close>
    have ends: "claims_valid cl issuer audience t \<and> claims_valid ?cl issuer audience t"
      if "t < now" "t < jwt_date J (t0 + ic_TTL cfg)" for t
      using cl(3) that by (auto simp: claims_valid_def issued_claims_def split: option.splits)
    define t where "t = min now (jwt_date J (t0 + ic_TTL cfg)) - 1"
    have "t < now" "t < jwt_date J (t0 + ic_TTL cfg)" by (simp_all add: t_def)
    then have "cl = ?cl"
      using jwt_round [of J m cl key' raw "token_key cfg" issuer audience t, OF assms(1) cl(2) cl(1)]
        jwt_round [of J HS256 ?cl "ic_Secret cfg" raw "token_key cfg" issuer audience t, OF assms(1) sign key]
        ends [of t] by simp
    with cl(3) show ?thesis by (simp add: claims_valid_def issued_claims_def)
  qed
qed

theorem token_round_trip_witness:
  "let cfg = \<lparr>ic_Secret = demo_secret, ic_TTL = 60\<rparr>
   in Issue demo_jwt cfg 0 42 = Inr ''t'' \<and> Parse demo_jwt cfg 59 ''t'' = Inr \<lparr>pr_UserID = 42\<rparr> \<and>
      Parse demo_jwt cfg 60 ''t'' \<noteq> Inr \<lparr>pr_UserID = 42\<rparr>"
proof -
  let ?cfg = "\<lparr>ic_Secret = demo_secret, ic_TTL = 60\<rparr>"
  have i: "Issue demo_jwt ?cfg 0 42 = Inr ''t''"
    by (simp add: Issue_def demo_jwt_def issued_claims_def demo_claims_def FormatInt_42)
  have "in_int64 42" by (simp add: in_int64_def)
  from i token_round_trip [OF demo_jwt_ok this i] show ?thesis by (simp add: demo_jwt_def)
qed



end
