(* ===== verification/Httpkit.thy ===== *)
theory Httpkit
  imports Evolution Identity
begin

text \<open>
  \<open>internal/transport/http/httpkit\<close> and what all HTTP handlers share: requests, responses, the reading
  of a body, validation, the mapping of errors to statuses.

  A request carries what the handlers read of it: the header, the peer, the path parameter \<open>id\<close>, the
  query, whether its context has ended, and what \<open>json.NewDecoder(r.Body).Decode\<close> makes of the body
  under the limit of \<open>LimitBody\<close> (the value, a syntax error, or the limit's error). A handler's outcome
  is the response written, or a panic. The validation library is the parameter \<open>ozzo\<close>: a function from
  the fields with their rules to the text of an error or none.
\<close>

subsection \<open>Requests and responses\<close>

datatype 'd decoded = TooLarge | BadJSON | Decoded 'd

record 'd request =
  rq_Authorization :: string
  rq_RemoteAddr :: string
  rq_id :: string \<comment> \<open>\<open>chi.URLParam(r, "id")\<close>\<close>
  rq_query :: "string \<Rightarrow> string" \<comment> \<open>\<open>r.URL.Query().Get\<close>\<close>
  rq_body :: "'d decoded"
  rq_principal :: "Principal option" \<comment> \<open>\<open>identity.FromContext\<close>\<close>
  rq_ctx_done :: bool \<comment> \<open>\<open>r.Context().Err() != nil\<close> when an error is reported\<close>
  rq_now :: int

record userResponse =
  ur_Email :: string
  ur_Name :: string
  ur_Role :: string
  ur_ID :: int64

record teamResponse =
  te_Name :: string
  te_Role :: string
  te_ID :: int64

record taskResponse =
  tr_CreatedAt :: int
  tr_UpdatedAt :: int
  tr_CompletedAt :: "int option"
  tr_AssigneeID :: "int64 option"
  tr_Title :: string
  tr_Description :: string
  tr_Status :: string
  tr_ID :: int64
  tr_TeamID :: int64
  tr_CreatedBy :: int64

record changeResponse =
  cr_ChangedAt :: int
  cr_ChangeGroupID :: string
  cr_Field :: string
  cr_OldValue :: string
  cr_NewValue :: string
  cr_ChangedBy :: int64

record commentResponse =
  mr_CreatedAt :: int
  mr_UpdatedAt :: int
  mr_Body :: string
  mr_ID :: int64
  mr_TaskID :: int64
  mr_UserID :: int64

text \<open>The DTOs of the reports have the fields of the domain's rows and stay those records.\<close>

datatype payload =
    PUser userResponse
  | PToken string
  | PTeam teamResponse
  | PTeams "teamResponse list"
  | PTask taskResponse
  | PTaskList "int64 option" "taskResponse list"
  | PHistory "changeResponse list"
  | PComment commentResponse
  | PCommentList "int64 option" "commentResponse list"
  | PTeamStats "int64 option" "TeamStats list"
  | PTopCreators "int64 option" "TeamTopCreator list"
  | POrphans "int64 option" "OrphanAssignee list"

datatype content = NoContent | PlainText string | ErrorResponse string | Json payload

record response =
  rs_status :: nat
  rs_RetryAfter :: "string option"
  rs_content :: content

datatype outcome = Responded response | Panicked

type_synonym 'w http_prog = "'w \<Rightarrow> outcome \<times> 'w"

subsection \<open>Writing\<close>

definition write_response :: "nat \<Rightarrow> content \<Rightarrow> outcome" where
  "write_response status c = Responded \<lparr>rs_status = status, rs_RetryAfter = None, rs_content = c\<rparr>"

definition WriteError :: "nat \<Rightarrow> string \<Rightarrow> outcome" where
  "WriteError status message = write_response status (ErrorResponse message)"

text \<open>\<open>encodes v\<close>: \<open>json.Marshal\<close> succeeds on \<open>v\<close>. An \<open>ErrorResponse\<close> is one string and always encodes.\<close>

definition WriteJSON :: "(payload \<Rightarrow> bool) \<Rightarrow> nat \<Rightarrow> payload \<Rightarrow> outcome" where
  "WriteJSON encodes status v =
     (if encodes v then write_response status (Json v) else WriteError 500 ''internal error'')"

definition statusClientClosed :: nat where "statusClientClosed = 499"

definition WriteInternalError :: "'d request \<Rightarrow> outcome" where
  "WriteInternalError r =
     (if rq_ctx_done r then WriteError statusClientClosed ''client closed request''
      else WriteError 500 ''internal error'')"

definition DecodeJSON :: "'d request \<Rightarrow> ('d \<Rightarrow> 'w http_prog) \<Rightarrow> 'w http_prog" where
  "DecodeJSON r k w =
     (case rq_body r of
        TooLarge \<Rightarrow> (WriteError 413 ''request body too large'', w)
      | BadJSON \<Rightarrow> (WriteError 400 ''invalid json'', w)
      | Decoded v \<Rightarrow> k v w)"

text \<open>\<open>principal, ok := identity.FromContext(r.Context())\<close> with its early return.\<close>

definition with_principal :: "'d request \<Rightarrow> (Principal \<Rightarrow> 'w http_prog) \<Rightarrow> 'w http_prog" where
  "with_principal r k w =
     (case rq_principal r of None \<Rightarrow> (WriteError 401 ''missing principal'', w) | Some p \<Rightarrow> k p w)"

text \<open>\<open>strconv.ParseInt(chi.URLParam(r, "id"), 10, 64)\<close> with its early return.\<close>

definition with_id :: "'d request \<Rightarrow> string \<Rightarrow> (int64 \<Rightarrow> 'w http_prog) \<Rightarrow> 'w http_prog" where
  "with_id r message k w =
     (case ParseInt (rq_id r) of Inl e \<Rightarrow> (WriteError 400 message, w) | Inr i \<Rightarrow> k i w)"

text \<open>The text of the sentinels of \<open>domain/errors.go\<close>.\<close>

fun sentinel_text :: "gerr \<Rightarrow> string" where
  "sentinel_text ErrEmailTaken = ''email already taken''"
| "sentinel_text ErrInvalidCredentials = ''invalid credentials''"
| "sentinel_text ErrNotFound = ''not found''"
| "sentinel_text ErrForbidden = ''forbidden''"
| "sentinel_text ErrAlreadyMember = ''already a member''"
| "sentinel_text ErrNotTeamMember = ''assignee is not a team member''"
| "sentinel_text _ = []"

text \<open>The \<open>switch\<close> on the service's error: the first case \<open>errors.Is\<close> accepts, else an internal error.\<close>

fun err_switch :: "'d request \<Rightarrow> (gerr \<times> nat \<times> string) list \<Rightarrow> gerr \<Rightarrow> outcome" where
  "err_switch r [] err = WriteInternalError r"
| "err_switch r ((target, status, message) # cs) err =
     (if errors_is err target then WriteError status message else err_switch r cs err)"

definition answer :: "'d request \<Rightarrow> (gerr \<times> nat \<times> string) list \<Rightarrow> ('a \<Rightarrow> outcome) \<Rightarrow>
    ('w \<Rightarrow> (gerr + 'a) \<times> 'w) \<Rightarrow> 'w http_prog" where
  "answer r cs ok svc w =
     (case svc w of (Inr a, w') \<Rightarrow> (ok a, w') | (Inl err, w') \<Rightarrow> (err_switch r cs err, w'))"

abbreviation not_found_case :: "gerr \<times> nat \<times> string" where
  "not_found_case \<equiv> (ErrNotFound, 404, sentinel_text ErrNotFound)"
abbreviation forbidden_case :: "gerr \<times> nat \<times> string" where
  "forbidden_case \<equiv> (ErrForbidden, 403, sentinel_text ErrForbidden)"

text \<open>
  \<open>next_cursor\<close>: \<open>if len(xs) == limit { last := xs[len(xs)-1].ID }\<close>. Indexing an empty slice panics, so a
  handler asks for it before it answers.
\<close>

definition next_cursor :: "('a \<Rightarrow> int64) \<Rightarrow> int \<Rightarrow> 'a list \<Rightarrow> (int64 option \<Rightarrow> outcome) \<Rightarrow> outcome" where
  "next_cursor ident limit xs k =
     (if int (length xs) = limit then (if xs = [] then Panicked else k (Some (ident (last xs)))) else k None)"

subsection \<open>Validation\<close>

datatype field_value = VStr string | VInt int

datatype rule = Required | Length nat nat | Min int | In "string list" | EmailFormat

type_synonym ozzo = "(string \<times> field_value \<times> rule list) list \<Rightarrow> string option"

definition validated :: "ozzo \<Rightarrow> (string \<times> field_value \<times> rule list) list \<Rightarrow> 'w http_prog \<Rightarrow> 'w http_prog" where
  "validated Z fs k w = (case Z fs of Some message \<Rightarrow> (WriteError 400 message, w) | None \<Rightarrow> k w)"

text \<open>What the library documents of the rules: all but \<open>Required\<close> pass an empty value.\<close>

fun passes :: "(string \<Rightarrow> bool) \<Rightarrow> rule \<Rightarrow> field_value \<Rightarrow> bool" where
  "passes email Required (VStr s) \<longleftrightarrow> s \<noteq> []"
| "passes email Required (VInt i) \<longleftrightarrow> i \<noteq> 0"
| "passes email (Length a b) (VStr s) \<longleftrightarrow> s = [] \<or> a \<le> length s \<and> length s \<le> b"
| "passes email (Length a b) (VInt i) \<longleftrightarrow> False"
| "passes email (Min m) (VInt i) \<longleftrightarrow> i = 0 \<or> m \<le> i"
| "passes email (Min m) (VStr s) \<longleftrightarrow> False"
| "passes email (In xs) (VStr s) \<longleftrightarrow> s = [] \<or> s \<in> set xs"
| "passes email (In xs) (VInt i) \<longleftrightarrow> False"
| "passes email EmailFormat (VStr s) \<longleftrightarrow> s = [] \<or> email s"
| "passes email EmailFormat (VInt i) \<longleftrightarrow> False"

definition ozzo_ok :: "ozzo \<Rightarrow> (string \<Rightarrow> bool) \<Rightarrow> bool" where
  "ozzo_ok Z email \<longleftrightarrow> (\<forall>fs. Z fs = None \<longleftrightarrow> (\<forall>(n, v, rs) \<in> set fs. \<forall>r \<in> set rs. passes email r v))"

definition demo_ozzo :: ozzo where
  "demo_ozzo fs = (if \<forall>(n, v, rs) \<in> set fs. \<forall>r \<in> set rs. passes (\<lambda>s. CHR ''@'' \<in> set s) r v then None
     else Some ''invalid'')"

lemma demo_ozzo_ok: "ozzo_ok demo_ozzo (\<lambda>s. CHR ''@'' \<in> set s)"
  by (simp add: ozzo_ok_def demo_ozzo_def)

lemma ozzo_None: "ozzo_ok Z email \<Longrightarrow> Z fs = None \<Longrightarrow> (n, v, rs) \<in> set fs \<Longrightarrow> r \<in> set rs \<Longrightarrow> passes email r v"
  unfolding ozzo_ok_def by blast

subsection \<open>\<open>strings.TrimSpace\<close>\<close>

text \<open>The code points \<open>unicode.IsSpace\<close> accepts, in UTF-8.\<close>

definition space_runes :: "string list" where
  "space_runes = map (map char_of) ([[9], [10], [11], [12], [13], [32], [194, 133], [194, 160], [225, 154, 128]] @
     map (\<lambda>b. [226, 128, b]) [128, 129, 130, 131, 132, 133, 134, 135, 136, 137, 138, 168, 169, 175] @
     [[226, 129, 159], [227, 128, 128 :: nat]])"

lemma space_runes_nonempty: "r \<in> set space_runes \<Longrightarrow> 0 < length r"
  by (auto simp: space_runes_def)

function trim_left :: "string \<Rightarrow> string" where
  "trim_left s =
     (case find (\<lambda>r. take (length r) s = r) space_runes of
        None \<Rightarrow> s | Some r \<Rightarrow> if length r \<le> length s then trim_left (drop (length r) s) else s)"
  by pat_completeness auto
termination
proof (relation "measure length")
  fix s r assume "find (\<lambda>r. take (length r) s = r) space_runes = Some r" "length r \<le> length s"
  then have "0 < length r" "length r \<le> length s" by (auto dest!: find_Some_iff_mem space_runes_nonempty)
  then show "(drop (length r) s, s) \<in> measure length" by (simp only: in_measure length_drop length_take)
qed simp

function trim_right :: "string \<Rightarrow> string" where
  "trim_right s =
     (case find (\<lambda>r. drop (length s - length r) s = r) space_runes of
        None \<Rightarrow> s | Some r \<Rightarrow> if length r \<le> length s then trim_right (take (length s - length r) s) else s)"
  by pat_completeness auto
termination
proof (relation "measure length")
  fix s r assume "find (\<lambda>r. drop (length s - length r) s = r) space_runes = Some r" "length r \<le> length s"
  then have "0 < length r" "length r \<le> length s" by (auto dest!: find_Some_iff_mem space_runes_nonempty)
  then show "(take (length s - length r) s, s) \<in> measure length" by (simp only: in_measure length_drop length_take)
qed simp

declare trim_left.simps [simp del] trim_right.simps [simp del]

definition TrimSpace :: "string \<Rightarrow> string" where
  "TrimSpace s = trim_right (trim_left s)"

lemma trim_left_suffix: "\<exists>p. s = p @ trim_left s"
proof (induction s rule: trim_left.induct)
  case (1 s)
  show ?case
  proof (cases "find (\<lambda>r. take (length r) s = r) space_runes")
    case (Some r)
    show ?thesis
    proof (cases "length r \<le> length s")
      case True
      from 1 [OF Some True] obtain p where p: "drop (length r) s = p @ trim_left (drop (length r) s)" ..
      have "trim_left s = trim_left (drop (length r) s)" using Some True by (simp add: trim_left.simps [of s])
      with p have "s = (take (length r) s @ p) @ trim_left s" by (metis append.assoc append_take_drop_id)
      then show ?thesis ..
    qed (simp add: trim_left.simps [of s] Some)
  qed (simp add: trim_left.simps [of s])
qed

lemma trim_right_end:
  "r \<in> set space_runes \<Longrightarrow> length r \<le> length (trim_right s) \<Longrightarrow>
     drop (length (trim_right s) - length r) (trim_right s) \<noteq> r"
proof (induction s rule: trim_right.induct)
  case (1 s)
  show ?case
  proof (cases "find (\<lambda>r. drop (length s - length r) s = r) space_runes")
    case None
    with 1(2) show ?thesis by (auto simp: trim_right.simps [of s] dest: find_None_all)
  next
    case (Some q)
    then have "drop (length s - length q) s = q" by (auto dest: find_Some_iff_mem)
    then have "length q \<le> length s" by (metis diff_le_self length_drop)
    with 1 Some show ?thesis by (simp add: trim_right.simps [of s])
  qed
qed

subsection \<open>Lemmas\<close>

lemma answer_cases:
  obtains (ok) a w' where "svc w = (Inr a, w')" and "answer r cs k svc w = (k a, w')"
  | (err) e w' where "svc w = (Inl e, w')" and "answer r cs k svc w = (err_switch r cs e, w')"
proof (cases "svc w")
  case (Pair x w')
  with that show thesis by (cases x) (auto simp: answer_def)
qed

text \<open>An error answer comes from the table or is one of the two fixed internal texts.\<close>

lemma err_switch_table:
  "(\<exists>t st m. (t, st, m) \<in> set cs \<and> errors_is e t \<and> err_switch r cs e = WriteError st m) \<or>
   err_switch r cs e = WriteInternalError r"
  by (induction r cs e rule: err_switch.induct) auto

subsection \<open>Dependencies and invariant\<close>

text \<open>What the handlers' closures hold: the services' collaborators that are parameters of the model.\<close>

record 'r deps =
  dp_redis :: "'r redis"
  dp_codec :: codec
  dp_ttl :: duration
  dp_genpw :: "string \<Rightarrow> int \<Rightarrow> gerr + string"
  dp_cost :: int
  dp_cmppw :: "string \<Rightarrow> string \<Rightarrow> bool"
  dp_jwt :: jwt
  dp_identity :: IdentityConfig
  dp_ozzo :: ozzo
  dp_encodes :: "payload \<Rightarrow> bool"

text \<open>
  An outcome a client may see: no panic, and an answer with a status from 499 on says nothing but one of
  the two fixed texts.
\<close>

definition clean :: "outcome \<Rightarrow> bool" where
  "clean out \<longleftrightarrow> (case out of Panicked \<Rightarrow> False | Responded rs \<Rightarrow> 499 \<le> rs_status rs \<longrightarrow>
     rs_content rs \<in> {ErrorResponse ''internal error'', ErrorResponse ''client closed request''})"

lemma clean_write [simp]:
  "st < 499 \<Longrightarrow> clean (write_response st c)" "st < 499 \<Longrightarrow> clean (WriteError st m)"
  "clean (WriteInternalError r)" "st < 499 \<Longrightarrow> clean (WriteJSON enc st v)"
  by (simp_all add: clean_def WriteError_def write_response_def WriteInternalError_def WriteJSON_def)

lemma clean_err_switch: "list_all (\<lambda>(t, st, m). st < 499) cs \<Longrightarrow> clean (err_switch r cs e)"
  by (induction r cs e rule: err_switch.induct) auto

lemma clean_next_cursor: "1 \<le> limit \<Longrightarrow> (\<And>c. clean (k c)) \<Longrightarrow> clean (next_cursor ident limit xs k)"
  by (auto simp: next_cursor_def)

text \<open>A program on the database and the cache that keeps the invariant, takes nothing back (\<open>evolves\<close>) and
  answers cleanly.\<close>

definition http_safe :: "env \<Rightarrow> (db \<times> 'r) http_prog \<Rightarrow> bool" where
  "http_safe E h \<longleftrightarrow> (\<forall>w. clean (fst (h w)) \<and> evolves (tbl (fst w)) (tbl (fst (snd (h w)))) \<and>
     (db_inv E (fst w) \<longrightarrow> db_inv E (fst (snd (h w)))))"

named_theorems safe_intros \<open>handlers that keep the invariant and answer cleanly\<close>

lemma safe_principal [safe_intros]: "(\<And>p. http_safe E (k p)) \<Longrightarrow> http_safe E (with_principal r k)"
  by (simp add: http_safe_def with_principal_def split: option.splits)

lemma safe_decode [safe_intros]: "(\<And>v. http_safe E (k v)) \<Longrightarrow> http_safe E (DecodeJSON r k)"
  by (simp add: http_safe_def DecodeJSON_def split: decoded.splits)

lemma safe_id [safe_intros]: "(\<And>i. http_safe E (k i)) \<Longrightarrow> http_safe E (with_id r m k)"
  by (simp add: http_safe_def with_id_def split: sum.splits)

lemma safe_validated [safe_intros]: "http_safe E k \<Longrightarrow> http_safe E (validated Z fs k)"
  by (simp add: http_safe_def validated_def split: option.splits)

lemma safe_parsed:
  assumes "\<And>x. p = Inr x \<Longrightarrow> http_safe E (k x)"
  shows "http_safe E (\<lambda>w. case p of Inl m \<Rightarrow> (WriteError 400 m, w) | Inr x \<Rightarrow> k x w)"
  using assms by (cases p) (simp_all add: http_safe_def)

lemma safe_answer:
  assumes "svc_keeps E svc" and "svc_evolves svc" and "\<And>a. clean (ok a)" and "list_all (\<lambda>(t, st, m). st < 499) cs"
  shows "http_safe E (answer r cs ok svc)"
  unfolding http_safe_def
proof
  fix w
  from assms(1) have "db_inv E (fst w) \<Longrightarrow> db_inv E (fst (snd (svc w)))" unfolding svc_keeps_def by blast
  moreover from assms(2) have "evolves (tbl (fst w)) (tbl (fst (snd (svc w))))" unfolding svc_evolves_def by blast
  ultimately show "clean (fst (answer r cs ok svc w)) \<and>
      evolves (tbl (fst w)) (tbl (fst (snd (answer r cs ok svc w)))) \<and>
      (db_inv E (fst w) \<longrightarrow> db_inv E (fst (snd (answer r cs ok svc w))))"
    using assms(3) clean_err_switch [OF assms(4)]
    by (cases rule: answer_cases [of svc w r cs ok]) auto
qed

end
