(* ===== verification/Accounts_Http.thy ===== *)
theory Accounts_Http
  imports Httpkit
begin

text \<open>
  \<open>internal/transport/http/auth\<close> and \<open>internal/transport/http/teams\<close>: registration, login, the current
  user, teams and invitations.
\<close>

subsection \<open>Requests\<close>

record registerRequest =
  rg_Email :: string
  rg_Name :: string
  rg_Password :: string

definition registerRequest_fields :: "registerRequest \<Rightarrow> (string \<times> field_value \<times> rule list) list" where
  "registerRequest_fields r =
     [(''email'', VStr (rg_Email r), [Required, EmailFormat]),
      (''name'', VStr (rg_Name r), [Required, Length 1 255]),
      (''password'', VStr (rg_Password r), [Required, Length 8 72])]"

record loginRequest =
  lg_Email :: string
  lg_Password :: string

definition loginRequest_fields :: "loginRequest \<Rightarrow> (string \<times> field_value \<times> rule list) list" where
  "loginRequest_fields r =
     [(''email'', VStr (lg_Email r), [Required]), (''password'', VStr (lg_Password r), [Required])]"

record createTeamRequest =
  cm_Name :: string

definition createTeamRequest_fields :: "createTeamRequest \<Rightarrow> (string \<times> field_value \<times> rule list) list" where
  "createTeamRequest_fields r = [(''name'', VStr (cm_Name r), [Required, Length 1 255])]"

record inviteRequest =
  iv_Email :: string

definition inviteRequest_fields :: "inviteRequest \<Rightarrow> (string \<times> field_value \<times> rule list) list" where
  "inviteRequest_fields r = [(''email'', VStr (iv_Email r), [Required, EmailFormat])]"

subsection \<open>Accounts\<close>

definition to_userResponse :: "SvcUser \<Rightarrow> userResponse" where
  "to_userResponse u = \<lparr>ur_Email = su_Email u, ur_Name = su_Name u, ur_Role = su_Role u, ur_ID = su_ID u\<rparr>"

definition registerHandler :: "env \<Rightarrow> 'r deps \<Rightarrow> registerRequest request \<Rightarrow> (db \<times> 'r) http_prog" where
  "registerHandler E D r =
     DecodeJSON r (\<lambda>req.
     validated (dp_ozzo D) (registerRequest_fields req)
       (answer r [(ErrEmailTaken, 409, sentinel_text ErrEmailTaken)]
         (\<lambda>u. WriteJSON (dp_encodes D) 201 (PUser (to_userResponse u)))
         (on_db (Auth_Register E (dp_genpw D) (dp_cost D) (rg_Email req) (rg_Name req) (rg_Password req)))))"

definition loginHandler :: "env \<Rightarrow> 'r deps \<Rightarrow> loginRequest request \<Rightarrow> (db \<times> 'r) http_prog" where
  "loginHandler E D r =
     DecodeJSON r (\<lambda>req.
     validated (dp_ozzo D) (loginRequest_fields req)
       (answer r [(ErrInvalidCredentials, 401, sentinel_text ErrInvalidCredentials)]
         (\<lambda>t. WriteJSON (dp_encodes D) 200 (PToken t))
         (on_db (Auth_Login E (dp_cmppw D) (Issue (dp_jwt D) (dp_identity D) (rq_now r))
           (lg_Email req) (lg_Password req)))))"

definition Me :: "env \<Rightarrow> 'r deps \<Rightarrow> unit request \<Rightarrow> (db \<times> 'r) http_prog" where
  "Me E D r =
     with_principal r (\<lambda>principal.
       answer r [(ErrNotFound, 401, ''user no longer exists'')]
         (\<lambda>u. WriteJSON (dp_encodes D) 200 (PUser (to_userResponse u)))
         (on_db (Auth_UserByID E (pr_UserID principal))))"

subsection \<open>Teams\<close>

definition to_teamResponse :: "TeamMembership \<Rightarrow> teamResponse" where
  "to_teamResponse m = \<lparr>te_Name = tm_Name m, te_Role = tm_Role m, te_ID = tm_ID m\<rparr>"

definition teams_createHandler :: "env \<Rightarrow> 'r deps \<Rightarrow> createTeamRequest request \<Rightarrow> (db \<times> 'r) http_prog" where
  "teams_createHandler E D r =
     with_principal r (\<lambda>principal.
     DecodeJSON r (\<lambda>req.
     validated (dp_ozzo D) (createTeamRequest_fields req)
       (answer r [(ErrNotFound, 401, ''user no longer exists'')]
         (\<lambda>m. WriteJSON (dp_encodes D) 201 (PTeam (to_teamResponse m)))
         (on_db (Teams_Create E (pr_UserID principal) (cm_Name req))))))"

definition teams_listHandler :: "env \<Rightarrow> 'r deps \<Rightarrow> unit request \<Rightarrow> (db \<times> 'r) http_prog" where
  "teams_listHandler E D r =
     with_principal r (\<lambda>principal.
       answer r [] (\<lambda>ms. WriteJSON (dp_encodes D) 200 (PTeams (map to_teamResponse ms)))
         (on_db (Teams_List E (pr_UserID principal))))"

definition inviteHandler :: "env \<Rightarrow> 'r deps \<Rightarrow> inviteRequest request \<Rightarrow> (db \<times> 'r) http_prog" where
  "inviteHandler E D r =
     with_principal r (\<lambda>principal.
     with_id r ''invalid team id'' (\<lambda>teamID.
     DecodeJSON r (\<lambda>req.
     validated (dp_ozzo D) (inviteRequest_fields req)
       (answer r [not_found_case, forbidden_case, (ErrAlreadyMember, 409, sentinel_text ErrAlreadyMember)]
         (\<lambda>_. write_response 204 NoContent)
         (on_db (Teams_Invite E (pr_UserID principal) teamID (iv_Email req)))))))"

subsection \<open>Safety\<close>

lemma account_handlers_safe [safe_intros]:
  "http_safe E (registerHandler E D r1)" "http_safe E (loginHandler E D r2)" "http_safe E (Me E D r3)"
  unfolding registerHandler_def loginHandler_def Me_def
  by (intro safe_intros safe_answer svc_keeps_db Auth_Register_inv keeps_ro svc_evolves_db evo_Auth evo_ro Auth_Login_ro Auth_UserByID_ro; simp)+

lemma team_handlers_safe [safe_intros]:
  "http_safe E (teams_createHandler E D r1)" "http_safe E (teams_listHandler E D r2)"
  "http_safe E (inviteHandler E D r3)"
  unfolding teams_createHandler_def teams_listHandler_def inviteHandler_def
  by (intro safe_intros safe_answer svc_keeps_db Teams_Create_inv Teams_Invite_inv keeps_ro svc_evolves_db evo_Teams evo_ro Teams_List_ro; simp)+

end
