(* ===== verification/Tasks_Http.thy ===== *)
theory Tasks_Http
  imports Httpkit
begin

text \<open>
  \<open>internal/transport/http/tasks\<close>: the requests and their validation, the list filter, the four handlers.
\<close>

subsection \<open>Requests\<close>

definition validStatuses :: "string list" where
  "validStatuses = [''todo'', ''in_progress'', ''done'']"

definition maxDescriptionLen :: nat where "maxDescriptionLen = 10000"

record createTaskRequest =
  ct_AssigneeID :: "int64 option"
  ct_Title :: string
  ct_Description :: string
  ct_Status :: string
  ct_TeamID :: int64

definition createTaskRequest_fields :: "createTaskRequest \<Rightarrow> (string \<times> field_value \<times> rule list) list" where
  "createTaskRequest_fields r =
     [(''team_id'', VInt (ct_TeamID r), [Required, Min 1]),
      (''title'', VStr (ct_Title r), [Required, Length 1 500]),
      (''description'', VStr (ct_Description r), [Length 0 maxDescriptionLen]),
      (''status'', VStr (ct_Status r), [In validStatuses])]"

record updateTaskRequest =
  ut_AssigneeID :: "int64 option"
  ut_Title :: string
  ut_Description :: string
  ut_Status :: string

definition updateTaskRequest_fields :: "updateTaskRequest \<Rightarrow> (string \<times> field_value \<times> rule list) list" where
  "updateTaskRequest_fields r =
     [(''title'', VStr (ut_Title r), [Required, Length 1 500]),
      (''description'', VStr (ut_Description r), [Length 0 maxDescriptionLen]),
      (''status'', VStr (ut_Status r), [Required, In validStatuses])]"

subsection \<open>The list filter\<close>

definition defaultLimit :: int where "defaultLimit = 20"
definition maxLimit :: int where "maxLimit = 100"

definition parse_status :: "string \<Rightarrow> string + TaskStatus option" where
  "parse_status s =
     (if s = [] then Inr None
      else if s \<in> {TaskStatusTodo, TaskStatusInProgress, TaskStatusDone} then Inr (Some s)
      else Inl ''invalid status'')"

text \<open>An optional id of the query, absent when empty, with the error for anything that is no positive id.\<close>

definition parse_id :: "string \<Rightarrow> string \<Rightarrow> string + int64 option" where
  "parse_id message s =
     (if s = [] then Inr None
      else case ParseInt s of
        Inl e \<Rightarrow> Inl message
      | Inr i \<Rightarrow> if i < 1 then Inl message else Inr (Some i))"

definition parse_limit :: "string \<Rightarrow> string + int" where
  "parse_limit s =
     (if s = [] then Inr defaultLimit
      else case Atoi s of
        Inl e \<Rightarrow> Inl ''limit must be 1..100''
      | Inr i \<Rightarrow> if i < 1 \<or> i > maxLimit then Inl ''limit must be 1..100'' else Inr i)"

definition parse_cursor :: "string \<Rightarrow> string + int64" where
  "parse_cursor s =
     (case parse_id ''invalid cursor'' s of Inl m \<Rightarrow> Inl m | Inr None \<Rightarrow> Inr 0 | Inr (Some i) \<Rightarrow> Inr i)"

definition required_id :: "string \<Rightarrow> string \<Rightarrow> string + int64" where
  "required_id message s =
     (case ParseInt s of Inl e \<Rightarrow> Inl message | Inr i \<Rightarrow> if i < 1 then Inl message else Inr i)"

definition tasks_parseListFilter :: "(string \<Rightarrow> string) \<Rightarrow> string + TaskFilter" where
  "tasks_parseListFilter q =
     (case required_id ''team_id is required'' (q ''team_id'') of
        Inl m \<Rightarrow> Inl m
      | Inr teamID \<Rightarrow>
     (case parse_status (q ''status'') of
        Inl m \<Rightarrow> Inl m
      | Inr status \<Rightarrow>
     (case parse_id ''invalid assignee_id'' (q ''assignee_id'') of
        Inl m \<Rightarrow> Inl m
      | Inr assigneeID \<Rightarrow>
     (case parse_limit (q ''limit'') of
        Inl m \<Rightarrow> Inl m
      | Inr limit \<Rightarrow>
     (case parse_cursor (q ''cursor'') of
        Inl m \<Rightarrow> Inl m
      | Inr afterID \<Rightarrow>
          Inr \<lparr>tf_Status = status, tf_AssigneeID = assigneeID, tf_TeamID = teamID, tf_Limit = limit,
               tf_AfterID = afterID\<rparr>)))))"

subsection \<open>Handlers\<close>

definition toTaskResponse :: "Task \<Rightarrow> taskResponse" where
  "toTaskResponse t =
     \<lparr>tr_CreatedAt = task_CreatedAt t, tr_UpdatedAt = task_UpdatedAt t, tr_CompletedAt = task_CompletedAt t,
      tr_AssigneeID = task_AssigneeID t, tr_Title = task_Title t, tr_Description = task_Description t,
      tr_Status = task_Status t, tr_ID = task_ID t, tr_TeamID = task_TeamID t,
      tr_CreatedBy = task_CreatedBy t\<rparr>"

abbreviation not_member_case :: "gerr \<times> nat \<times> string" where
  "not_member_case \<equiv> (ErrNotTeamMember, 400, sentinel_text ErrNotTeamMember)"

definition tasks_createHandler ::
  "env \<Rightarrow> 'r deps \<Rightarrow> createTaskRequest request \<Rightarrow> (db \<times> 'r) http_prog" where
  "tasks_createHandler E D r =
     with_principal r (\<lambda>principal.
     DecodeJSON r (\<lambda>req.
     validated (dp_ozzo D) (createTaskRequest_fields req)
       (answer r [not_found_case, forbidden_case, not_member_case]
         (\<lambda>task. WriteJSON (dp_encodes D) 201 (PTask (toTaskResponse task)))
         (Tasks_Create E (dp_redis D) (pr_UserID principal) (ct_TeamID req)
           \<lparr>ti_AssigneeID = ct_AssigneeID req, ti_Title = ct_Title req, ti_Description = ct_Description req,
            ti_Status = ct_Status req\<rparr>))))"

definition tasks_listHandler :: "env \<Rightarrow> 'r deps \<Rightarrow> unit request \<Rightarrow> (db \<times> 'r) http_prog" where
  "tasks_listHandler E D r =
     with_principal r (\<lambda>principal w.
       case tasks_parseListFilter (rq_query r) of
         Inl m \<Rightarrow> (WriteError 400 m, w)
       | Inr flt \<Rightarrow>
           answer r [not_found_case, forbidden_case]
             (\<lambda>ts. next_cursor task_ID (tf_Limit flt) ts
               (\<lambda>cursor. WriteJSON (dp_encodes D) 200 (PTaskList cursor (map toTaskResponse ts))))
             (Tasks_List E (dp_redis D) (dp_codec D) (dp_ttl D) (pr_UserID principal) flt) w)"

definition tasks_updateHandler ::
  "env \<Rightarrow> 'r deps \<Rightarrow> updateTaskRequest request \<Rightarrow> (db \<times> 'r) http_prog" where
  "tasks_updateHandler E D r =
     with_principal r (\<lambda>principal.
     with_id r ''invalid task id'' (\<lambda>taskID.
     DecodeJSON r (\<lambda>req.
     validated (dp_ozzo D) (updateTaskRequest_fields req)
       (answer r [not_found_case, forbidden_case, not_member_case]
         (\<lambda>task. WriteJSON (dp_encodes D) 200 (PTask (toTaskResponse task)))
         (Tasks_Update E (dp_redis D) (pr_UserID principal) taskID
           \<lparr>ti_AssigneeID = ut_AssigneeID req, ti_Title = ut_Title req, ti_Description = ut_Description req,
            ti_Status = ut_Status req\<rparr>)))))"

definition toChangeResponse :: "TaskChange \<Rightarrow> changeResponse" where
  "toChangeResponse c =
     \<lparr>cr_ChangedAt = tc_ChangedAt c, cr_ChangeGroupID = tc_GroupID c, cr_Field = tc_Field c,
      cr_OldValue = tc_OldValue c, cr_NewValue = tc_NewValue c, cr_ChangedBy = tc_ChangedBy c\<rparr>"

definition tasks_historyHandler :: "env \<Rightarrow> 'r deps \<Rightarrow> unit request \<Rightarrow> (db \<times> 'r) http_prog" where
  "tasks_historyHandler E D r =
     with_principal r (\<lambda>principal.
     with_id r ''invalid task id'' (\<lambda>taskID.
       answer r [not_found_case, forbidden_case]
         (\<lambda>changes. WriteJSON (dp_encodes D) 200 (PHistory (map toChangeResponse changes)))
         (on_db (Tasks_History E (pr_UserID principal) taskID))))"

subsection \<open>What the parsers let through\<close>

lemma required_id_Inr: "required_id m s = Inr i \<Longrightarrow> 1 \<le> i \<and> in_int64 i"
  by (auto simp: required_id_def dest: ParseInt_range split: sum.splits if_splits)

lemma parse_limit_Inr: "parse_limit s = Inr n \<Longrightarrow> 1 \<le> n \<and> n \<le> 100"
  by (auto simp: parse_limit_def defaultLimit_def maxLimit_def split: sum.splits if_splits)

lemma parse_id_Inr: "parse_id m s = Inr (Some i) \<Longrightarrow> 1 \<le> i \<and> in_int64 i"
  by (auto simp: parse_id_def dest: ParseInt_range split: sum.splits if_splits)

lemma parse_cursor_Inr: "parse_cursor s = Inr i \<Longrightarrow> 0 \<le> i \<and> in_int64 i"
  by (auto simp: parse_cursor_def in_int64_def dest!: parse_id_Inr split: sum.splits option.splits)

lemma parse_status_Inr: "parse_status s = Inr (Some st) \<Longrightarrow> st \<in> {TaskStatusTodo, TaskStatusInProgress, TaskStatusDone}"
  by (auto simp: parse_status_def split: if_splits)

lemma tasks_parseListFilter_Inr:
  assumes "tasks_parseListFilter q = Inr f"
  shows "filter_ok f" and "1 \<le> tf_Limit f" and "tf_Limit f \<le> 100" and "0 \<le> tf_AfterID f"
proof -
  from assms obtain teamID status assigneeID limit afterID where
    p: "required_id ''team_id is required'' (q ''team_id'') = Inr teamID" "parse_status (q ''status'') = Inr status"
    "parse_id ''invalid assignee_id'' (q ''assignee_id'') = Inr assigneeID" "parse_limit (q ''limit'') = Inr limit"
    "parse_cursor (q ''cursor'') = Inr afterID"
    and f: "f = \<lparr>tf_Status = status, tf_AssigneeID = assigneeID, tf_TeamID = teamID, tf_Limit = limit,
               tf_AfterID = afterID\<rparr>"
    by (auto simp: tasks_parseListFilter_def split: sum.splits)
  show "filter_ok f"
    using required_id_Inr [OF p(1)] parse_status_Inr [of "q ''status''"] parse_id_Inr [of _ "q ''assignee_id''"] p f
    by (auto simp: filter_ok_def split: option.splits)
  show "1 \<le> tf_Limit f" "tf_Limit f \<le> 100" "0 \<le> tf_AfterID f"
    using parse_limit_Inr [OF p(4)] parse_cursor_Inr [OF p(5)] f by simp_all
qed

subsection \<open>Safety\<close>

lemma tasks_createHandler_safe [safe_intros]: "http_safe E (tasks_createHandler E D r)"
  unfolding tasks_createHandler_def by (intro safe_intros safe_answer Tasks_Create_keeps svc_evolves_Tasks) simp_all

lemma tasks_updateHandler_safe [safe_intros]: "http_safe E (tasks_updateHandler E D r)"
  unfolding tasks_updateHandler_def by (intro safe_intros safe_answer Tasks_Update_keeps svc_evolves_Tasks) simp_all

lemma tasks_historyHandler_safe [safe_intros]: "http_safe E (tasks_historyHandler E D r)"
  unfolding tasks_historyHandler_def by (intro safe_intros safe_answer svc_keeps_db keeps_ro svc_evolves_ro Tasks_History_ro) simp_all

lemma tasks_listHandler_safe [safe_intros]: "http_safe E (tasks_listHandler E D r)"
  unfolding tasks_listHandler_def
  by (intro safe_principal safe_parsed safe_answer Tasks_List_keeps svc_evolves_Tasks_List clean_next_cursor)
    (auto dest: tasks_parseListFilter_Inr)

end
