(* ===== verification/Comments_Http.thy ===== *)
theory Comments_Http
  imports Tasks_Http
begin

text \<open>
  \<open>internal/transport/http/comments\<close>: requests, the list filter and the four handlers. A comment's body is
  trimmed before it is validated.
\<close>

definition maxBodyLen :: nat where "maxBodyLen = 4000"

record createCommentRequest =
  cq_Body :: string
  cq_TaskID :: int64

definition createCommentRequest_fields :: "createCommentRequest \<Rightarrow> (string \<times> field_value \<times> rule list) list" where
  "createCommentRequest_fields r =
     [(''task_id'', VInt (cq_TaskID r), [Required, Min 1]),
      (''body'', VStr (cq_Body r), [Required, Length 1 maxBodyLen])]"

record updateCommentRequest =
  uq_Body :: string

definition updateCommentRequest_fields :: "updateCommentRequest \<Rightarrow> (string \<times> field_value \<times> rule list) list" where
  "updateCommentRequest_fields r = [(''body'', VStr (uq_Body r), [Required, Length 1 maxBodyLen])]"

definition comments_parseListFilter :: "(string \<Rightarrow> string) \<Rightarrow> string + CommentFilter" where
  "comments_parseListFilter q =
     (case required_id ''task_id is required'' (q ''task_id'') of
        Inl m \<Rightarrow> Inl m
      | Inr taskID \<Rightarrow>
     (case parse_limit (q ''limit'') of
        Inl m \<Rightarrow> Inl m
      | Inr limit \<Rightarrow>
     (case parse_cursor (q ''cursor'') of
        Inl m \<Rightarrow> Inl m
      | Inr afterID \<Rightarrow> Inr \<lparr>cf_TaskID = taskID, cf_Limit = limit, cf_AfterID = afterID\<rparr>)))"

definition toCommentResponse :: "TaskComment \<Rightarrow> commentResponse" where
  "toCommentResponse c =
     \<lparr>mr_CreatedAt = co_CreatedAt c, mr_UpdatedAt = co_UpdatedAt c, mr_Body = co_Body c, mr_ID = co_ID c,
      mr_TaskID = co_TaskID c, mr_UserID = co_UserID c\<rparr>"

definition comments_createHandler ::
  "env \<Rightarrow> 'r deps \<Rightarrow> createCommentRequest request \<Rightarrow> (db \<times> 'r) http_prog" where
  "comments_createHandler E D r =
     with_principal r (\<lambda>principal.
     DecodeJSON r (\<lambda>req0.
       let req = req0\<lparr>cq_Body := TrimSpace (cq_Body req0)\<rparr>
       in validated (dp_ozzo D) (createCommentRequest_fields req)
            (answer r [not_found_case, forbidden_case]
              (\<lambda>comment. WriteJSON (dp_encodes D) 201 (PComment (toCommentResponse comment)))
              (on_db (Comments_Create E (pr_UserID principal) (cq_TaskID req) (cq_Body req))))))"

definition comments_listHandler :: "env \<Rightarrow> 'r deps \<Rightarrow> unit request \<Rightarrow> (db \<times> 'r) http_prog" where
  "comments_listHandler E D r =
     with_principal r (\<lambda>principal w.
       case comments_parseListFilter (rq_query r) of
         Inl m \<Rightarrow> (WriteError 400 m, w)
       | Inr flt \<Rightarrow>
           answer r [not_found_case, forbidden_case]
             (\<lambda>cs. next_cursor co_ID (cf_Limit flt) cs
               (\<lambda>cursor. WriteJSON (dp_encodes D) 200 (PCommentList cursor (map toCommentResponse cs))))
             (on_db (Comments_List E (pr_UserID principal) flt)) w)"

definition comments_updateHandler ::
  "env \<Rightarrow> 'r deps \<Rightarrow> updateCommentRequest request \<Rightarrow> (db \<times> 'r) http_prog" where
  "comments_updateHandler E D r =
     with_principal r (\<lambda>principal.
     with_id r ''invalid comment id'' (\<lambda>commentID.
     DecodeJSON r (\<lambda>req0.
       let req = req0\<lparr>uq_Body := TrimSpace (uq_Body req0)\<rparr>
       in validated (dp_ozzo D) (updateCommentRequest_fields req)
            (answer r [not_found_case, forbidden_case]
              (\<lambda>comment. WriteJSON (dp_encodes D) 200 (PComment (toCommentResponse comment)))
              (on_db (Comments_Update E (pr_UserID principal) commentID (uq_Body req)))))))"

definition comments_deleteHandler :: "env \<Rightarrow> 'r deps \<Rightarrow> unit request \<Rightarrow> (db \<times> 'r) http_prog" where
  "comments_deleteHandler E D r =
     with_principal r (\<lambda>principal.
     with_id r ''invalid comment id'' (\<lambda>commentID.
       answer r [not_found_case, forbidden_case] (\<lambda>_. write_response 204 NoContent)
         (on_db (Comments_Delete E (pr_UserID principal) commentID))))"

subsection \<open>Safety\<close>

lemma comments_parseListFilter_Inr:
  "comments_parseListFilter q = Inr f \<Longrightarrow> 1 \<le> cf_TaskID f \<and> 1 \<le> cf_Limit f \<and> cf_Limit f \<le> 100 \<and> 0 \<le> cf_AfterID f"
  by (auto simp: comments_parseListFilter_def split: sum.splits
      dest!: required_id_Inr parse_limit_Inr parse_cursor_Inr)

lemma comments_createHandler_safe [safe_intros]: "http_safe E (comments_createHandler E D r)"
  unfolding comments_createHandler_def Let_def
  by (intro safe_intros safe_answer svc_keeps_db Comments_Create_inv svc_evolves_db evo_Comments) simp_all

lemma comments_listHandler_safe [safe_intros]: "http_safe E (comments_listHandler E D r)"
  unfolding comments_listHandler_def
  by (intro safe_principal safe_parsed safe_answer svc_keeps_db keeps_ro svc_evolves_ro Comments_List_ro clean_next_cursor)
    (auto dest: comments_parseListFilter_Inr)

lemma comments_updateHandler_safe [safe_intros]: "http_safe E (comments_updateHandler E D r)"
  unfolding comments_updateHandler_def Let_def
  by (intro safe_intros safe_answer svc_keeps_db Comments_Update_inv svc_evolves_db evo_Comments) simp_all

lemma comments_deleteHandler_safe [safe_intros]: "http_safe E (comments_deleteHandler E D r)"
  unfolding comments_deleteHandler_def
  by (intro safe_intros safe_answer svc_keeps_db Comments_Delete_inv svc_evolves_db evo_Comments) simp_all

end
