(* ===== verification/Analytics_Http.thy ===== *)
theory Analytics_Http
  imports Tasks_Http
begin

text \<open>
  \<open>internal/transport/http/analytics\<close>: the admin reports, page by page.
\<close>

definition parseCursorLimit :: "(string \<Rightarrow> string) \<Rightarrow> string + (int64 \<times> int)" where
  "parseCursorLimit q =
     (case parse_limit (q ''limit'') of
        Inl m \<Rightarrow> Inl m
      | Inr limit \<Rightarrow>
     (case parse_cursor (q ''cursor'') of
        Inl m \<Rightarrow> Inl m
      | Inr afterID \<Rightarrow> Inr (afterID, limit)))"

definition report :: "(int64 \<Rightarrow> int \<Rightarrow> 'a list \<Rightarrow> outcome) \<Rightarrow> (int64 \<Rightarrow> int64 \<Rightarrow> int \<Rightarrow> 'a list prog) \<Rightarrow>
    unit request \<Rightarrow> (db \<times> 'r) http_prog" where
  "report ok svc r =
     with_principal r (\<lambda>principal w.
       case parseCursorLimit (rq_query r) of
         Inl m \<Rightarrow> (WriteError 400 m, w)
       | Inr (afterID, limit) \<Rightarrow>
           answer r [forbidden_case] (ok afterID limit) (on_db (svc (pr_UserID principal) afterID limit)) w)"

definition teamStatsHandler :: "env \<Rightarrow> 'r deps \<Rightarrow> unit request \<Rightarrow> (db \<times> 'r) http_prog" where
  "teamStatsHandler E D =
     report (\<lambda>_ limit stats. next_cursor ts_ID limit stats
         (\<lambda>cursor. WriteJSON (dp_encodes D) 200 (PTeamStats cursor stats))) (Analytics_TeamStats E)"

text \<open>The loop over the rows of \<open>topCreatorsHandler\<close>: how often the team changes, and the last team.\<close>

fun count_teams :: "TeamTopCreator list \<Rightarrow> int \<Rightarrow> int64 \<Rightarrow> int \<times> int64" where
  "count_teams [] n lastTeam = (n, lastTeam)"
| "count_teams (c # cs) n lastTeam =
     (if tp_TeamID c \<noteq> lastTeam then count_teams cs (n + 1) (tp_TeamID c) else count_teams cs n lastTeam)"

definition topCreatorsHandler :: "env \<Rightarrow> 'r deps \<Rightarrow> unit request \<Rightarrow> (db \<times> 'r) http_prog" where
  "topCreatorsHandler E D =
     report (\<lambda>_ limit creators.
         let (n, lastTeam) = count_teams creators 0 0
         in WriteJSON (dp_encodes D) 200 (PTopCreators (if n = limit then Some lastTeam else None) creators))
       (Analytics_TopCreators E)"

definition orphanAssigneesHandler :: "env \<Rightarrow> 'r deps \<Rightarrow> unit request \<Rightarrow> (db \<times> 'r) http_prog" where
  "orphanAssigneesHandler E D =
     report (\<lambda>_ limit orphans. next_cursor oa_TaskID limit orphans
         (\<lambda>cursor. WriteJSON (dp_encodes D) 200 (POrphans cursor orphans))) (Analytics_OrphanAssignees E)"

subsection \<open>Safety\<close>

lemma parseCursorLimit_Inr:
  "parseCursorLimit q = Inr (afterID, limit) \<Longrightarrow> 0 \<le> afterID \<and> 1 \<le> limit \<and> limit \<le> 100"
  by (auto simp: parseCursorLimit_def split: sum.splits dest!: parse_limit_Inr parse_cursor_Inr)

lemma report_safe:
  assumes "\<And>u a l. read_only (svc u a l)" and "\<And>a l xs. 1 \<le> l \<Longrightarrow> clean (ok a l xs)"
  shows "http_safe E (report ok svc r)"
proof -
  have "http_safe E (\<lambda>w. case p of (a, l) \<Rightarrow>
      answer r [forbidden_case] (ok a l) (on_db (svc u a l)) w)" if "parseCursorLimit (rq_query r) = Inr p" for p u
    using that parseCursorLimit_Inr [of "rq_query r" "fst p" "snd p"] assms
    by (cases p) (auto intro!: safe_answer svc_keeps_db keeps_ro svc_evolves_ro)
  then show ?thesis unfolding report_def by (intro safe_principal safe_parsed)
qed

lemma teamStatsHandler_safe [safe_intros]: "http_safe E (teamStatsHandler E D r)"
  unfolding teamStatsHandler_def
  by (intro report_safe Analytics_TeamStats_ro clean_next_cursor) simp_all

lemma topCreatorsHandler_safe [safe_intros]: "http_safe E (topCreatorsHandler E D r)"
  unfolding topCreatorsHandler_def
  by (intro report_safe Analytics_TopCreators_ro) (simp split: prod.splits)

lemma orphanAssigneesHandler_safe [safe_intros]: "http_safe E (orphanAssigneesHandler E D r)"
  unfolding orphanAssigneesHandler_def
  by (intro report_safe Analytics_OrphanAssignees_ro clean_next_cursor) simp_all

end
