(* ===== verification/Ratelimit.thy ===== *)
theory Ratelimit
  imports Domain
begin

text \<open>
  \<open>internal/infrastructure/ratelimit\<close>: the limiter in front of the API. The rate store
  (\<open>redis_rate\<close>) and \<open>net.ParseCIDR\<close> are parameters. The lemmas: a store that does not answer lets
  every request through, and a validated configuration loses none of its trusted networks.
\<close>

record RatelimitConfig =
  rl_TrustedCIDRs :: "string list"
  rl_Requests :: int
  rl_Window :: duration

definition RatelimitConfig_Validate :: "(string \<Rightarrow> gerr + 'net) \<Rightarrow> RatelimitConfig \<Rightarrow> gerr option" where
  "RatelimitConfig_Validate ParseCIDR c =
     (if rl_Requests c < 1 then Some (OtherErr ''requests must be positive'')
      else if rl_Window c \<le> 0 then Some (OtherErr ''window must be positive'')
      else List.find (\<lambda>_. True) (List.map_filter (\<lambda>cidr. case ParseCIDR cidr of
        Inl e \<Rightarrow> Some (Wrap ''invalid trusted cidr'' e) | Inr n \<Rightarrow> None) (rl_TrustedCIDRs c)))"

definition TrustedNets :: "(string \<Rightarrow> gerr + 'net) \<Rightarrow> RatelimitConfig \<Rightarrow> 'net list" where
  "TrustedNets ParseCIDR c =
     List.map_filter (\<lambda>cidr. case ParseCIDR cidr of Inl e \<Rightarrow> None | Inr n \<Rightarrow> Some n) (rl_TrustedCIDRs c)"

subsection \<open>The limiter\<close>

record Limit =
  li_Rate :: int
  li_Period :: duration
  li_Burst :: int

definition limiter_limit :: "RatelimitConfig \<Rightarrow> Limit" where
  "limiter_limit cfg = \<lparr>li_Rate = rl_Requests cfg, li_Period = rl_Window cfg, li_Burst = rl_Requests cfg\<rparr>"

text \<open>The store's answer to \<open>Allow\<close>: how many requests it admits (0 or 1) and when to come back.\<close>

type_synonym 's rate_store = "string \<Rightarrow> Limit \<Rightarrow> 's \<Rightarrow> (gerr + int \<times> duration) \<times> 's"

text \<open>The state carries the counter \<open>ratelimit_unavailable_total\<close> beside the store.\<close>

definition Limiter_Allow :: "'s rate_store \<Rightarrow> Limit \<Rightarrow> string \<Rightarrow> 's \<times> nat \<Rightarrow> (bool \<times> duration) \<times> 's \<times> nat" where
  "Limiter_Allow rl limit key sn =
     (case rl (''rate:'' @ key) limit (fst sn) of
        (Inl e, s') \<Rightarrow>
          if errors_is e Canceled \<or> errors_is e DeadlineExceeded then ((True, 0), s', snd sn)
          else ((True, 0), s', Suc (snd sn))
      | (Inr (allowed, retryAfter), s') \<Rightarrow>
          if allowed = 0 then ((False, retryAfter), s', snd sn) else ((True, 0), s', snd sn))"

subsection \<open>Lemmas\<close>

lemma Allow_refuses:
  "fst (fst (Limiter_Allow rl limit key sn)) = False \<longleftrightarrow>
     (\<exists>d s'. rl (''rate:'' @ key) limit (fst sn) = (Inr (0, d), s'))"
  by (cases "rl (''rate:'' @ key) limit (fst sn)") (auto simp: Limiter_Allow_def split: sum.splits prod.splits)

lemma map_filter_Nil: "List.map_filter f xs = [] \<longleftrightarrow> (\<forall>x \<in> set xs. f x = None)"
  by (induction xs) (auto split: option.splits)

lemma Validate_cidrs:
  "RatelimitConfig_Validate P c = None \<longleftrightarrow> 1 \<le> rl_Requests c \<and> 0 < rl_Window c \<and>
     (\<forall>x \<in> set (rl_TrustedCIDRs c). \<exists>n. P x = Inr n)"
proof -
  have "List.find (\<lambda>_. True) xs = None \<longleftrightarrow> xs = []" for xs :: "gerr list" by (cases xs) auto
  moreover have "(case P x of Inl e \<Rightarrow> Some (Wrap m e) | Inr n \<Rightarrow> None) = None \<longleftrightarrow> (\<exists>n. P x = Inr n)" for x m
    by (cases "P x") auto
  ultimately show ?thesis by (auto simp: RatelimitConfig_Validate_def map_filter_Nil)
qed

subsection \<open>Properties\<close>

text \<open>Rate limiting fails open and counts it: a request is refused only when the store itself says so,
  and then with the store's own waiting time; when the store cannot be asked the request passes,
  and the outage counter moves unless it was the caller who gave up.\<close>

theorem limiter_fails_open:
  "case rl (''rate:'' @ key) limit s of
     (Inl e, s') \<Rightarrow> Limiter_Allow rl limit key (s, n) =
       ((True, 0), s', if errors_is e Canceled \<or> errors_is e DeadlineExceeded then n else n + 1)
   | (Inr (allowed, d), s') \<Rightarrow>
       Limiter_Allow rl limit key (s, n) = ((allowed \<noteq> 0, if allowed = 0 then d else 0), s', n)"
  by (cases "rl (''rate:'' @ key) limit s") (auto simp: Limiter_Allow_def split: sum.splits prod.splits)

text \<open>A configuration that passed validation trusts exactly the networks it lists: \<open>TrustedNets\<close>, which
  skips what it cannot parse, then skips nothing.\<close>

theorem trusted_nets_complete:
  assumes "RatelimitConfig_Validate ParseCIDR c = None"
  shows "map Inr (TrustedNets ParseCIDR c) = map ParseCIDR (rl_TrustedCIDRs c)"
proof -
  have "map Inr (List.map_filter (\<lambda>x. case ParseCIDR x of Inl e \<Rightarrow> None | Inr n \<Rightarrow> Some n) xs) = map ParseCIDR xs"
    if "\<forall>x \<in> set xs. \<exists>n. ParseCIDR x = Inr n" for xs
    using that by (induction xs) auto
  with assms show ?thesis by (simp add: TrustedNets_def Validate_cidrs)
qed

theorem trusted_nets_complete_witness:
  "map Inr (TrustedNets (\<lambda>x. if x = ''10.0.0.0/8'' then Inr (1 :: nat) else Inl (OtherErr ''cidr''))
      \<lparr>rl_TrustedCIDRs = [''10.0.0.0/8''], rl_Requests = 100, rl_Window = 60\<rparr>) = [Inr 1 :: gerr + nat]"
  using trusted_nets_complete [of "\<lambda>x. if x = ''10.0.0.0/8'' then Inr (1 :: nat) else Inl (OtherErr ''cidr'')"
      "\<lparr>rl_TrustedCIDRs = [''10.0.0.0/8''], rl_Requests = 100, rl_Window = 60\<rparr>"]
  by (simp add: Validate_cidrs)

end
