(* ===== verification/Lifecycle.thy ===== *)
theory Lifecycle
  imports Domain
begin

text \<open>
  \<open>internal/infrastructure/lifecycle\<close> and \<open>internal/infrastructure/health\<close>, with the parts of
  \<open>internal/app.go\<close> that use them: start-up pings, the readiness state, and the two-phase shutdown.

  A function registered for shutdown is a value \<open>'f\<close>; running it concurrently with the others of its
  phase is its appearance in the trace of started functions. What the waiting loop of a phase sees is
  a sequence of events (a closer's result, or the phase's deadline).
\<close>

subsection \<open>Start-up\<close>

definition StarterConfig_Validate :: "duration \<Rightarrow> gerr option" where
  "StarterConfig_Validate timeout =
     (if timeout \<le> 0 then Some (OtherErr ''timeout must be positive'') else None)"

text \<open>\<open>errors.Join\<close>: nil when every error is nil, else one error that is each of the others.\<close>

fun errors_join :: "gerr option list \<Rightarrow> gerr option" where
  "errors_join [] = None"
| "errors_join (None # es) = errors_join es"
| "errors_join (Some e # es) = (case errors_join es of None \<Rightarrow> Some (Wrap [] e) | Some r \<Rightarrow> Some (Wrap2 e r))"

definition AddPing :: "'p list \<Rightarrow> 'p list \<Rightarrow> 'p list" where
  "AddPing p pings = pings @ p"

text \<open>Every ping runs, each writes its own slot: \<open>ping\<close> is what it answers.\<close>

definition Starter_Start :: "('p \<Rightarrow> gerr option) \<Rightarrow> 'p list \<Rightarrow> gerr option" where
  "Starter_Start ping pings = (if length pings = 0 then None else errors_join (map ping pings))"

subsection \<open>Health\<close>

definition HealthConfig_Validate :: "duration \<Rightarrow> gerr option" where
  "HealthConfig_Validate checkTimeout =
     (if checkTimeout \<le> 0 then Some (OtherErr ''check_timeout must be positive'') else None)"

definition stateStarting :: int where "stateStarting = 0"
definition stateReady :: int where "stateReady = 1"
definition stateShutdown :: int where "stateShutdown = 2"

lemmas health_state_defs = stateStarting_def stateReady_def stateShutdown_def

record 'w Health =
  he_checks :: "('w \<Rightarrow> gerr option \<times> 'w) list"
  he_state :: int

definition Health_New :: "'w Health" where
  "Health_New = \<lparr>he_checks = [], he_state = stateStarting\<rparr>"

definition AddCheck :: "('w \<Rightarrow> gerr option \<times> 'w) list \<Rightarrow> 'w Health \<Rightarrow> 'w Health" where
  "AddCheck c h = h\<lparr>he_checks := he_checks h @ c\<rparr>"

definition SetReady :: "'w Health \<Rightarrow> 'w Health" where
  "SetReady h = h\<lparr>he_state := stateReady\<rparr>"

definition SetShuttingDown :: "'w Health \<Rightarrow> 'w Health" where
  "SetShuttingDown h = h\<lparr>he_state := stateShutdown\<rparr>"

fun run_checks :: "('w \<Rightarrow> gerr option \<times> 'w) list \<Rightarrow> 'w \<Rightarrow> gerr option \<times> 'w" where
  "run_checks [] w = (None, w)"
| "run_checks (check # cs) w = (case check w of (Some e, w') \<Rightarrow> (Some e, w') | (None, w') \<Rightarrow> run_checks cs w')"

definition CheckReadiness :: "'w Health \<Rightarrow> 'w \<Rightarrow> gerr option \<times> 'w" where
  "CheckReadiness h w =
     (if he_state h = stateStarting then (Some ErrStarting, w)
      else if he_state h = stateShutdown then (Some ErrShuttingDown, w)
      else run_checks (he_checks h) w)"

subsection \<open>Shutdown\<close>

record CloserConfig =
  cc_Total :: duration
  cc_Phase :: duration

definition CloserConfig_Validate :: "CloserConfig \<Rightarrow> gerr option" where
  "CloserConfig_Validate c =
     (if cc_Total c \<le> 0 \<or> cc_Phase c \<le> 0 then Some (OtherErr ''timeouts must be positive'')
      else if cc_Phase c > cc_Total c div 2
      then Some (OtherErr ''phase timeout leaves no room for the second phase'')
      else None)"

datatype phase = Drain | Release

record 'f Closer =
  cz_close :: "'f list"
  cz_drain :: "'f list"
  cz_once :: bool

definition NewCloser :: "'f Closer" where
  "NewCloser = \<lparr>cz_close = [], cz_drain = [], cz_once = False\<rparr>"

definition AddClose :: "'f list \<Rightarrow> 'f Closer \<Rightarrow> 'f Closer" where
  "AddClose f c = c\<lparr>cz_close := cz_close c @ f\<rparr>"

definition AddDrain :: "'f list \<Rightarrow> 'f Closer \<Rightarrow> 'f Closer" where
  "AddDrain f c = c\<lparr>cz_drain := cz_drain c @ f\<rparr>"

text \<open>The waiting loop of \<open>runPhase\<close>: what it logged as an error, and how many closers it abandoned.\<close>

datatype phase_event = Returned "gerr option" | DeadlineHit

fun wait_phase :: "nat \<Rightarrow> phase_event list \<Rightarrow> gerr list \<times> nat" where
  "wait_phase 0 evs = ([], 0)"
| "wait_phase (Suc n) [] = ([], Suc n)"
| "wait_phase (Suc n) (DeadlineHit # evs) = ([], Suc n)"
| "wait_phase (Suc n) (Returned err # evs) =
     (let (errs, pending) = wait_phase n evs
      in (case err of None \<Rightarrow> errs | Some e \<Rightarrow> e # errs, pending))"

text \<open>\<open>ShutDown\<close>: the functions it starts, phase by phase; the second phase begins when the first returns.\<close>

definition run_phase :: "phase \<Rightarrow> 'f list \<Rightarrow> (phase \<times> 'f) list" where
  "run_phase name fs = (if length fs = 0 then [] else map (\<lambda>f. (name, f)) fs)"

definition Closer_ShutDown :: "'f Closer \<Rightarrow> (phase \<times> 'f) list \<times> 'f Closer" where
  "Closer_ShutDown c =
     (if cz_once c then ([], c)
      else (run_phase Drain (cz_drain c) @ run_phase Release (cz_close c),
            c\<lparr>cz_drain := [], cz_close := [], cz_once := True\<rparr>))"

text \<open>When the context of a phase that begins at \<open>now\<close> ends, in a shutdown begun at \<open>start\<close>.\<close>

definition phase_deadline :: "CloserConfig \<Rightarrow> int \<Rightarrow> int \<Rightarrow> int" where
  "phase_deadline cfg start now = min (now + cc_Phase cfg) (start + cc_Total cfg)"

subsection \<open>The application\<close>

datatype resource = MySQLClose | RedisClose | RelayDrain | ServerShutdown | ServerClose

text \<open>What \<open>NewApp\<close> registers, in order, and its early returns: no MySQL handle, failed pings. The ping of
  Redis answers nil whatever Redis says.\<close>

datatype pinged = PingMySQL | PingRedis

definition app_ping :: "gerr option \<Rightarrow> gerr option \<Rightarrow> pinged \<Rightarrow> gerr option" where
  "app_ping mysqlPing redisPing p = (case p of PingMySQL \<Rightarrow> mysqlPing | PingRedis \<Rightarrow> None)"

definition NewApp :: "gerr option \<Rightarrow> gerr option \<Rightarrow> gerr option \<Rightarrow> resource Closer \<Rightarrow>
    (gerr + unit Health) \<times> resource Closer" where
  "NewApp mysqlOpen mysqlPing redisPing c =
     (case mysqlOpen of
        Some e \<Rightarrow> (Inl (Wrap ''mysql'' e), c)
      | None \<Rightarrow>
          let c1 = AddClose [MySQLClose] c; c2 = AddClose [RedisClose] c1
          in case Starter_Start (app_ping mysqlPing redisPing) (AddPing [PingRedis] (AddPing [PingMySQL] [])) of
               Some e \<Rightarrow> (Inl (Wrap ''startup pings'' e), c2)
             | None \<Rightarrow>
                 (Inr (AddCheck [\<lambda>w. (mysqlPing, w)] Health_New),
                  AddClose [ServerClose] (AddDrain [ServerShutdown] (AddDrain [RelayDrain] c2))))"

text \<open>\<open>App.ShutDown\<close>: not ready first, then the closer.\<close>

definition App_ShutDown :: "'w Health \<Rightarrow> 'f Closer \<Rightarrow> 'w Health \<times> (phase \<times> 'f) list \<times> 'f Closer" where
  "App_ShutDown h c = (SetShuttingDown h, Closer_ShutDown c)"

subsection \<open>Sequences of operations on the closer\<close>

datatype 'f closer_op = OpAddClose "'f list" | OpAddDrain "'f list" | OpShutDown

fun closer_run :: "'f closer_op list \<Rightarrow> 'f Closer \<Rightarrow> (phase \<times> 'f) list" where
  "closer_run [] c = []"
| "closer_run (OpAddClose f # ops) c = closer_run ops (AddClose f c)"
| "closer_run (OpAddDrain f # ops) c = closer_run ops (AddDrain f c)"
| "closer_run (OpShutDown # ops) c = (let (started, c') = Closer_ShutDown c in started @ closer_run ops c')"

text \<open>The functions a list of operations registers for a phase.\<close>

fun registered :: "phase \<Rightarrow> 'f closer_op list \<Rightarrow> 'f list" where
  "registered p [] = []"
| "registered p (OpAddClose f # ops) = (if p = Release then f else []) @ registered p ops"
| "registered p (OpAddDrain f # ops) = (if p = Drain then f else []) @ registered p ops"
| "registered p (OpShutDown # ops) = registered p ops"

lemmas closer_defs = AddClose_def AddDrain_def Closer_ShutDown_def

lemma run_phase_map [simp]: "run_phase p fs = map (Pair p) fs"
  by (simp add: run_phase_def)

lemma closer_run_after: "cz_once c \<Longrightarrow> closer_run ops c = []"
  by (induction ops c rule: closer_run.induct) (auto simp: closer_defs)

lemma closer_run_before:
  "\<not> cz_once c \<Longrightarrow> OpShutDown \<in> set ops \<Longrightarrow> closer_run ops c =
     map (Pair Drain) (cz_drain c @ registered Drain (takeWhile (\<lambda>q. q \<noteq> OpShutDown) ops)) @
     map (Pair Release) (cz_close c @ registered Release (takeWhile (\<lambda>q. q \<noteq> OpShutDown) ops))"
  by (induction ops c rule: closer_run.induct) (auto simp: closer_defs closer_run_after)

lemma errors_join_is:
  "(\<exists>r. errors_join es = Some r \<and> (\<forall>t. (\<exists>e. Some e \<in> set es \<and> errors_is e t) \<longrightarrow> errors_is r t)) \<or>
   errors_join es = None \<and> set es \<subseteq> {None}"
  by (induction es rule: errors_join.induct) (fastforce split: option.splits)+

lemma Starter_Start_reports:
  assumes "p \<in> set pings" and "ping p = Some e"
  obtains r where "Starter_Start ping pings = Some r" and "errors_is e t \<Longrightarrow> errors_is r t"
proof -
  from assms have mem: "Some e \<in> set (map ping pings)" by (metis image_eqI list.set_map)
  with errors_join_is [of "map ping pings"] obtain r where
    "errors_join (map ping pings) = Some r" "errors_is e t \<longrightarrow> errors_is r t" by blast
  moreover from assms(1) have "pings \<noteq> []" by auto
  ultimately show thesis using that [of r] by (simp add: Starter_Start_def)
qed

lemma run_checks_pass:
  "fst (run_checks cs w) = None \<longleftrightarrow> (\<forall>i < length cs. fst ((cs ! i) (snd (run_checks (take i cs) w))) = None)"
proof (induction cs arbitrary: w)
  case (Cons check cs)
  obtain r w' where c: "check w = (r, w')" by fastforce
  show ?case
  proof (cases r)
    case None
    have step: "run_checks (take (Suc i) (check # cs)) w = run_checks (take i cs) w'" for i
      by (simp add: c None)
    show ?thesis
      unfolding length_Cons All_less_Suc2 nth_Cons_Suc step by (simp add: c None Cons.IH)
  next
    case (Some e)
    then show ?thesis unfolding length_Cons All_less_Suc2 by (simp add: c)
  qed
qed simp

subsection \<open>Properties\<close>

text \<open>C36. Shutdown runs once and in order. Whatever is registered and however often shutdown is asked for,
  the functions started are exactly those registered before the first request, each once, every
  drain before every release.\<close>

theorem shutdown_runs_once_in_order:
  "closer_run ops NewCloser =
     (if OpShutDown \<in> set ops
      then map (Pair Drain) (registered Drain (takeWhile (\<lambda>q. q \<noteq> OpShutDown) ops)) @
           map (Pair Release) (registered Release (takeWhile (\<lambda>q. q \<noteq> OpShutDown) ops))
      else [])"
proof (cases "OpShutDown \<in> set ops")
  case True
  then show ?thesis using closer_run_before [of NewCloser ops] by (simp add: NewCloser_def)
next
  case False
  then have "closer_run ops c = []" for c :: "'a Closer"
    by (induction ops c rule: closer_run.induct) auto
  with False show ?thesis by simp
qed

text \<open>With a validated configuration the release phase always gets its full time: however long the
  drain took, up to its own deadline, the total leaves a whole phase for the second one.\<close>

theorem release_phase_has_room:
  assumes "CloserConfig_Validate cfg = None" and "drained \<le> phase_deadline cfg start start"
  shows "phase_deadline cfg start drained = drained + cc_Phase cfg"
proof -
  from assms(1) have "2 * cc_Phase cfg \<le> cc_Total cfg"
    by (auto simp: CloserConfig_Validate_def split: if_splits)
  with assms(2) show ?thesis by (simp add: phase_deadline_def)
qed

theorem release_phase_has_room_witness:
  "phase_deadline \<lparr>cc_Total = 30, cc_Phase = 15\<rparr> 100 115 = 115 + 15"
  using release_phase_has_room [of "\<lparr>cc_Total = 30, cc_Phase = 15\<rparr>" 115 100]
  by (simp add: CloserConfig_Validate_def phase_deadline_def)

text \<open>The application starts exactly when MySQL is there: Redis may be down. When it starts, shutting it
  down turns readiness off and stops the relay and the server before any connection is released;
  when it does not, whatever was opened is still released.\<close>

theorem app_starts_and_stops:
  "case NewApp mysqlOpen mysqlPing redisPing NewCloser of
     (Inr h, c) \<Rightarrow> mysqlOpen = None \<and> mysqlPing = None \<and>
       fst (CheckReadiness h ()) = Some ErrStarting \<and> fst (CheckReadiness (SetReady h) ()) = None \<and>
       (case App_ShutDown (SetReady h) c of (h', started, _) \<Rightarrow>
         fst (CheckReadiness h' ()) = Some ErrShuttingDown \<and>
         started = [(Drain, RelayDrain), (Drain, ServerShutdown), (Release, MySQLClose),
                    (Release, RedisClose), (Release, ServerClose)])
   | (Inl e, c) \<Rightarrow> (mysqlOpen \<noteq> None \<or> mysqlPing \<noteq> None) \<and>
       fst (Closer_ShutDown c) = (if mysqlOpen = None then [(Release, MySQLClose), (Release, RedisClose)] else [])"
  by (cases mysqlOpen; cases mysqlPing)
    (simp_all add: NewApp_def NewCloser_def closer_defs Starter_Start_def AddPing_def app_ping_def AddCheck_def
      Health_New_def CheckReadiness_def SetReady_def App_ShutDown_def SetShuttingDown_def health_state_defs)

theorem app_starts_and_stops_witness:
  "case NewApp None (Some (OtherErr ''down'')) None NewCloser of (res, c) \<Rightarrow>
     isl res \<and> fst (Closer_ShutDown c) = [(Release, MySQLClose), (Release, RedisClose)]"
proof -
  obtain res c where n: "NewApp None (Some (OtherErr ''down'')) None NewCloser = (res, c)" by fastforce
  with app_starts_and_stops [of None "Some (OtherErr ''down'')" None] show ?thesis by (cases res) simp_all
qed

text \<open>A phase never waits for more results than it has closers and never hides one: when every closer
  returns before the deadline nothing is abandoned and every error is reported, and when the deadline
  comes after \<open>k\<close> results the rest is counted as abandoned.\<close>

theorem phase_waits_for_every_closer:
  "wait_phase (length results) (map Returned results @ evs) =
     (List.map_filter id results, 0) \<and>
   wait_phase (length results + n) (map Returned results @ DeadlineHit # evs) =
     (List.map_filter id results, n)"
proof (induction results)
  case Nil
  show ?case by (cases n) simp_all
next
  case (Cons r rs)
  then show ?case by (cases r) simp_all
qed

end
