(* ===== verification/Router.thy ===== *)
theory Router
  imports Scenario Sharding Accounts_Http Comments_Http Analytics_Http Ratelimit Lifecycle
begin

text \<open>
  \<open>internal/transport/http/middleware\<close>, \<open>router.go\<close> and \<open>health.go\<close>: the chain every request passes
  before its handler, and the table of routes. A middleware is a function on handlers, as in the
  source; \<open>api_call\<close> is a request that the router has matched to a route. Matching paths is the
  router library's work. \<open>net.SplitHostPort\<close>, \<open>net.ParseIP\<close> and \<open>IPNet.Contains\<close> are parameters.
\<close>

subsection \<open>Authentication\<close>

definition bearer :: "string \<Rightarrow> string option" where
  "bearer header = (if take 7 header = ''Bearer '' then Some (drop 7 header) else None)"

definition Auth :: "(string \<Rightarrow> gerr + Principal) \<Rightarrow> ('d request \<Rightarrow> 'w http_prog) \<Rightarrow> 'd request \<Rightarrow> 'w http_prog" where
  "Auth parse next r w =
     (case bearer (rq_Authorization r) of
        None \<Rightarrow> (WriteError 401 ''missing bearer token'', w)
      | Some raw \<Rightarrow>
          if raw = [] then (WriteError 401 ''missing bearer token'', w)
          else (case parse raw of
                  Inl e \<Rightarrow> (WriteError 401 ''invalid token'', w)
                | Inr p \<Rightarrow> next (r\<lparr>rq_principal := Some p\<rparr>) w))"

subsection \<open>Rate limiting\<close>

type_synonym 'w allow = "string \<Rightarrow> 'w \<Rightarrow> (bool \<times> duration) \<times> 'w"

text \<open>\<open>int(retryAfter.Seconds()) + 1\<close>: the whole seconds, cut towards zero.\<close>

definition retry_seconds :: "duration \<Rightarrow> int" where
  "retry_seconds d = (if d \<ge> 0 then d div 1000000000 else - (- d div 1000000000)) + 1"

definition rejectOrServe :: "'w allow \<Rightarrow> string \<Rightarrow> 'w http_prog \<Rightarrow> 'w http_prog" where
  "rejectOrServe allow key next w =
     (case allow key w of
        ((allowed, retryAfter), w') \<Rightarrow>
          if \<not> allowed
          then (Responded \<lparr>rs_status = 429, rs_RetryAfter = Some (FormatInt (retry_seconds retryAfter)),
                  rs_content = ErrorResponse ''rate limit exceeded''\<rparr>, w')
          else next w')"

definition RateLimit :: "'w allow \<Rightarrow> ('d request \<Rightarrow> 'w http_prog) \<Rightarrow> 'd request \<Rightarrow> 'w http_prog" where
  "RateLimit allow next r =
     with_principal r (\<lambda>principal. rejectOrServe allow (''user:'' @ FormatInt (pr_UserID principal)) (next r))"

record ('net, 'ip) netlib =
  nl_SplitHostPort :: "string \<Rightarrow> gerr + string"
  nl_ParseIP :: "string \<Rightarrow> 'ip option"
  nl_Contains :: "'net \<Rightarrow> 'ip \<Rightarrow> bool"

definition client_host :: "('net, 'ip) netlib \<Rightarrow> string \<Rightarrow> string" where
  "client_host N addr = (case nl_SplitHostPort N addr of Inl e \<Rightarrow> addr | Inr host \<Rightarrow> host)"

definition is_trusted :: "('net, 'ip) netlib \<Rightarrow> 'net list \<Rightarrow> string \<Rightarrow> bool" where
  "is_trusted N trusted host =
     (case nl_ParseIP N host of None \<Rightarrow> False | Some ip \<Rightarrow> list_ex (\<lambda>n. nl_Contains N n ip) trusted)"

definition RateLimitByIP :: "'w allow \<Rightarrow> ('net, 'ip) netlib \<Rightarrow> 'net list \<Rightarrow> ('d request \<Rightarrow> 'w http_prog) \<Rightarrow>
    'd request \<Rightarrow> 'w http_prog" where
  "RateLimitByIP allow N trusted next r =
     (let host = client_host N (rq_RemoteAddr r)
      in if is_trusted N trusted host then next r
         else rejectOrServe allow (''ip:'' @ host) (next r))"

subsection \<open>Observability\<close>

text \<open>\<open>recoverer\<close>: a panic becomes a bare 500.\<close>

definition recoverer :: "('d request \<Rightarrow> 'w http_prog) \<Rightarrow> 'd request \<Rightarrow> 'w http_prog" where
  "recoverer next r w =
     (case next r w of (Panicked, w') \<Rightarrow> (write_response 500 NoContent, w') | (out, w') \<Rightarrow> (out, w'))"

definition skipObservability :: "string list" where
  "skipObservability = [''/livez'', ''/readyz'', ''/metrics'']"

text \<open>The writer \<open>Metrics\<close> and \<open>Logging\<close> put around the client's: it remembers the status last set.\<close>

record statusWriter =
  sw_status :: nat
  sw_bytes :: int
  sw_headers :: "nat list" \<comment> \<open>what reached the wrapped writer\<close>

definition new_statusWriter :: statusWriter where
  "new_statusWriter = \<lparr>sw_status = 200, sw_bytes = 0, sw_headers = []\<rparr>"

definition WriteHeader :: "nat \<Rightarrow> statusWriter \<Rightarrow> statusWriter" where
  "WriteHeader status w = w\<lparr>sw_status := status, sw_headers := sw_headers w @ [status]\<rparr>"

text \<open>\<open>n\<close> is what the wrapped writer says it took.\<close>

definition Write :: "int \<Rightarrow> statusWriter \<Rightarrow> statusWriter" where
  "Write n w = w\<lparr>sw_bytes := sw_bytes w + n\<rparr>"

text \<open>\<open>taken\<close>: the bytes of a content that the client's connection takes.\<close>

definition sent :: "(content \<Rightarrow> int) \<Rightarrow> outcome \<Rightarrow> statusWriter \<Rightarrow> statusWriter" where
  "sent taken out w =
     (case out of Responded rs \<Rightarrow> Write (taken (rs_content rs)) (WriteHeader (rs_status rs) w) | Panicked \<Rightarrow> w)"

text \<open>The series the deferred function of \<open>Metrics\<close> increments, with their labels.\<close>

datatype series = RequestsTotal string string string | RequestErrors string string string

definition Metrics :: "(content \<Rightarrow> int) \<Rightarrow> string \<Rightarrow> string \<Rightarrow> string \<Rightarrow> outcome \<Rightarrow> series list" where
  "Metrics taken path method route out =
     (if path \<in> set skipObservability then []
      else let status = sw_status (sent taken out new_statusWriter)
           in [RequestsTotal method route (FormatInt (int status))] @
              (if status \<ge> 500 then [RequestErrors method route (FormatInt (int status))] else []))"

definition routePattern :: "string option \<Rightarrow> string" where
  "routePattern pattern = (case pattern of None \<Rightarrow> ''unmatched'' | Some p \<Rightarrow> if p = [] then ''unmatched'' else p)"

text \<open>The line the deferred function of \<open>Logging\<close> writes, but for the time the request took.\<close>

record log_line =
  ll_method :: string
  ll_path :: string
  ll_status :: nat
  ll_bytes :: int

definition Logging :: "(content \<Rightarrow> int) \<Rightarrow> string \<Rightarrow> string \<Rightarrow> outcome \<Rightarrow> log_line list" where
  "Logging taken path method out =
     (if path \<in> set skipObservability then []
      else let sw = sent taken out new_statusWriter
           in [\<lparr>ll_method = method, ll_path = path, ll_status = sw_status sw, ll_bytes = sw_bytes sw\<rparr>])"

text \<open>\<open>useObservability\<close>: the recoverer innermost, so that the other two see what it made of a panic.\<close>

definition useObservability :: "(content \<Rightarrow> int) \<Rightarrow> string \<Rightarrow> string \<Rightarrow> string \<Rightarrow> ('d request \<Rightarrow> 'w http_prog) \<Rightarrow>
    'd request \<Rightarrow> 'w \<Rightarrow> outcome \<times> series list \<times> log_line list \<times> 'w" where
  "useObservability taken path method route next r w =
     (let (out, w') = recoverer next r w
      in (out, Metrics taken path method route out, Logging taken path method out, w'))"

subsection \<open>Probes\<close>

definition livezHandler :: "'w http_prog" where
  "livezHandler w = (write_response 200 (PlainText ''ok''), w)"

definition readyzHandler :: "'w Health \<Rightarrow> 'w http_prog" where
  "readyzHandler h w =
     (case CheckReadiness h w of
        (None, w') \<Rightarrow> (write_response 200 (PlainText ''ok''), w')
      | (Some e, w') \<Rightarrow>
          if errors_is e ErrStarting then (WriteError 503 ''starting'', w')
          else if errors_is e ErrShuttingDown then (WriteError 503 ''shutting down'', w')
          else (WriteError 503 ''not ready'', w'))"

subsection \<open>Routes\<close>

datatype api_call =
    PostRegister "registerRequest request"
  | PostLogin "loginRequest request"
  | GetMe "unit request"
  | PostTeam "createTeamRequest request"
  | GetTeams "unit request"
  | PostInvite "inviteRequest request"
  | PostTask "createTaskRequest request"
  | GetTasks "unit request"
  | PutTask "updateTaskRequest request"
  | GetHistory "unit request"
  | PostComment "createCommentRequest request"
  | GetComments "unit request"
  | PutComment "updateCommentRequest request"
  | DeleteComment "unit request"
  | GetTeamStats "unit request"
  | GetTopCreators "unit request"
  | GetOrphans "unit request"

record ('s, 'net, 'ip) edge =
  ed_store :: "'s rate_store"
  ed_user :: Limit
  ed_ip :: Limit
  ed_net :: "('net, 'ip) netlib"
  ed_trusted :: "'net list"

text \<open>The state of the server: database and cache, and the rate store with its outage counter.\<close>

type_synonym ('r, 's) server = "(db \<times> 'r) \<times> ('s \<times> nat)"

definition on_app :: "(db \<times> 'r) http_prog \<Rightarrow> ('r, 's) server http_prog" where
  "on_app h w = (let (out, a) = h (fst w) in (out, a, snd w))"

definition limiter_allow :: "'s rate_store \<Rightarrow> Limit \<Rightarrow> ('r, 's) server allow" where
  "limiter_allow rl limit key w = (let (b, s') = Limiter_Allow rl limit key (snd w) in (b, fst w, s'))"

text \<open>The two groups of \<open>NewRouter\<close>.\<close>

definition public :: "('s, 'net, 'ip) edge \<Rightarrow> ('d request \<Rightarrow> (db \<times> 'r) http_prog) \<Rightarrow> 'd request \<Rightarrow>
    ('r, 's) server http_prog" where
  "public G h = recoverer (RateLimitByIP (limiter_allow (ed_store G) (ed_ip G)) (ed_net G) (ed_trusted G)
     (\<lambda>r. on_app (h r)))"

definition protected :: "'r deps \<Rightarrow> ('s, 'net, 'ip) edge \<Rightarrow> ('d request \<Rightarrow> (db \<times> 'r) http_prog) \<Rightarrow> 'd request \<Rightarrow>
    ('r, 's) server http_prog" where
  "protected D G h = recoverer (\<lambda>r. Auth (Parse (dp_jwt D) (dp_identity D) (rq_now r))
     (RateLimit (limiter_allow (ed_store G) (ed_user G)) (\<lambda>r. on_app (h r))) r)"

fun serve :: "env \<Rightarrow> 'r deps \<Rightarrow> ('s, 'net, 'ip) edge \<Rightarrow> api_call \<Rightarrow> ('r, 's) server http_prog" where
  "serve E D G (PostRegister r) = public G (registerHandler E D) r"
| "serve E D G (PostLogin r) = public G (loginHandler E D) r"
| "serve E D G (GetMe r) = protected D G (Me E D) r"
| "serve E D G (PostTeam r) = protected D G (teams_createHandler E D) r"
| "serve E D G (GetTeams r) = protected D G (teams_listHandler E D) r"
| "serve E D G (PostInvite r) = protected D G (inviteHandler E D) r"
| "serve E D G (PostTask r) = protected D G (tasks_createHandler E D) r"
| "serve E D G (GetTasks r) = protected D G (tasks_listHandler E D) r"
| "serve E D G (PutTask r) = protected D G (tasks_updateHandler E D) r"
| "serve E D G (GetHistory r) = protected D G (tasks_historyHandler E D) r"
| "serve E D G (PostComment r) = protected D G (comments_createHandler E D) r"
| "serve E D G (GetComments r) = protected D G (comments_listHandler E D) r"
| "serve E D G (PutComment r) = protected D G (comments_updateHandler E D) r"
| "serve E D G (DeleteComment r) = protected D G (comments_deleteHandler E D) r"
| "serve E D G (GetTeamStats r) = protected D G (teamStatsHandler E D) r"
| "serve E D G (GetTopCreators r) = protected D G (topCreatorsHandler E D) r"
| "serve E D G (GetOrphans r) = protected D G (orphanAssigneesHandler E D) r"

subsection \<open>The chain in front of a handler\<close>

lemma limiter_allow_app [simp]: "fst (snd (limiter_allow rl limit key w)) = fst w"
  by (simp add: limiter_allow_def split: prod.splits)

definition server_safe :: "env \<Rightarrow> ('r, 's) server http_prog \<Rightarrow> bool" where
  "server_safe E h \<longleftrightarrow> (\<forall>w. clean (fst (h w)) \<and> evolves (tbl (fst (fst w))) (tbl (fst (fst (snd (h w))))) \<and>
     (db_inv E (fst (fst w)) \<longrightarrow> db_inv E (fst (fst (snd (h w))))))"

lemma server_safe_on_app:
  fixes h :: "(db \<times> 'r) http_prog"
  assumes "http_safe E h"
  shows "server_safe E (on_app h :: ('r, 's) server http_prog)"
  unfolding server_safe_def
proof
  fix w :: "('r, 's) server"
  from assms have "clean (fst (h (fst w)))" "evolves (tbl (fst (fst w))) (tbl (fst (snd (h (fst w)))))"
    "db_inv E (fst (fst w)) \<Longrightarrow> db_inv E (fst (snd (h (fst w))))"
    unfolding http_safe_def by blast+
  then show "clean (fst (on_app h w)) \<and> evolves (tbl (fst (fst w))) (tbl (fst (fst (snd (on_app h w))))) \<and> (db_inv E (fst (fst w)) \<longrightarrow> db_inv E (fst (fst (snd (on_app h w)))))"
    by (cases "h (fst w)") (auto simp: on_app_def)
qed

lemma server_safe_reject:
  fixes next' :: "('r, 's) server http_prog"
  assumes "server_safe E next'"
  shows "server_safe E (rejectOrServe (limiter_allow rl limit) key next')"
  unfolding server_safe_def
proof
  fix w :: "('r, 's) server"
  obtain b d w' where a: "limiter_allow rl limit key w = ((b, d), w')" by (cases "limiter_allow rl limit key w") auto
  then have "fst w' = fst w" using limiter_allow_app [of rl limit key w] by simp
  moreover have "clean (fst (next' w'))" "evolves (tbl (fst (fst w'))) (tbl (fst (fst (snd (next' w')))))"
    "db_inv E (fst (fst w')) \<Longrightarrow> db_inv E (fst (fst (snd (next' w'))))"
    using assms unfolding server_safe_def by blast+
  ultimately show "clean (fst (rejectOrServe (limiter_allow rl limit) key next' w)) \<and>
      evolves (tbl (fst (fst w))) (tbl (fst (fst (snd (rejectOrServe (limiter_allow rl limit) key next' w))))) \<and>
      (db_inv E (fst (fst w)) \<longrightarrow> db_inv E (fst (fst (snd (rejectOrServe (limiter_allow rl limit) key next' w)))))"
    by (simp add: rejectOrServe_def a clean_def)
qed

lemma recoverer_clean [simp]: "clean (fst (next' r w)) \<Longrightarrow> recoverer next' r w = next' r w"
  by (cases "next' r w") (auto simp: recoverer_def clean_def split: outcome.splits)

lemma server_safe_recover: "server_safe E (next' r) \<Longrightarrow> server_safe E (recoverer next' r)"
  by (simp add: server_safe_def)

lemma server_safe_public:
  assumes "\<And>r. http_safe E (h r)"
  shows "server_safe E (public G h r)"
  unfolding public_def
  by (rule server_safe_recover)
    (auto simp: RateLimitByIP_def Let_def intro: server_safe_reject server_safe_on_app assms)

lemma server_safe_principal: "(\<And>p. server_safe E (k p)) \<Longrightarrow> server_safe E (with_principal r k)"
  by (simp add: server_safe_def with_principal_def split: option.splits)

lemma server_safe_Auth: "(\<And>r. server_safe E (next' r)) \<Longrightarrow> server_safe E (Auth parse next' r)"
  by (simp add: server_safe_def Auth_def split: option.splits sum.splits)

lemma server_safe_protected:
  assumes "\<And>r. http_safe E (h r)"
  shows "server_safe E (protected D G h r)"
  unfolding protected_def RateLimit_def
  by (rule server_safe_recover)
    (intro server_safe_Auth server_safe_principal server_safe_reject server_safe_on_app assms)

lemma serve_safe: "server_safe E (serve E D G call)"
  by (cases call) (simp_all add: server_safe_public server_safe_protected safe_intros)

text \<open>A handler behind the two protected layers, spelled out: what each of them decides.\<close>

lemma protected_rejects:
  fixes r :: "'d request" and D :: "'r deps" and w :: "('r, 's) server"
  assumes "\<nexists>raw p. bearer (rq_Authorization r) = Some raw \<and> raw \<noteq> [] \<and>
    Parse (dp_jwt D) (dp_identity D) (rq_now r) raw = Inr p"
  obtains m where "protected D G h r w = (WriteError 401 m, w)" and "m \<in> {''missing bearer token'', ''invalid token''}"
proof -
  have "\<exists>m \<in> {''missing bearer token'', ''invalid token''}.
      Auth (Parse (dp_jwt D) (dp_identity D) (rq_now r)) next' r w = (WriteError 401 m, w)"
    for next' :: "'d request \<Rightarrow> ('r, 's) server http_prog"
    using assms by (auto simp: Auth_def split: option.splits sum.splits)
  then obtain m where "m \<in> {''missing bearer token'', ''invalid token''}"
    "Auth (Parse (dp_jwt D) (dp_identity D) (rq_now r))
       (RateLimit (limiter_allow (ed_store G) (ed_user G)) (\<lambda>r. on_app (h r))) r w = (WriteError 401 m, w)"
    by blast
  then show thesis using that [of m] by (simp add: protected_def)
qed

lemma protected_accepts:
  assumes "bearer (rq_Authorization r) = Some raw" and "raw \<noteq> []"
    and "Parse (dp_jwt D) (dp_identity D) (rq_now r) raw = Inr p" and "\<And>r. http_safe E (h r)"
  shows "protected D G h r w =
    rejectOrServe (limiter_allow (ed_store G) (ed_user G)) (''user:'' @ FormatInt (pr_UserID p))
      (on_app (h (r\<lparr>rq_principal := Some p\<rparr>))) w"
proof -
  let ?chain = "rejectOrServe (limiter_allow (ed_store G) (ed_user G)) (''user:'' @ FormatInt (pr_UserID p))
      (on_app (h (r\<lparr>rq_principal := Some p\<rparr>)))"
  have "server_safe E ?chain" by (intro server_safe_reject server_safe_on_app assms(4))
  then have "clean (fst (?chain w))" unfolding server_safe_def by blast
  then show ?thesis
    by (simp add: protected_def Auth_def RateLimit_def with_principal_def assms(1-3))
qed

text \<open>The header and the time of a call to a protected route; none for the two public ones.\<close>

fun credentials :: "api_call \<Rightarrow> (string \<times> int) option" where
  "credentials (PostRegister r) = None"
| "credentials (PostLogin r) = None"
| "credentials (GetMe r) = Some (rq_Authorization r, rq_now r)"
| "credentials (PostTeam r) = Some (rq_Authorization r, rq_now r)"
| "credentials (GetTeams r) = Some (rq_Authorization r, rq_now r)"
| "credentials (PostInvite r) = Some (rq_Authorization r, rq_now r)"
| "credentials (PostTask r) = Some (rq_Authorization r, rq_now r)"
| "credentials (GetTasks r) = Some (rq_Authorization r, rq_now r)"
| "credentials (PutTask r) = Some (rq_Authorization r, rq_now r)"
| "credentials (GetHistory r) = Some (rq_Authorization r, rq_now r)"
| "credentials (PostComment r) = Some (rq_Authorization r, rq_now r)"
| "credentials (GetComments r) = Some (rq_Authorization r, rq_now r)"
| "credentials (PutComment r) = Some (rq_Authorization r, rq_now r)"
| "credentials (DeleteComment r) = Some (rq_Authorization r, rq_now r)"
| "credentials (GetTeamStats r) = Some (rq_Authorization r, rq_now r)"
| "credentials (GetTopCreators r) = Some (rq_Authorization r, rq_now r)"
| "credentials (GetOrphans r) = Some (rq_Authorization r, rq_now r)"

text \<open>The user a header identifies at a time.\<close>

definition token_user :: "'r deps \<Rightarrow> string \<times> int \<Rightarrow> Principal option" where
  "token_user D ht =
     (case bearer (fst ht) of
        None \<Rightarrow> None
      | Some raw \<Rightarrow> if raw = [] then None
          else (case Parse (dp_jwt D) (dp_identity D) (snd ht) raw of Inl e \<Rightarrow> None | Inr p \<Rightarrow> Some p))"

lemma protected_by_token:
  fixes w :: "('r, 's) server"
  assumes "\<And>r. http_safe E (h r)"
  shows "case token_user D (rq_Authorization r, rq_now r) of
      None \<Rightarrow> \<exists>m. protected D G h r w = (WriteError 401 m, w)
    | Some p \<Rightarrow> protected D G h r w =
        rejectOrServe (limiter_allow (ed_store G) (ed_user G)) (''user:'' @ FormatInt (pr_UserID p))
          (on_app (h (r\<lparr>rq_principal := Some p\<rparr>))) w"
proof (cases "token_user D (rq_Authorization r, rq_now r)")
  case None
  then have "\<nexists>raw p. bearer (rq_Authorization r) = Some raw \<and> raw \<noteq> [] \<and>
      Parse (dp_jwt D) (dp_identity D) (rq_now r) raw = Inr p"
    by (auto simp: token_user_def)
  from protected_rejects [OF this, of G h w] None show ?thesis by auto
next
  case (Some p)
  then obtain raw where "bearer (rq_Authorization r) = Some raw" "raw \<noteq> []"
    "Parse (dp_jwt D) (dp_identity D) (rq_now r) raw = Inr p"
    by (auto simp: token_user_def split: option.splits if_splits sum.splits)
  from protected_accepts [OF this assms] Some show ?thesis by simp
qed

text \<open>For every protected route at once: without a token a 401 and nothing else, with one a handler that acts
  as the token's user, behind that user's limit.\<close>

lemma protected_by_token':
  fixes w :: "('r, 's) server" and h :: "'d request \<Rightarrow> (db \<times> 'r) http_prog"
  assumes "\<And>r. http_safe E (h r)"
  shows "case token_user D (rq_Authorization r, rq_now r) of
      None \<Rightarrow> \<exists>m. protected D G h r w = (WriteError 401 m, w)
    | Some p \<Rightarrow> \<exists>h'. http_safe E h' \<and> protected D G h r w =
        rejectOrServe (limiter_allow (ed_store G) (ed_user G)) (''user:'' @ FormatInt (pr_UserID p)) (on_app h') w"
proof (cases "token_user D (rq_Authorization r, rq_now r)")
  case None
  with protected_by_token [where h = h and D = D and r = r and G = G and w = w, OF assms] show ?thesis by simp
next
  case (Some p)
  with protected_by_token [where h = h and D = D and r = r and G = G and w = w, OF assms]
    assms [of "r\<lparr>rq_principal := Some p\<rparr>"] show ?thesis by auto
qed

lemma serve_by_token:
  fixes w :: "('r, 's) server"
  assumes "credentials call = Some ht"
  shows "case token_user D ht of
      None \<Rightarrow> \<exists>m. serve E D G call w = (WriteError 401 m, w)
    | Some p \<Rightarrow> \<exists>h. http_safe E h \<and> serve E D G call w =
        rejectOrServe (limiter_allow (ed_store G) (ed_user G)) (''user:'' @ FormatInt (pr_UserID p)) (on_app h) w"
proof -
  have "credentials call = Some ht \<longrightarrow> ?thesis"
    by (cases call; hypsubst; simp only: credentials.simps serve.simps option.inject option.distinct simp_thms;
        intro impI; hypsubst; intro protected_by_token' safe_intros)
  with assms show ?thesis by blast
qed

subsection \<open>A concrete server\<close>

definition demo_deps :: "keys deps" where
  "demo_deps = \<lparr>dp_redis = map_redis, dp_codec = \<lparr>marshal = \<lambda>_. Inl (OtherErr ''off''), unmarshal = \<lambda>_. Inl (OtherErr ''off'')\<rparr>,
     dp_ttl = 1, dp_genpw = \<lambda>pw _. Inr pw, dp_cost = 10, dp_cmppw = (=), dp_jwt = demo_jwt,
     dp_identity = \<lparr>ic_Secret = demo_secret, ic_TTL = 60\<rparr>, dp_ozzo = demo_ozzo, dp_encodes = \<lambda>_. True\<rparr>"

definition demo_edge :: "int \<Rightarrow> (unit, unit, unit) edge" where
  "demo_edge allowed = \<lparr>ed_store = \<lambda>_ _ s. (Inr (allowed, 1500000000), s),
     ed_user = \<lparr>li_Rate = 1, li_Period = 1, li_Burst = 1\<rparr>, ed_ip = \<lparr>li_Rate = 1, li_Period = 1, li_Burst = 1\<rparr>,
     ed_net = \<lparr>nl_SplitHostPort = Inr, nl_ParseIP = \<lambda>_. None, nl_Contains = \<lambda>_ _. False\<rparr>, ed_trusted = []\<rparr>"

definition demo_request :: "string \<Rightarrow> unit request" where
  "demo_request header = \<lparr>rq_Authorization = header, rq_RemoteAddr = ''1.2.3.4'', rq_id = ''1'', rq_query = \<lambda>_. [],
     rq_body = BadJSON, rq_principal = None, rq_ctx_done = False, rq_now = 10\<rparr>"

lemma demo_token: "token_user demo_deps (''Bearer t'', 10) = Some \<lparr>pr_UserID = 42\<rparr>"
  by (simp add: token_user_def bearer_def demo_deps_def Parse_def demo_jwt_def token_key_def HS256_def
      claims_valid_def demo_claims_def ParseInt_def char_digit_def)

subsection \<open>Properties\<close>

text \<open>C8. No protected route does anything without a valid token: the answer is 401 and the database, the
  cache and the rate store are exactly as before.\<close>

theorem no_token_no_effect:
  assumes "credentials call = Some ht" and "token_user D ht = None"
  shows "\<exists>m. serve E D G call w = (WriteError 401 m, w)"
  using serve_by_token [OF assms(1), where D = D and E = E and G = G and w = w] assms(2) by simp

theorem no_token_no_effect_witness:
  "\<exists>m. serve demo_env demo_deps (demo_edge 1) (DeleteComment (demo_request ''Basic x'')) ((demo_db, \<lambda>_. None), ((), 0)) =
     (WriteError 401 m, ((demo_db, \<lambda>_. None), ((), 0)))"
  by (rule no_token_no_effect [of _ "(''Basic x'', 10)"]) (simp_all add: demo_request_def token_user_def bearer_def)







text \<open>C40. The readiness probe says 200 exactly when start-up is over, shutdown has not begun and every check
  passes; otherwise it says 503, and before start-up and during shutdown it does not touch the
  infrastructure at all.\<close>

theorem ready_iff_checks_pass:
  "(fst (readyzHandler h w) = write_response 200 (PlainText ''ok'') \<longleftrightarrow>
     he_state h \<notin> {stateStarting, stateShutdown} \<and>
     (\<forall>i \<in> {..<length (he_checks h)}. fst ((he_checks h ! i) (snd (run_checks (take i (he_checks h)) w))) = None)) \<and>
   (fst (readyzHandler h w) = write_response 200 (PlainText ''ok'') \<or>
     (\<exists>m. fst (readyzHandler h w) = WriteError 503 m)) \<and>
   (he_state h \<in> {stateStarting, stateShutdown} \<longrightarrow> snd (readyzHandler h w) = w)"
proof -
  have neq: "WriteError 503 m \<noteq> write_response 200 (PlainText ''ok'')" for m
    by (simp add: WriteError_def write_response_def)
  have all: "(\<forall>i \<in> {..<length (he_checks h)}. fst ((he_checks h ! i) (snd (run_checks (take i (he_checks h)) w))) = None) \<longleftrightarrow>
      fst (run_checks (he_checks h) w) = None"
    unfolding run_checks_pass by auto
  show ?thesis
  proof (cases "he_state h \<in> {stateStarting, stateShutdown}")
    case True
    then show ?thesis using neq by (auto simp: readyzHandler_def CheckReadiness_def health_state_defs)
  next
    case False
    obtain e w' where c: "run_checks (he_checks h) w = (e, w')" by fastforce
    with False have "CheckReadiness h w = (e, w')" by (simp add: CheckReadiness_def)
    with False c all neq show ?thesis by (cases e) (auto simp: readyzHandler_def)
  qed
qed

theorem ready_iff_checks_pass_witness:
  "let check = (\<lambda>n. (if n < (3 :: nat) then None else Some (OtherErr ''db down''), Suc n));
       h = SetReady (AddCheck [check] Health_New)
   in fst (readyzHandler h 0) = write_response 200 (PlainText ''ok'') \<and> (\<exists>m. fst (readyzHandler h 3) = WriteError 503 m) \<and>
      snd (readyzHandler (SetShuttingDown h) 3) = 3"
proof -
  let ?check = "\<lambda>n. (if n < (3 :: nat) then None else Some (OtherErr ''db down''), Suc n)"
  let ?h = "SetReady (AddCheck [?check] Health_New)"
  show ?thesis
    using ready_iff_checks_pass [of ?h 0] ready_iff_checks_pass [of ?h 3] ready_iff_checks_pass [of "SetShuttingDown ?h" 3]
    by (auto simp: Let_def SetReady_def SetShuttingDown_def AddCheck_def Health_New_def health_state_defs lessThan_Suc)
qed

end
