(* ===== verification/Relay.thy ===== *)
theory Relay
  imports Scenario Sharding
begin

text \<open>
  \<open>internal/infrastructure/outbox/relay.go\<close>: the relay that claims due emails, sends them in shards
  and settles the outcome in the same transaction.

  The shards run concurrently and share a context that any of them may cancel. What a shard sees
  of the world while it runs (whether the context is already done, what the dedup answers, what
  the sender returns, whether the cause is a paused sibling, a panic in any of these calls) is its
  record \<open>shard_obs\<close>; every theorem holds for every combination of observations, so for every
  interleaving. A panic is a value, \<open>Inl\<close> with its text. The text of an error (\<open>Error()\<close>) is the
  parameter \<open>etext\<close>. The counters are added in \<open>Relay_Metrics\<close>; log lines are left out.
\<close>

subsection \<open>Configuration and data\<close>

record OutboxConfig =
  oc_Tick :: duration
  oc_Budget :: duration
  oc_DedupTTL :: duration
  oc_Batch :: int
  oc_Workers :: int
  oc_MaxAttempts :: int

definition defaultPause :: duration where "defaultPause = 30 * Second"
definition settleGrace :: duration where "settleGrace = 5 * Second"
definition dedupGrace :: duration where "dedupGrace = Second"

definition SettleWindow :: "OutboxConfig \<Rightarrow> duration" where
  "SettleWindow c = wrap64 (wrap64 (oc_Budget c + dedupGrace) + settleGrace)"

type_synonym SendResult = "gerr option"

record retryItem =
  ri_reason :: string
  ri_claimed :: Claimed

record shardOutcome =
  so_sent :: "int64 list"
  so_retry :: "retryItem list"
  so_pause :: duration
  so_delivered :: nat
  so_paused :: bool

definition empty_outcome :: shardOutcome where
  "empty_outcome = \<lparr>so_sent = [], so_retry = [], so_pause = 0, so_delivered = 0, so_paused = False\<rparr>"

record settlement =
  st_sent :: "int64 list"
  st_reschedule :: "Retry list"
  st_fail :: "Failure list"
  st_pause :: duration
  st_delivered :: nat
  st_paused :: bool

definition empty_settlement :: settlement where
  "empty_settlement = \<lparr>st_sent = [], st_reschedule = [], st_fail = [], st_pause = 0,
     st_delivered = 0, st_paused = False\<rparr>"

subsection \<open>One shard\<close>

record shard_obs =
  ob_ctx_done :: bool \<comment> \<open>\<open>ctx.Err() != nil\<close> when the shard starts\<close>
  ob_was_sent :: "int64 \<Rightarrow> string + bool"
  ob_send :: "Message list \<Rightarrow> string + (gerr + SendResult list)"
  ob_cause_paused :: bool \<comment> \<open>\<open>context.Cause(ctx)\<close> is \<open>errPaused\<close> when the send has failed\<close>
  ob_mark :: "int64 \<Rightarrow> string option"

text \<open>The loop of dedup checks: the panic that ended it if one did, the ids to drop, the rest.\<close>

fun check_loop :: "shard_obs \<Rightarrow> Claimed list \<Rightarrow> int64 list \<Rightarrow> Claimed list \<Rightarrow>
    string option \<times> int64 list \<times> Claimed list" where
  "check_loop ob [] sent pending = (None, sent, pending)"
| "check_loop ob (c # cs) sent pending =
     (case ob_was_sent ob (cl_ID c) of
        Inl p \<Rightarrow> (Some p, sent, pending)
      | Inr True \<Rightarrow> check_loop ob cs (sent @ [cl_ID c]) pending
      | Inr False \<Rightarrow> check_loop ob cs sent (pending @ [c]))"

fun mark_loop :: "(gerr \<Rightarrow> string) \<Rightarrow> shard_obs \<Rightarrow> (Claimed \<times> SendResult) list \<Rightarrow> shardOutcome \<Rightarrow>
    string option \<times> shardOutcome" where
  "mark_loop etext ob [] out = (None, out)"
| "mark_loop etext ob ((c, res) # crs) out =
     (case res of
        Some e \<Rightarrow> mark_loop etext ob crs
          (out\<lparr>so_retry := so_retry out @ [\<lparr>ri_reason = etext e, ri_claimed = c\<rparr>]\<rparr>)
      | None \<Rightarrow>
          (case ob_mark ob (cl_ID c) of
             Some p \<Rightarrow> (Some p, out)
           | None \<Rightarrow> mark_loop etext ob crs
               (out\<lparr>so_delivered := so_delivered out + 1, so_sent := so_sent out @ [cl_ID c]\<rparr>)))"

text \<open>The deferred recovery: everything from index \<open>delivered\<close> of \<open>pending\<close> on is to be retried.\<close>

definition recover_shard :: "Claimed list \<Rightarrow> string \<Rightarrow> shardOutcome \<Rightarrow> shardOutcome" where
  "recover_shard pending p out =
     out\<lparr>so_retry := so_retry out @ map (\<lambda>c. \<lparr>ri_reason = ''relay panic: '' @ p, ri_claimed = c\<rparr>)
       (drop (so_delivered out) pending)\<rparr>"

definition send_failed :: "shard_obs \<Rightarrow> gerr \<Rightarrow> shardOutcome \<Rightarrow> shardOutcome" where
  "send_failed ob e out =
     (let out1 = (case errors_as_hint e of None \<Rightarrow> out | Some d \<Rightarrow> out\<lparr>so_pause := d\<rparr>)
      in if ob_cause_paused ob then out1\<lparr>so_paused := True\<rparr>
         else if errors_is e Canceled then out1
         else out1\<lparr>so_paused := True\<rparr>)"

text \<open>The outcome, and whether the shard cancelled its siblings.\<close>

definition processShard :: "(gerr \<Rightarrow> string) \<Rightarrow> shard_obs \<Rightarrow> Claimed list \<Rightarrow> shardOutcome \<times> bool" where
  "processShard etext ob shard =
     (if ob_ctx_done ob then (empty_outcome, False)
      else case check_loop ob shard [] [] of
        (Some p, sent, pending) \<Rightarrow> (recover_shard pending p (empty_outcome\<lparr>so_sent := sent\<rparr>), True)
      | (None, sent, pending) \<Rightarrow>
          (let out = empty_outcome\<lparr>so_sent := sent\<rparr>; msgs = map cl_Message pending
           in if msgs = [] then (out, False)
              else case ob_send ob msgs of
                Inl p \<Rightarrow> (recover_shard pending p out, True)
              | Inr (Inl e) \<Rightarrow> (send_failed ob e out, True)
              | Inr (Inr results) \<Rightarrow>
                  if length results \<noteq> length msgs then (out\<lparr>so_paused := True\<rparr>, True)
                  else (case mark_loop etext ob (zip pending results) out of
                          (Some p, out1) \<Rightarrow> (recover_shard pending p out1, True)
                        | (None, out1) \<Rightarrow> (out1, False))))"

subsection \<open>Collecting and settling\<close>

text \<open>The n-th call of \<open>backoff\<close> draws \<open>u n\<close>.\<close>

fun collect_retry :: "OutboxConfig \<Rightarrow> (real \<Rightarrow> real) \<Rightarrow> (nat \<Rightarrow> real) \<Rightarrow> retryItem list \<Rightarrow> settlement \<Rightarrow> settlement" where
  "collect_retry cfg fl u [] s = s"
| "collect_retry cfg fl u (it # its) s =
     (let attempts = cl_Attempts (ri_claimed it) + 1
      in if attempts \<ge> oc_MaxAttempts cfg
         then collect_retry cfg fl u its
           (s\<lparr>st_fail := st_fail s @ [\<lparr>fl_LastErr = ri_reason it, fl_ID = cl_ID (ri_claimed it)\<rparr>]\<rparr>)
         else collect_retry cfg fl u its
           (s\<lparr>st_reschedule := st_reschedule s @ [\<lparr>rt_LastErr = ri_reason it,
                rt_Delay = backoff fl (u (length (st_reschedule s))) attempts,
                rt_ID = cl_ID (ri_claimed it)\<rparr>]\<rparr>))"

fun collect :: "OutboxConfig \<Rightarrow> (real \<Rightarrow> real) \<Rightarrow> (nat \<Rightarrow> real) \<Rightarrow> shardOutcome list \<Rightarrow> settlement \<Rightarrow> settlement" where
  "collect cfg fl u [] s = s"
| "collect cfg fl u (o' # os) s =
     (let s1 = s\<lparr>st_sent := st_sent s @ so_sent o', st_delivered := st_delivered s + so_delivered o'\<rparr>;
          s2 = collect_retry cfg fl u (so_retry o') s1;
          s3 = (if so_paused o' then s2\<lparr>st_paused := True, st_pause := max (st_pause s2) (so_pause o')\<rparr> else s2)
      in collect cfg fl u os s3)"

definition shard_outcomes ::
  "(gerr \<Rightarrow> string) \<Rightarrow> (nat \<Rightarrow> shard_obs) \<Rightarrow> Claimed list list \<Rightarrow> shardOutcome list" where
  "shard_outcomes etext obs shards =
     map (\<lambda>(i, shard). fst (processShard etext (obs i) shard)) (zip [0..<length shards] shards)"

definition dispatch :: "OutboxConfig \<Rightarrow> (real \<Rightarrow> real) \<Rightarrow> (nat \<Rightarrow> real) \<Rightarrow> (gerr \<Rightarrow> string) \<Rightarrow>
    (nat \<Rightarrow> shard_obs) \<Rightarrow> Claimed list \<Rightarrow> settlement" where
  "dispatch cfg fl u etext obs claimed =
     collect cfg fl u (shard_outcomes etext obs (shardBy claimed (oc_Workers cfg))) empty_settlement"

definition settle :: "env \<Rightarrow> settlement \<Rightarrow> unit prog" where
  "settle E s =
     go_try (OutboxRepo_Delete E (st_sent s)) id
       (\<lambda>_. go_try (OutboxRepo_Reschedule E (st_reschedule s)) id
         (\<lambda>_. OutboxRepo_MarkFailed E (st_fail s)))"

text \<open>
  The closure of \<open>tick\<close>. It also assigns the variable \<open>s\<close> of \<open>tick\<close>, which keeps its value when the
  transaction fails: the first component.
\<close>

definition tick_body :: "env \<Rightarrow> OutboxConfig \<Rightarrow> (Claimed list \<Rightarrow> settlement) \<Rightarrow>
    db \<Rightarrow> settlement \<times> (gerr + unit) \<times> db" where
  "tick_body E cfg dsp s =
     (case OutboxRepo_Claim E (oc_Batch cfg) s of
        (Inl e, s1) \<Rightarrow> (empty_settlement, Inl e, s1)
      | (Inr claimed, s1) \<Rightarrow>
          if claimed = [] then (empty_settlement, Inr (), s1)
          else let st = dsp claimed in (st, settle E st s1))"

definition pause_until :: "int \<Rightarrow> duration \<Rightarrow> int" where
  "pause_until now hint = wrap64 (now + (if hint \<le> 0 then defaultPause else hint))"

text \<open>A tick at time \<open>now\<close> (the second reading of the clock is \<open>now2\<close>): paused state and database.\<close>

definition relay_tick :: "env \<Rightarrow> OutboxConfig \<Rightarrow> (Claimed list \<Rightarrow> settlement) \<Rightarrow> int \<Rightarrow> int \<Rightarrow>
    int \<times> db \<Rightarrow> (gerr + unit) \<times> int \<times> db" where
  "relay_tick E cfg dsp now now2 ps =
     (let (paused, s) = ps
      in if now < paused then (Inr (), paused, s)
         else let s1 = snd (OutboxRepo_OldestPendingAge E s);
                  st = (if fault E (stmt s1) = NoFault
                        then fst (tick_body E cfg dsp (s1\<lparr>stmt := Suc (stmt s1)\<rparr>)) else empty_settlement);
                  (r, s2) = tx_do E (\<lambda>s. snd (tick_body E cfg dsp s)) s1;
                  paused' = (if st_paused st then pause_until now2 (st_pause st) else paused)
              in (r, paused', s2))"

subsection \<open>Running and draining\<close>

text \<open>What the \<open>select\<close> of \<open>Run\<close> receives: the context is done, or the ticker fired, with the answer of
  \<open>ctx.Err() != nil\<close>. The result is the state and whether \<open>Run\<close> has returned and closed \<open>done\<close>.\<close>

datatype run_event = CtxDone | TickerFired bool

fun relay_run :: "(nat \<Rightarrow> 's \<Rightarrow> 's) \<Rightarrow> nat \<Rightarrow> run_event list \<Rightarrow> 's \<Rightarrow> 's \<times> bool" where
  "relay_run tick n [] s = (s, False)"
| "relay_run tick n (CtxDone # es) s = (s, True)"
| "relay_run tick n (TickerFired cancelled # es) s =
     (if cancelled then (s, True) else relay_run tick (Suc n) es (tick n s))"

text \<open>The results \<open>Drain\<close> may return when \<open>done\<close> is closed or not and its context has ended or not;
  none while it waits.\<close>

definition relay_drain :: "bool \<Rightarrow> gerr option \<Rightarrow> (gerr + unit) set" where
  "relay_drain doneClosed ctxErr =
     (if doneClosed then {Inr ()} else {}) \<union>
     (case ctxErr of None \<Rightarrow> {} | Some e \<Rightarrow> {Inl (Wrap ''outbox relay is still settling'' e)})"

end
