(* ===== verification/Relay_Settlement.thy ===== *)
theory Relay_Settlement
  imports Relay
begin

text \<open>
  What the relay does to the outbox, proved from the definitions of \<open>Relay\<close>: the outcome of a shard
  for every combination of observations, the settlement as one verdict per row (the abstract
  specification that the three statements of \<open>tick\<close> implement), attempts, and delivery by a healthy
  sender.
\<close>

subsection \<open>One shard: what its outcome says\<close>

lemma check_loop_split:
  "check_loop ob cs sent pending = (p, sent', pending') \<Longrightarrow>
     \<exists>n \<le> length cs. (p = None \<longrightarrow> n = length cs) \<and>
       sent' = sent @ map cl_ID (filter (\<lambda>c. ob_was_sent ob (cl_ID c) = Inr True) (take n cs)) \<and>
       pending' = pending @ filter (\<lambda>c. ob_was_sent ob (cl_ID c) = Inr False) (take n cs)"
proof (induction cs arbitrary: sent pending)
  case Nil
  then show ?case by simp
next
  case (Cons c cs)
  show ?case
  proof (cases "ob_was_sent ob (cl_ID c)")
    case (Inl q)
    with Cons.prems show ?thesis by (intro exI [of _ 0]) auto
  next
    case (Inr b)
    with Cons.prems have "check_loop ob cs (if b then sent @ [cl_ID c] else sent)
        (if b then pending else pending @ [c]) = (p, sent', pending')"
      by (cases b) simp_all
    from Cons.IH [OF this] obtain n where "n \<le> length cs" "p = None \<longrightarrow> n = length cs"
      "sent' = (if b then sent @ [cl_ID c] else sent) @
        map cl_ID (filter (\<lambda>c. ob_was_sent ob (cl_ID c) = Inr True) (take n cs))"
      "pending' = (if b then pending else pending @ [c]) @
        filter (\<lambda>c. ob_was_sent ob (cl_ID c) = Inr False) (take n cs)"
      by blast
    with Inr show ?thesis by (intro exI [of _ "Suc n"]) (cases b; simp)
  qed
qed

lemma check_loop_no_panic:
  assumes "\<And>c. c \<in> set cs \<Longrightarrow> \<exists>b. ob_was_sent ob (cl_ID c) = Inr b"
    and "check_loop ob cs sent pending = (p, sent', pending')"
  shows "p = None"
  using assms
proof (induction cs arbitrary: sent pending)
  case (Cons a cs)
  from Cons.prems(1) [of a] obtain b where "ob_was_sent ob (cl_ID a) = Inr b" by auto
  with Cons show ?case by (cases b) auto
qed simp

lemma mark_loop_split:
  "mark_loop etext ob crs out = (p, out') \<Longrightarrow>
     \<exists>n \<le> length crs. (p = None \<longrightarrow> n = length crs) \<and>
       so_sent out' = so_sent out @ map (\<lambda>cr. cl_ID (fst cr)) (filter (\<lambda>cr. snd cr = None) (take n crs)) \<and>
       so_retry out' = so_retry out @ map (\<lambda>cr. \<lparr>ri_reason = etext (the (snd cr)), ri_claimed = fst cr\<rparr>)
         (filter (\<lambda>cr. snd cr \<noteq> None) (take n crs)) \<and>
       so_delivered out' = so_delivered out + length (filter (\<lambda>cr. snd cr = None) (take n crs)) \<and>
       so_paused out' = so_paused out \<and> so_pause out' = so_pause out"
proof (induction crs arbitrary: out)
  case Nil
  then show ?case by simp
next
  case (Cons cr crs)
  obtain c res where cr: "cr = (c, res)" by fastforce
  let ?step = "if res = None
    then out\<lparr>so_delivered := so_delivered out + 1, so_sent := so_sent out @ [cl_ID c]\<rparr>
    else out\<lparr>so_retry := so_retry out @ [\<lparr>ri_reason = etext (the res), ri_claimed = c\<rparr>]\<rparr>"
  show ?case
  proof (cases "res = None \<and> ob_mark ob (cl_ID c) \<noteq> None")
    case True
    then obtain q where "res = None" "ob_mark ob (cl_ID c) = Some q" by blast
    with Cons.prems cr have "p = Some q" "out' = out" by simp_all
    then show ?thesis by (intro exI [of _ 0]) simp
  next
    case False
    with Cons.prems cr have "mark_loop etext ob crs ?step = (p, out')"
      by (auto split: option.splits)
    from Cons.IH [OF this] obtain n where n: "n \<le> length crs" "p = None \<longrightarrow> n = length crs"
      and *: "so_sent out' = so_sent ?step @ map (\<lambda>cr. cl_ID (fst cr)) (filter (\<lambda>cr. snd cr = None) (take n crs))"
        "so_retry out' = so_retry ?step @ map (\<lambda>cr. \<lparr>ri_reason = etext (the (snd cr)), ri_claimed = fst cr\<rparr>)
           (filter (\<lambda>cr. snd cr \<noteq> None) (take n crs))"
        "so_delivered out' = so_delivered ?step + length (filter (\<lambda>cr. snd cr = None) (take n crs))"
        "so_paused out' = so_paused ?step" "so_pause out' = so_pause ?step"
      by blast
    with cr show ?thesis by (intro exI [of _ "Suc n"]) (cases "res = None"; simp)
  qed
qed

text \<open>A message was accepted: the sender took the batch it was in and reported no error for it.\<close>

definition accepted :: "shard_obs \<Rightarrow> Claimed \<Rightarrow> bool" where
  "accepted ob c \<longleftrightarrow> (\<exists>batch results. ob_send ob (map cl_Message batch) = Inr (Inr results) \<and>
     (c, None) \<in> set (zip batch results))"

definition shard_sound :: "shard_obs \<Rightarrow> Claimed list \<Rightarrow> shardOutcome \<Rightarrow> bool" where
  "shard_sound ob shard out \<longleftrightarrow>
     (\<forall>i \<in> set (so_sent out). \<exists>c \<in> set shard. cl_ID c = i \<and>
        (ob_was_sent ob i = Inr True \<or> accepted ob c)) \<and>
     (\<forall>it \<in> set (so_retry out). ri_claimed it \<in> set shard)"

lemma recover_sound: "shard_sound ob shard out \<Longrightarrow> set pending \<subseteq> set shard \<Longrightarrow>
    shard_sound ob shard (recover_shard pending p out)"
  by (auto simp: shard_sound_def recover_shard_def dest!: in_set_dropD)

lemma processShard_sound: "shard_sound ob shard (fst (processShard etext ob shard))"
proof (cases "ob_ctx_done ob")
  case True
  then show ?thesis by (simp add: processShard_def shard_sound_def empty_outcome_def)
next
  case False
  obtain p sent pending where c: "check_loop ob shard [] [] = (p, sent, pending)"
    by (cases "check_loop ob shard [] []")
  from check_loop_split [OF c] obtain n where
    n: "sent = map cl_ID (filter (\<lambda>c. ob_was_sent ob (cl_ID c) = Inr True) (take n shard))"
      "pending = filter (\<lambda>c. ob_was_sent ob (cl_ID c) = Inr False) (take n shard)"
    by auto
  then have sent: "\<forall>i \<in> set sent. \<exists>c \<in> set shard. cl_ID c = i \<and> ob_was_sent ob i = Inr True"
    and sub: "set pending \<subseteq> set shard"
    using set_take_subset [of n shard] by fastforce+
  let ?out = "empty_outcome\<lparr>so_sent := sent\<rparr>"
  have out: "shard_sound ob shard ?out" using sent by (auto simp: shard_sound_def empty_outcome_def)
  have marks: "shard_sound ob shard out1"
    if s: "ob_send ob (map cl_Message pending) = Inr (Inr results)"
      and m: "mark_loop etext ob (zip pending results) ?out = (q, out1)" for results q out1
  proof -
    from mark_loop_split [OF m] obtain n where
      o1: "so_sent out1 = sent @ map (\<lambda>cr. cl_ID (fst cr)) (filter (\<lambda>cr. snd cr = None) (take n (zip pending results)))"
      "so_retry out1 = map (\<lambda>cr. \<lparr>ri_reason = etext (the (snd cr)), ri_claimed = fst cr\<rparr>)
         (filter (\<lambda>cr. snd cr \<noteq> None) (take n (zip pending results)))"
      by (auto simp: empty_outcome_def)
    have "accepted ob c \<and> c \<in> set shard" if "(c, None) \<in> set (take n (zip pending results))" for c
      using that s sub by (auto simp: accepted_def dest!: in_set_takeD dest: set_zip_leftD)
    moreover have "c \<in> set shard" if "(c, r) \<in> set (take n (zip pending results))" for c r
      using that sub by (auto dest!: in_set_takeD dest: set_zip_leftD)
    ultimately show ?thesis using sent unfolding shard_sound_def o1 by fastforce
  qed
  have failed: "shard_sound ob shard (send_failed ob e ?out)" for e
    using out by (simp add: shard_sound_def send_failed_def Let_def split: option.splits)
  have mismatch: "shard_sound ob shard (?out\<lparr>so_paused := True\<rparr>)"
    using out by (simp add: shard_sound_def)
  show ?thesis
    using False c out failed mismatch marks recover_sound [OF out sub] recover_sound [OF marks sub]
    by (auto simp: processShard_def Let_def split: option.splits sum.splits prod.splits)
qed

text \<open>A failed batch spends no attempt: nothing is retried, and only known deliveries are dropped.\<close>

lemma processShard_batch_failed:
  assumes "\<not> ob_ctx_done ob" and "\<And>c. c \<in> set shard \<Longrightarrow> \<exists>b. ob_was_sent ob (cl_ID c) = Inr b"
    and "\<And>msgs. \<exists>e. ob_send ob msgs = Inr (Inl e)"
  shows "so_retry (fst (processShard etext ob shard)) = []"
proof -
  obtain p sent pending where c: "check_loop ob shard [] [] = (p, sent, pending)"
    by (cases "check_loop ob shard [] []")
  have p: "p = None" using check_loop_no_panic [OF assms(2) c] .
  from assms(3) obtain e where "ob_send ob (map cl_Message pending) = Inr (Inl e)" by blast
  with assms(1) c p show ?thesis
    by (auto simp: processShard_def send_failed_def empty_outcome_def Let_def split: option.splits)
qed

subsection \<open>The settlement\<close>

definition exhausted :: "OutboxConfig \<Rightarrow> retryItem \<Rightarrow> bool" where
  "exhausted cfg it \<longleftrightarrow> oc_MaxAttempts cfg \<le> cl_Attempts (ri_claimed it) + 1"

definition failure_of :: "retryItem \<Rightarrow> Failure" where
  "failure_of it = \<lparr>fl_LastErr = ri_reason it, fl_ID = cl_ID (ri_claimed it)\<rparr>"

definition is_retry_of :: "(real \<Rightarrow> real) \<Rightarrow> (nat \<Rightarrow> real) \<Rightarrow> retryItem \<Rightarrow> Retry \<Rightarrow> bool" where
  "is_retry_of fl u it r \<longleftrightarrow> rt_ID r = cl_ID (ri_claimed it) \<and> rt_LastErr r = ri_reason it \<and>
     (\<exists>n. rt_Delay r = backoff fl (u n) (cl_Attempts (ri_claimed it) + 1))"

lemma collect_retry_result:
  "st_sent (collect_retry cfg fl u its s) = st_sent s \<and>
   st_fail (collect_retry cfg fl u its s) = st_fail s @ map failure_of (filter (exhausted cfg) its) \<and>
   (\<exists>rs. st_reschedule (collect_retry cfg fl u its s) = st_reschedule s @ rs \<and>
      list_all2 (is_retry_of fl u) (filter (\<lambda>it. \<not> exhausted cfg it) its) rs)"
proof (induction its arbitrary: s)
  case (Cons it its)
  show ?case
  proof (cases "exhausted cfg it")
    case True
    then have "collect_retry cfg fl u (it # its) s =
        collect_retry cfg fl u its (s\<lparr>st_fail := st_fail s @ [failure_of it]\<rparr>)"
      by (simp add: exhausted_def failure_of_def Let_def)
    with Cons [of "s\<lparr>st_fail := st_fail s @ [failure_of it]\<rparr>"] True show ?thesis by simp
  next
    case False
    let ?r = "\<lparr>rt_LastErr = ri_reason it,
      rt_Delay = backoff fl (u (length (st_reschedule s))) (cl_Attempts (ri_claimed it) + 1),
      rt_ID = cl_ID (ri_claimed it)\<rparr>"
    have r: "is_retry_of fl u it ?r" by (auto simp: is_retry_of_def)
    from False have step: "collect_retry cfg fl u (it # its) s =
        collect_retry cfg fl u its (s\<lparr>st_reschedule := st_reschedule s @ [?r]\<rparr>)"
      by (simp add: exhausted_def Let_def)
    from Cons [of "s\<lparr>st_reschedule := st_reschedule s @ [?r]\<rparr>"] obtain rs where
      "st_reschedule (collect_retry cfg fl u (it # its) s) = (st_reschedule s @ [?r]) @ rs"
      "list_all2 (is_retry_of fl u) (filter (\<lambda>it. \<not> exhausted cfg it) its) rs"
      unfolding step by auto
    with Cons [of "s\<lparr>st_reschedule := st_reschedule s @ [?r]\<rparr>"] False r show ?thesis
      unfolding step by (intro conjI exI [of _ "?r # rs"]) simp_all
  qed
qed simp

lemma collect_result:
  "st_sent (collect cfg fl u os s) = st_sent s @ concat (map so_sent os) \<and>
   st_fail (collect cfg fl u os s) = st_fail s @ map failure_of (filter (exhausted cfg) (concat (map so_retry os))) \<and>
   (\<exists>rs. st_reschedule (collect cfg fl u os s) = st_reschedule s @ rs \<and>
      list_all2 (is_retry_of fl u) (filter (\<lambda>it. \<not> exhausted cfg it) (concat (map so_retry os))) rs)"
proof (induction os arbitrary: s)
  case (Cons o' os)
  let ?s1 = "s\<lparr>st_sent := st_sent s @ so_sent o', st_delivered := st_delivered s + so_delivered o'\<rparr>"
  let ?s2 = "collect_retry cfg fl u (so_retry o') ?s1"
  let ?s3 = "if so_paused o' then ?s2\<lparr>st_paused := True, st_pause := max (st_pause ?s2) (so_pause o')\<rparr> else ?s2"
  from collect_retry_result [of cfg fl u "so_retry o'" ?s1] obtain rs where
    s2: "st_sent ?s3 = st_sent s @ so_sent o'"
      "st_fail ?s3 = st_fail s @ map failure_of (filter (exhausted cfg) (so_retry o'))"
      "st_reschedule ?s3 = st_reschedule s @ rs"
      "list_all2 (is_retry_of fl u) (filter (\<lambda>it. \<not> exhausted cfg it) (so_retry o')) rs"
    by auto
  have step: "collect cfg fl u (o' # os) s = collect cfg fl u os ?s3" by (simp add: Let_def)
  from Cons [of ?s3] obtain rs' where
    s': "st_sent (collect cfg fl u os ?s3) = st_sent ?s3 @ concat (map so_sent os)"
      "st_fail (collect cfg fl u os ?s3) =
         st_fail ?s3 @ map failure_of (filter (exhausted cfg) (concat (map so_retry os)))"
      "st_reschedule (collect cfg fl u os ?s3) = st_reschedule ?s3 @ rs'"
      "list_all2 (is_retry_of fl u) (filter (\<lambda>it. \<not> exhausted cfg it) (concat (map so_retry os))) rs'"
    by blast
  from s2(4) s'(4) have "list_all2 (is_retry_of fl u)
      (filter (\<lambda>it. \<not> exhausted cfg it) (concat (map so_retry (o' # os)))) (rs @ rs')"
    by (simp add: list_all2_appendI)
  then show ?case unfolding step s'(1-3) s2(1-3) by simp
qed simp

lemma shard_outcomes_index:
  "out \<in> set (shard_outcomes etext obs shards) \<Longrightarrow>
     \<exists>i shard. shard \<in> set shards \<and> out = fst (processShard etext (obs i) shard)"
  by (auto simp: shard_outcomes_def in_set_zip) (use nth_mem in blast)

text \<open>Whatever happens in whichever shard: only claimed rows are settled, a row counts as sent only
  when the dedup knew it or the sender accepted it, and a row is given up exactly at the limit.\<close>

definition settled_sound :: "OutboxConfig \<Rightarrow> (nat \<Rightarrow> shard_obs) \<Rightarrow> Claimed list \<Rightarrow> settlement \<Rightarrow> bool" where
  "settled_sound cfg obs claimed st \<longleftrightarrow>
     (\<forall>i \<in> set (st_sent st). \<exists>c \<in> set claimed. cl_ID c = i \<and>
        (\<exists>k. ob_was_sent (obs k) i = Inr True \<or> accepted (obs k) c)) \<and>
     (\<forall>r \<in> set (st_reschedule st). \<exists>c \<in> set claimed. cl_ID c = rt_ID r \<and>
        cl_Attempts c + 1 < oc_MaxAttempts cfg) \<and>
     (\<forall>f \<in> set (st_fail st). \<exists>c \<in> set claimed. cl_ID c = fl_ID f \<and>
        oc_MaxAttempts cfg \<le> cl_Attempts c + 1)"

lemma settled_ids:
  assumes "settled_sound cfg obs claimed st"
  shows "set (st_sent st) \<union> rt_ID ` set (st_reschedule st) \<union> fl_ID ` set (st_fail st) \<subseteq> cl_ID ` set claimed"
proof -
  have "i \<in> cl_ID ` set claimed" if "\<exists>c \<in> set claimed. cl_ID c = i \<and> Q" for i Q using that by blast
  with assms show ?thesis unfolding settled_sound_def by (auto simp: image_iff) metis+
qed

lemma dispatch_sound: "settled_sound cfg obs claimed (dispatch cfg fl u etext obs claimed)"
proof -
  let ?os = "shard_outcomes etext obs (shardBy claimed (oc_Workers cfg))"
  let ?st = "dispatch cfg fl u etext obs claimed"
  have outs: "\<exists>k. shard_sound (obs k) claimed out" if out: "out \<in> set ?os" for out
  proof -
    from shard_outcomes_index [OF out] obtain k shard where
      sh: "shard \<in> set (shardBy claimed (oc_Workers cfg))" "out = fst (processShard etext (obs k) shard)"
      by blast
    from sh(1) have "set shard \<subseteq> set (concat (shardBy claimed (oc_Workers cfg)))" by auto
    then have "set shard \<subseteq> set claimed" by (simp add: shardBy_concat)
    with processShard_sound [of "obs k" shard etext] sh(2) show ?thesis
      unfolding shard_sound_def by blast
  qed
  have its: "ri_claimed it \<in> set claimed" if "it \<in> set (concat (map so_retry ?os))" for it
    using that outs by (fastforce simp: shard_sound_def)
  from collect_result [of cfg fl u ?os empty_settlement] obtain rs where
    st: "st_sent ?st = concat (map so_sent ?os)"
      "st_fail ?st = map failure_of (filter (exhausted cfg) (concat (map so_retry ?os)))"
      "st_reschedule ?st = rs"
      "list_all2 (is_retry_of fl u) (filter (\<lambda>it. \<not> exhausted cfg it) (concat (map so_retry ?os))) rs"
    by (auto simp: dispatch_def empty_settlement_def)
  have "\<exists>it \<in> set (concat (map so_retry ?os)). \<not> exhausted cfg it \<and> is_retry_of fl u it r"
    if "r \<in> set (st_reschedule ?st)" for r
  proof -
    from that st(3) have "r \<in> set rs" by simp
    from list_all2_right_mem [OF st(4) this] show ?thesis unfolding set_filter by blast
  qed
  with its have "\<forall>r \<in> set (st_reschedule ?st). \<exists>c \<in> set claimed. cl_ID c = rt_ID r \<and>
        cl_Attempts c + 1 < oc_MaxAttempts cfg"
    by (fastforce simp: exhausted_def is_retry_of_def)
  moreover have "\<forall>f \<in> set (st_fail ?st). \<exists>c \<in> set claimed. cl_ID c = fl_ID f \<and>
        oc_MaxAttempts cfg \<le> cl_Attempts c + 1"
    using its by (auto simp: st(2) exhausted_def failure_of_def)
  moreover have "\<forall>i \<in> set (st_sent ?st). \<exists>c \<in> set claimed. cl_ID c = i \<and>
        (\<exists>k. ob_was_sent (obs k) i = Inr True \<or> accepted (obs k) c)"
  proof
    fix i assume "i \<in> set (st_sent ?st)"
    then obtain out where "out \<in> set ?os" "i \<in> set (so_sent out)" by (auto simp: st(1))
    with outs [of out] show "\<exists>c \<in> set claimed. cl_ID c = i \<and>
        (\<exists>k. ob_was_sent (obs k) i = Inr True \<or> accepted (obs k) c)"
      by (fastforce simp: shard_sound_def)
  qed
  ultimately show ?thesis by (simp add: settled_sound_def)
qed

subsection \<open>What a settlement does to the table\<close>

text \<open>The specification: a verdict per row, applied row by row.\<close>

datatype verdict = Untouched | Gone | Again Retry | Dead Failure

definition verdict_of :: "settlement \<Rightarrow> int64 \<Rightarrow> verdict" where
  "verdict_of st i =
     (if i \<in> set (st_sent st) then Gone
      else case find (\<lambda>r. rt_ID r = i) (st_reschedule st) of
        Some r \<Rightarrow> Again r
      | None \<Rightarrow> (case find (\<lambda>f. fl_ID f = i) (st_fail st) of Some f \<Rightarrow> Dead f | None \<Rightarrow> Untouched))"

fun settle_row :: "int \<Rightarrow> verdict \<Rightarrow> outbox_row \<Rightarrow> outbox_row option" where
  "settle_row now Untouched r = Some r"
| "settle_row now Gone r = None"
| "settle_row now (Again it) r = Some (r\<lparr>o_status := status_pending, o_attempts := o_attempts r + 1,
     o_next_retry_at := Some (datetime3_round (now3 now + Microseconds (rt_Delay it))),
     o_last_error := Some (truncateUTF8 (rt_LastErr it) maxErrLen)\<rparr>)"
| "settle_row now (Dead f) r = Some (r\<lparr>o_status := status_failed, o_attempts := o_attempts r + 1,
     o_last_error := Some (truncateUTF8 (fl_LastErr f) maxErrLen)\<rparr>)"

definition settle_rows :: "int \<Rightarrow> settlement \<Rightarrow> outbox_row list \<Rightarrow> outbox_row list" where
  "settle_rows now st rs = List.map_filter (\<lambda>r. settle_row now (verdict_of st (o_id r)) r) rs"

lemma reschedule_row_id [simp]: "o_id (reschedule_row rs now r) = o_id r"
  by (simp add: reschedule_row_def split: option.splits)

lemma settle_rows_eq:
  assumes disj: "\<And>a b. a \<in> set (st_reschedule st) \<Longrightarrow> b \<in> set (st_fail st) \<Longrightarrow> rt_ID a \<noteq> fl_ID b"
  shows "map (mark_failed_row (st_fail st)) (map (reschedule_row (st_reschedule st) now)
      (filter (\<lambda>r. o_id r \<notin> set (st_sent st)) rows)) = settle_rows now st rows"
proof (induction rows)
  case Nil
  then show ?case by (simp add: settle_rows_def map_filter_def)
next
  case (Cons r rows)
  have "mark_failed_row (st_fail st) (reschedule_row (st_reschedule st) now r) =
      the (settle_row now (verdict_of st (o_id r)) r) \<and> settle_row now (verdict_of st (o_id r)) r \<noteq> None"
    if "o_id r \<notin> set (st_sent st)"
  proof (cases "find (\<lambda>x. rt_ID x = o_id r) (st_reschedule st)")
    case None
    with that show ?thesis
      by (auto simp: verdict_of_def reschedule_row_def mark_failed_row_def split: option.splits)
  next
    case (Some a)
    then have "a \<in> set (st_reschedule st)" "rt_ID a = o_id r" by (auto dest: find_Some_iff_mem)
    then have "fl_ID f \<noteq> o_id r" if "f \<in> set (st_fail st)" for f using disj [OF _ that, of a] by simp
    then have "find (\<lambda>f. fl_ID f = o_id r) (st_fail st) = None" by (auto simp: find_None_iff)
    with Some that show ?thesis
      by (simp add: verdict_of_def reschedule_row_def mark_failed_row_def)
  qed
  moreover have "settle_row now (verdict_of st (o_id r)) r = None" if "o_id r \<in> set (st_sent st)"
    using that by (simp add: verdict_of_def)
  ultimately show ?case using Cons by (auto simp: settle_rows_def map_filter_def)
qed

lemma settle_Inr:
  assumes "settle E st s = (Inr u, s')"
    and "\<And>a b. a \<in> set (st_reschedule st) \<Longrightarrow> b \<in> set (st_fail st) \<Longrightarrow> rt_ID a \<noteq> fl_ID b"
  obtains now where "cnt s' = cnt s"
    and "tbl s' = (tbl s)\<lparr>email_outbox := settle_rows now st (email_outbox (tbl s))\<rparr>"
proof -
  from assms(1) obtain s1 s2 where d: "OutboxRepo_Delete E (st_sent st) s = (Inr (), s1)"
    and r: "OutboxRepo_Reschedule E (st_reschedule st) s1 = (Inr (), s2)"
    and f: "OutboxRepo_MarkFailed E (st_fail st) s2 = (Inr u, s')"
    by (auto simp: settle_def go_try_Inr)
  from r obtain now where "cnt s2 = cnt s1" "tbl s2 = (tbl s1)\<lparr>email_outbox :=
        map (reschedule_row (st_reschedule st) now) (email_outbox (tbl s1))\<rparr>"
    by (rule OutboxRepo_Reschedule_Inr)
  with OutboxRepo_Delete_Inr [OF d] OutboxRepo_MarkFailed_Inr [OF f] settle_rows_eq [where st = st and now = now, OF assms(2)]
  show ?thesis by (intro that [of now]) (simp_all del: map_map)
qed

lemma settle_row_fields:
  "settle_row now v r = Some r' \<Longrightarrow> o_id r' = o_id r \<and> o_recipient r' = o_recipient r \<and>
     o_subject r' = o_subject r \<and> o_body r' = o_body r \<and> o_created_at r' = o_created_at r"
  by (cases v) auto

lemma settle_rows_tab:
  assumes "tab_ok o_id n rows"
  shows "tab_ok o_id n (settle_rows now st rows)"
proof -
  let ?f = "\<lambda>r. settle_row now (verdict_of st (o_id r)) r"
  have "o_id (the (?f r)) = o_id r" if "?f r \<noteq> None" for r
    using that settle_row_fields [of now "verdict_of st (o_id r)" r] by auto
  then have "map o_id (settle_rows now st rows) = map o_id (filter (\<lambda>r. ?f r \<noteq> None) rows)"
    by (simp add: settle_rows_def map_filter_def)
  from tab_ok_cong [OF this] tab_ok_filter [OF assms] show ?thesis by blast
qed

lemma settle_rows_mem:
  assumes "r' \<in> set (settle_rows now st rows)"
  obtains r where "r \<in> set rows" and "settle_row now (verdict_of st (o_id r)) r = Some r'"
  using assms by (auto simp: settle_rows_def map_filter_def)

lemma inv_settle_rows:
  assumes "inv E T N"
  shows "inv E (T\<lparr>email_outbox := settle_rows now st (email_outbox T)\<rparr>) N"
proof -
  from assms have ob: "outbox_ok T N" by (simp add: inv_def)
  have row: "o_status r' \<in> {status_pending, status_failed} \<and> 0 \<le> o_attempts r'"
    if "r' \<in> set (settle_rows now st (email_outbox T))" for r'
    using that
  proof (rule settle_rows_mem)
    fix r assume r: "r \<in> set (email_outbox T)" and s: "settle_row now (verdict_of st (o_id r)) r = Some r'"
    have "o_status r \<in> {status_pending, status_failed} \<and> 0 \<le> o_attempts r" using ob r by (simp add: outbox_ok_def)
    with s show ?thesis by (cases "verdict_of st (o_id r)") auto
  qed
  have "outbox_ok (T\<lparr>email_outbox := settle_rows now st (email_outbox T)\<rparr>) N"
    using ob row settle_rows_tab [of "n_outbox N" "email_outbox T" now st] by (simp add: outbox_ok_def)
  with assms show ?thesis
    unfolding inv_def users_ok_def teams_ok_def members_ok_def tasks_ok_def history_ok_def audit_ok_def
      comments_ok_def task_ok_def by simp
qed

subsection \<open>The tick\<close>

lemma tick_body_prog:
  "(\<lambda>s. snd (tick_body E cfg dsp s)) =
     go_try (OutboxRepo_Claim E (oc_Batch cfg)) id
       (\<lambda>claimed. if claimed = [] then ret () else settle E (dsp claimed))"
  by (auto simp: fun_eq_iff tick_body_def go_try_def ret_def Let_def split: prod.splits sum.splits)

lemma settle_grows [grow_intros]: "cnt_grows (settle E st)"
  unfolding settle_def by (intro grow_intros)

lemma tick_body_grows: "cnt_grows (\<lambda>s. snd (tick_body E cfg dsp s))"
  unfolding tick_body_prog by (intro grow_intros ro_intros)

lemma settle_rows_empty [simp]: "settle_rows now empty_settlement rows = rows"
  by (simp add: settle_rows_def map_filter_def verdict_of_def empty_settlement_def)

lemma empty_sound: "settled_sound cfg obs claimed empty_settlement"
  by (simp add: settled_sound_def empty_settlement_def)

lemma sel_claim_rows:
  assumes "inv E T N"
  shows "set (sel_claim held batch now T) \<subseteq> {r \<in> set (email_outbox T). due now r}"
    and "distinct (map cl_ID (map scan_claimed (sel_claim held batch now T)))"
proof -
  from assms have t: "tab_ok o_id (n_outbox N) (email_outbox T)" by (simp add: inv_def outbox_ok_def)
  show "set (sel_claim held batch now T) \<subseteq> {r \<in> set (email_outbox T). due now r}"
    by (auto simp: sel_claim_def dest!: in_set_takeD)
  have "sel_claim held batch now T = take (nat batch) (filter (\<lambda>r. due now r \<and> \<not> held (o_id r)) (email_outbox T))"
    unfolding sel_claim_def tab_ok_sorted [OF t] ..
  moreover have "distinct (map o_id (filter (\<lambda>r. due now r \<and> \<not> held (o_id r)) (email_outbox T)))"
    by (rule tab_ok_distinct [OF tab_ok_filter [OF t]])
  ultimately show "distinct (map cl_ID (map scan_claimed (sel_claim held batch now T)))"
    by (simp add: scan_claimed_def comp_def take_map flip: take_map)
qed

lemma settled_disjoint:
  assumes "settled_sound cfg obs claimed st" and "distinct (map cl_ID claimed)"
    and "a \<in> set (st_reschedule st)" and "b \<in> set (st_fail st)"
  shows "rt_ID a \<noteq> fl_ID b"
proof
  assume eq: "rt_ID a = fl_ID b"
  from assms(1,3) obtain c where c: "c \<in> set claimed" "cl_ID c = rt_ID a" "cl_Attempts c + 1 < oc_MaxAttempts cfg"
    by (auto simp: settled_sound_def)
  from assms(1,4) obtain d where d: "d \<in> set claimed" "cl_ID d = fl_ID b" "oc_MaxAttempts cfg \<le> cl_Attempts d + 1"
    by (auto simp: settled_sound_def)
  have "c = d" using distinct_keys_eq [OF assms(2) c(1) d(1)] c(2) d(2) eq by simp
  with c(3) d(3) show False by simp
qed

lemma tick_body_Inr:
  assumes I: "db_inv E s"
    and b: "snd (tick_body E cfg (dispatch cfg fl u etext obs) s) = (Inr v, s')"
  obtains now held clk st where "cnt s' = cnt s"
    and "tbl s' = (tbl s)\<lparr>email_outbox := settle_rows now st (email_outbox (tbl s))\<rparr>"
    and "settled_sound cfg obs (map scan_claimed (sel_claim held (oc_Batch cfg) clk (tbl s))) st"
    and "st = dispatch cfg fl u etext obs (map scan_claimed (sel_claim held (oc_Batch cfg) clk (tbl s))) \<or>
      sel_claim held (oc_Batch cfg) clk (tbl s) = [] \<and> st = empty_settlement"
    and "held = locked E (stmt s)" and "clk = clock E (stmt s)"
proof -
  let ?held = "locked E (stmt s)" and ?clk = "clock E (stmt s)"
  let ?rows = "sel_claim ?held (oc_Batch cfg) ?clk (tbl s)"
  let ?claimed = "map scan_claimed ?rows"
  from b have "go_try (OutboxRepo_Claim E (oc_Batch cfg)) id
       (\<lambda>claimed. if claimed = [] then ret () else settle E (dispatch cfg fl u etext obs claimed)) s = (Inr v, s')"
    using fun_cong [OF tick_body_prog, of E cfg "dispatch cfg fl u etext obs" s] by simp
  then obtain cs s1 where c: "OutboxRepo_Claim E (oc_Batch cfg) s = (Inr cs, s1)"
    and k: "(if cs = [] then ret () else settle E (dispatch cfg fl u etext obs cs)) s1 = (Inr v, s')"
    by (auto simp: go_try_Inr)
  from OutboxRepo_Claim_Inr [OF c] have s1: "tbl s1 = tbl s" "cnt s1 = cnt s" and cs: "cs = ?claimed" by simp_all
  note dist = sel_claim_rows(2) [OF I, of ?held "oc_Batch cfg" ?clk]
  show ?thesis
  proof (cases "cs = []")
    case True
    with k have "s' = s1" by (simp add: ret_def)
    with True cs s1 show ?thesis
      by (intro that [of 0 empty_settlement ?held ?clk]) (simp_all add: empty_sound)
  next
    case False
    let ?st = "dispatch cfg fl u etext obs ?claimed"
    from False k cs have "settle E ?st s1 = (Inr v, s')" by simp
    then obtain now where "cnt s' = cnt s1"
      "tbl s' = (tbl s1)\<lparr>email_outbox := settle_rows now ?st (email_outbox (tbl s1))\<rparr>"
      using settled_disjoint [OF dispatch_sound dist] by (rule settle_Inr)
    with s1 show ?thesis
      by (intro that [of now ?st ?held ?clk]) (simp_all add: dispatch_sound)
  qed
qed

lemma relay_tick_inv:
  assumes I: "db_inv E s"
  shows "db_inv E (snd (snd (relay_tick E cfg (dispatch cfg fl u etext obs) now now2 (paused, s))))"
proof -
  let ?dsp = "dispatch cfg fl u etext obs"
  let ?s1 = "snd (OutboxRepo_OldestPendingAge E s)"
  have s1: "db_inv E ?s1"
    using I OutboxRepo_OldestPendingAge_ro [of E] by (simp add: read_only_def)
  have "db_inv E (snd (tx_do E (\<lambda>s. snd (tick_body E cfg ?dsp s)) ?s1))"
  proof (rule tx_inv_at [OF tick_body_grows s1])
    fix v s' assume b: "snd (tick_body E cfg ?dsp (?s1\<lparr>stmt := Suc (stmt ?s1)\<rparr>)) = (Inr v, s')"
    have "db_inv E (?s1\<lparr>stmt := Suc (stmt ?s1)\<rparr>)" using s1 by simp
    from this b show "db_inv E s'"
      by (rule tick_body_Inr) (use s1 in \<open>simp add: inv_settle_rows\<close>)
  qed
  then show ?thesis using I by (auto simp: relay_tick_def Let_def split: prod.splits)
qed

text \<open>Atomicity of a tick: the table is left alone or settled as a whole.\<close>

lemma relay_tick_effect:
  assumes I: "db_inv E s"
    and t: "relay_tick E cfg (dispatch cfg fl u etext obs) now now2 (paused, s) = (r, paused', s')"
  shows "tbl s' = tbl s \<or> (\<exists>clk2 held clk st.
    tbl s' = (tbl s)\<lparr>email_outbox := settle_rows clk2 st (email_outbox (tbl s))\<rparr> \<and>
    settled_sound cfg obs (map scan_claimed (sel_claim held (oc_Batch cfg) clk (tbl s))) st)"
proof (cases "now < paused")
  case True
  with t show ?thesis by (simp add: relay_tick_def)
next
  case False
  let ?dsp = "dispatch cfg fl u etext obs"
  let ?s1 = "snd (OutboxRepo_OldestPendingAge E s)"
  let ?s2 = "?s1\<lparr>stmt := Suc (stmt ?s1)\<rparr>"
  have s1: "tbl ?s1 = tbl s" "cnt ?s1 = cnt s"
    using OutboxRepo_OldestPendingAge_ro [of E] by (simp_all add: read_only_def)
  from t False have tx: "tx_do E (\<lambda>s. snd (tick_body E cfg ?dsp s)) ?s1 = (r, s')"
    by (auto simp: relay_tick_def Let_def split: prod.splits)
  show ?thesis
  proof (cases "tbl s' = tbl s")
    case False
    with tx_do_atomic [OF tx] s1 obtain v s3 where b: "snd (tick_body E cfg ?dsp ?s2) = (Inr v, s3)"
      and t3: "tbl s' = tbl s3" by auto
    have "db_inv E ?s2" using I s1 by simp
    from this b show ?thesis
    proof (rule tick_body_Inr)
      fix clk2 held clk st
      assume "tbl s3 = (tbl ?s2)\<lparr>email_outbox := settle_rows clk2 st (email_outbox (tbl ?s2))\<rparr>"
        "settled_sound cfg obs (map scan_claimed (sel_claim held (oc_Batch cfg) clk (tbl ?s2))) st"
      with t3 s1 show ?thesis by auto
    qed
  qed simp
qed

subsection \<open>Row by row\<close>

lemma verdict_Gone: "verdict_of st i = Gone \<Longrightarrow> i \<in> set (st_sent st)"
  by (auto simp: verdict_of_def split: if_splits option.splits)

lemma verdict_Again: "verdict_of st i = Again it \<Longrightarrow> it \<in> set (st_reschedule st) \<and> rt_ID it = i"
  by (auto simp: verdict_of_def dest: find_Some_iff_mem split: if_splits option.splits)

lemma verdict_Dead: "verdict_of st i = Dead f \<Longrightarrow> f \<in> set (st_fail st) \<and> fl_ID f = i"
  by (auto simp: verdict_of_def dest: find_Some_iff_mem split: if_splits option.splits)

lemma claimed_row:
  assumes I: "inv E T N" and c: "c \<in> set (map scan_claimed (sel_claim held batch clk T))"
    and r: "r \<in> set (email_outbox T)" and id: "o_id r = cl_ID c"
  shows "c = scan_claimed r" and "due clk r"
proof -
  from I have t: "tab_ok o_id (n_outbox N) (email_outbox T)" by (simp add: inv_def outbox_ok_def)
  from c obtain x where x: "x \<in> set (sel_claim held batch clk T)" "c = scan_claimed x" by auto
  then have "x \<in> set (email_outbox T)" "due clk x" using sel_claim_rows(1) [OF I, of held batch clk] by auto
  moreover have "x = r"
    using distinct_keys_eq [OF tab_ok_distinct [OF t] calculation(1) r] id x(2) by (simp add: scan_claimed_def)
  ultimately show "c = scan_claimed r" "due clk r" using x(2) by simp_all
qed

text \<open>The attempts a row may have: below the limit while it waits, at the limit when given up.\<close>

definition attempts_ok :: "int \<Rightarrow> tables \<Rightarrow> bool" where
  "attempts_ok limit T \<longleftrightarrow> (\<forall>r \<in> set (email_outbox T).
     (o_status r = status_pending \<longrightarrow> o_attempts r < limit) \<and> (o_status r = status_failed \<longrightarrow> o_attempts r = limit))"

lemma due_pending: "due clk r \<Longrightarrow> o_status r = status_pending"
  by (simp add: due_def)

lemma attempts_ok_settle:
  assumes I: "inv E T N" and A: "attempts_ok (oc_MaxAttempts cfg) T"
    and S: "settled_sound cfg obs (map scan_claimed (sel_claim held (oc_Batch cfg) clk T)) st"
  shows "attempts_ok (oc_MaxAttempts cfg) (T\<lparr>email_outbox := settle_rows now st (email_outbox T)\<rparr>)"
  unfolding attempts_ok_def
proof
  fix r' assume "r' \<in> set (email_outbox (T\<lparr>email_outbox := settle_rows now st (email_outbox T)\<rparr>))"
  then have "r' \<in> set (settle_rows now st (email_outbox T))" by simp
  then show "(o_status r' = status_pending \<longrightarrow> o_attempts r' < oc_MaxAttempts cfg) \<and>
      (o_status r' = status_failed \<longrightarrow> o_attempts r' = oc_MaxAttempts cfg)"
  proof (rule settle_rows_mem)
    fix r assume r: "r \<in> set (email_outbox T)" and s: "settle_row now (verdict_of st (o_id r)) r = Some r'"
    let ?cs = "map scan_claimed (sel_claim held (oc_Batch cfg) clk T)"
    have A': "(o_status r = status_pending \<longrightarrow> o_attempts r < oc_MaxAttempts cfg) \<and>
        (o_status r = status_failed \<longrightarrow> o_attempts r = oc_MaxAttempts cfg)"
      using A r by (simp add: attempts_ok_def)
    have neq: "status_pending \<noteq> status_failed" by (simp add: outbox_status_defs)
    show ?thesis
    proof (cases "verdict_of st (o_id r)")
      case (Again it)
      from verdict_Again [OF Again] S obtain c where "c \<in> set ?cs" "cl_ID c = o_id r"
        "cl_Attempts c + 1 < oc_MaxAttempts cfg" unfolding settled_sound_def by metis
      with claimed_row(1) [OF I _ r, of c held "oc_Batch cfg" clk] have "o_attempts r + 1 < oc_MaxAttempts cfg"
        by (simp add: scan_claimed_def)
      with s Again neq show ?thesis by auto
    next
      case (Dead f)
      from verdict_Dead [OF Dead] S obtain c where c: "c \<in> set ?cs" "cl_ID c = o_id r"
        "oc_MaxAttempts cfg \<le> cl_Attempts c + 1" unfolding settled_sound_def by metis
      note row = claimed_row [OF I c(1) r, OF c(2) [symmetric]]
      from row c(3) have "oc_MaxAttempts cfg \<le> o_attempts r + 1" by (simp add: scan_claimed_def)
      with s Dead neq A' due_pending [OF row(2)] show ?thesis by auto
    qed (use s A' in auto)
  qed
qed

subsection \<open>A healthy sender\<close>

definition healthy :: "shard_obs \<Rightarrow> bool" where
  "healthy ob \<longleftrightarrow> \<not> ob_ctx_done ob \<and> (\<forall>i. ob_was_sent ob i \<in> {Inr True, Inr False}) \<and>
     (\<forall>msgs. ob_send ob msgs = Inr (Inr (replicate (length msgs) None))) \<and> (\<forall>i. ob_mark ob i = None)"

lemma mark_loop_no_panic: "\<forall>i. ob_mark ob i = None \<Longrightarrow> fst (mark_loop etext ob crs out) = None"
  by (induction etext ob crs out rule: mark_loop.induct) (auto split: option.splits)

lemma healthy_shard:
  assumes h: "healthy ob"
  shows "set (so_sent (fst (processShard etext ob shard))) = cl_ID ` set shard"
proof -
  obtain p sent pending where c: "check_loop ob shard [] [] = (p, sent, pending)"
    by (cases "check_loop ob shard [] []")
  have p: "p = None" by (rule check_loop_no_panic [OF _ c]) (use h in \<open>auto simp: healthy_def\<close>)
  from check_loop_split [OF c] p have
    sent: "sent = map cl_ID (filter (\<lambda>c. ob_was_sent ob (cl_ID c) = Inr True) shard)"
    and pend: "pending = filter (\<lambda>c. ob_was_sent ob (cl_ID c) = Inr False) shard" by auto
  have all: "cl_ID ` set shard = set sent \<union> cl_ID ` set pending"
    using h unfolding sent pend healthy_def by auto
  let ?out = "empty_outcome\<lparr>so_sent := sent\<rparr>"
  let ?crs = "zip pending (replicate (length pending) (None :: SendResult))"
  show ?thesis
  proof (cases "pending = []")
    case True
    with h c p all show ?thesis by (simp add: processShard_def healthy_def)
  next
    case False
    obtain q out1 where m: "mark_loop etext ob ?crs ?out = (q, out1)" by fastforce
    have q: "q = None" using mark_loop_no_panic [of ob etext ?crs ?out] h m by (simp add: healthy_def)
    from mark_loop_split [OF m] q have "so_sent out1 = sent @ map (\<lambda>cr. cl_ID (fst cr)) (filter (\<lambda>cr. snd cr = None) ?crs)"
      by auto
    moreover have "filter (\<lambda>cr. snd cr = None) ?crs = ?crs"
      by (auto simp: filter_id_conv dest: set_zip_rightD)
    moreover have "map (\<lambda>cr. cl_ID (fst cr)) ?crs = map cl_ID pending"
      using map_map [of cl_ID fst ?crs] by (simp add: comp_def)
    ultimately have "set (so_sent out1) = cl_ID ` set shard" by (simp add: all)
    with h c p False m q show ?thesis by (simp add: processShard_def healthy_def)
  qed
qed

lemma send_ok_not_paused:
  assumes "\<And>msgs. \<exists>rs. ob_send ob msgs = Inr (Inr rs) \<and> length rs = length msgs"
  shows "\<not> so_paused (fst (processShard etext ob shard))"
proof -
  obtain p sent pending where c: "check_loop ob shard [] [] = (p, sent, pending)"
    by (cases "check_loop ob shard [] []")
  obtain rs where rs: "ob_send ob (map cl_Message pending) = Inr (Inr rs)" "length rs = length pending"
    using assms [of "map cl_Message pending"] by auto
  obtain q out1 where m: "mark_loop etext ob (zip pending rs) (empty_outcome\<lparr>so_sent := sent\<rparr>) = (q, out1)"
    by fastforce
  from mark_loop_split [OF m] have "\<not> so_paused out1" by (auto simp: empty_outcome_def)
  with c rs m show ?thesis
    by (auto simp: processShard_def recover_shard_def empty_outcome_def Let_def split: option.splits)
qed

lemma collect_retry_paused [simp]: "st_paused (collect_retry cfg fl u its s) = st_paused s"
  by (induction its arbitrary: s) (simp_all add: Let_def)

lemma collect_paused: "st_paused (collect cfg fl u os s) \<longleftrightarrow> st_paused s \<or> (\<exists>o' \<in> set os. so_paused o')"
  by (induction os arbitrary: s) (auto simp: Let_def)

lemma healthy_dispatch_not_paused:
  assumes "\<forall>k. healthy (obs k)"
  shows "\<not> st_paused (dispatch cfg fl u etext obs claimed)"
proof -
  have "\<not> so_paused (fst (processShard etext (obs k) shard))" for k shard
    using assms by (intro send_ok_not_paused) (simp add: healthy_def)
  then show ?thesis
    by (auto simp: dispatch_def collect_paused empty_settlement_def dest!: shard_outcomes_index)
qed

lemma healthy_dispatch:
  assumes "\<forall>k. healthy (obs k)"
  shows "set (st_sent (dispatch cfg fl u etext obs claimed)) = cl_ID ` set claimed"
proof -
  let ?shards = "shardBy claimed (oc_Workers cfg)"
  let ?os = "shard_outcomes etext obs ?shards"
  have each: "set (so_sent (fst (processShard etext (obs k) shard))) = cl_ID ` set shard" for k shard
    using assms by (intro healthy_shard) blast
  have sets: "map (\<lambda>out. set (so_sent out)) ?os = map (\<lambda>shard. cl_ID ` set shard) ?shards"
    by (intro nth_equalityI) (simp_all add: shard_outcomes_def each)
  have "set (st_sent (dispatch cfg fl u etext obs claimed)) = set (concat (map so_sent ?os))"
    using collect_result [of cfg fl u ?os empty_settlement] by (simp add: dispatch_def empty_settlement_def)
  also have "\<dots> = \<Union> (set (map (\<lambda>out. set (so_sent out)) ?os))" by simp
  also have "\<dots> = cl_ID ` set (concat ?shards)" unfolding sets by auto
  finally show ?thesis by (simp add: shardBy_concat)
qed

text \<open>All calls answer, nothing is locked, and every waiting row is due at every call.\<close>

definition calm :: "env \<Rightarrow> tables \<Rightarrow> bool" where
  "calm E T \<longleftrightarrow> (\<forall>n. fault E n = NoFault) \<and> (\<forall>n i. \<not> locked E n i) \<and>
     (\<forall>n. \<forall>r \<in> set (email_outbox T). o_status r = status_pending \<longrightarrow> due (clock E n) r)"

definition waiting :: "tables \<Rightarrow> outbox_row list" where
  "waiting T = filter (\<lambda>r. o_status r = status_pending) (email_outbox T)"

lemma settle_rows_gone:
  assumes "\<And>r. r \<in> set rows \<Longrightarrow> o_id r \<in> X \<Longrightarrow> verdict_of st (o_id r) = Gone"
    and "\<And>r. r \<in> set rows \<Longrightarrow> o_id r \<notin> X \<Longrightarrow> verdict_of st (o_id r) = Untouched"
  shows "settle_rows now st rows = filter (\<lambda>r. o_id r \<notin> X) rows"
  using assms
proof (induction rows)
  case (Cons r rows)
  then show ?case by (cases "o_id r \<in> X") (simp_all add: settle_rows_def map_filter_def)
qed (simp add: settle_rows_def map_filter_def)

lemma filter_minus_take:
  assumes "distinct (map key xs)"
  shows "filter P (filter (\<lambda>x. key x \<notin> key ` set (take n (filter P xs))) xs) = drop n (filter P xs)"
proof -
  let ?ys = "filter P xs"
  have d: "distinct (map key ?ys)" using assms by (simp add: distinct_map_filter)
  let ?Q = "\<lambda>x. key x \<notin> key ` set (take n ?ys)"
  have "filter P (filter ?Q xs) = filter ?Q ?ys" by (simp add: conj_commute)
  also have "\<dots> = filter ?Q (take n ?ys) @ filter ?Q (drop n ?ys)"
    by (metis append_take_drop_id filter_append)
  also have "filter ?Q (take n ?ys) = []" by (simp add: filter_empty_conv)
  also have "[] @ filter ?Q (drop n ?ys) = drop n ?ys"
    unfolding append_Nil
  proof (rule filter_True, intro ballI notI)
    fix x assume x: "x \<in> set (drop n ?ys)" and "key x \<in> key ` set (take n ?ys)"
    then have "key x \<in> set (take n (map key ?ys)) \<inter> set (drop n (map key ?ys))"
      by (auto simp: take_map drop_map)
    with set_take_disj_set_drop_if_distinct [OF d, of n n] show False by blast
  qed
  finally show ?thesis .
qed

lemma calm_claim:
  assumes I: "inv E T N" and c: "calm E' T"
  shows "sel_claim (locked E' n) batch (clock E' n) T = take (nat batch) (waiting T)"
proof -
  from I have t: "tab_ok o_id (n_outbox N) (email_outbox T)" by (simp add: inv_def outbox_ok_def)
  have "filter (\<lambda>r. due (clock E' n) r \<and> \<not> locked E' n (o_id r)) (email_outbox T) = waiting T"
    unfolding waiting_def using c by (intro filter_cong) (auto simp: calm_def due_def)
  then show ?thesis unfolding sel_claim_def tab_ok_sorted [OF t] by simp
qed

lemma tick_answers:
  assumes nf: "\<forall>n. fault E n = NoFault"
  shows "answers (\<lambda>s. snd (tick_body E cfg dsp s))"
proof -
  have "answers (if claimed = [] then ret () else settle E (dsp claimed))" for claimed
    unfolding settle_def by (simp add: answers_ret) (intro impI answers_try outbox_answers [OF nf])
  then show ?thesis unfolding tick_body_prog by (intro answers_try outbox_answers [OF nf])
qed

text \<open>A settlement whose ids are all sent and all claimed removes exactly the claimed rows.\<close>

lemma settle_rows_all_sent:
  assumes snd: "settled_sound cfg obs (map scan_claimed X) st" and sent: "set (st_sent st) = o_id ` set X"
  shows "settle_rows now st rows = filter (\<lambda>r. o_id r \<notin> o_id ` set X) rows"
proof (rule settle_rows_gone)
  fix r :: outbox_row assume "o_id r \<in> o_id ` set X"
  then show "verdict_of st (o_id r) = Gone" by (simp add: verdict_of_def sent)
next
  fix r :: outbox_row assume n: "o_id r \<notin> o_id ` set X"
  have ids: "cl_ID ` set (map scan_claimed X) = o_id ` set X" by (auto simp: scan_claimed_def image_image)
  from settled_ids [OF snd] n ids
  have "o_id r \<notin> rt_ID ` set (st_reschedule st)" "o_id r \<notin> fl_ID ` set (st_fail st)" by blast+
  then show "verdict_of st (o_id r) = Untouched"
    using n sent by (cases "verdict_of st (o_id r)") (auto simp: image_iff dest!: verdict_Gone verdict_Again verdict_Dead)
qed

text \<open>With a sender that takes everything, a tick removes the oldest rows of the batch and touches no other.\<close>

lemma healthy_tick:
  assumes I: "db_inv E s" and c: "calm E (tbl s)" and h: "\<forall>k. healthy (obs k)" and p: "paused \<le> now"
    and t: "relay_tick E cfg (dispatch cfg fl u etext obs) now now2 (paused, s) = (r, paused', s')"
  shows "r = Inr () \<and> email_outbox (tbl s') = filter (\<lambda>r. o_id r \<notin> o_id ` set (take (nat (oc_Batch cfg)) (waiting (tbl s))))
      (email_outbox (tbl s))"
proof -
  let ?dsp = "dispatch cfg fl u etext obs" and ?X = "take (nat (oc_Batch cfg)) (waiting (tbl s))"
  let ?s1 = "snd (OutboxRepo_OldestPendingAge E s)"
  let ?s2 = "?s1\<lparr>stmt := Suc (stmt ?s1)\<rparr>"
  have s1: "tbl ?s1 = tbl s" "cnt ?s1 = cnt s"
    using OutboxRepo_OldestPendingAge_ro [of E] by (simp_all add: read_only_def)
  have nf: "\<forall>n. fault E n = NoFault" using c by (simp add: calm_def)
  from t p have tx: "tx_do E (\<lambda>s. snd (tick_body E cfg ?dsp s)) ?s1 = (r, s')"
    by (auto simp: relay_tick_def Let_def split: prod.splits)
  with answersD [OF answers_tx [OF nf tick_answers [OF nf]]] have r: "r = Inr ()" by auto
  with tx obtain s3 where b: "snd (tick_body E cfg ?dsp ?s2) = (Inr (), s3)" and s3: "tbl s' = tbl s3"
    by (auto simp: tx_do_Inr)
  have "db_inv E ?s2" using I s1 by simp
  from this b show ?thesis
  proof (rule tick_body_Inr)
    fix now' held clk st
    assume *: "tbl s3 = (tbl ?s2)\<lparr>email_outbox := settle_rows now' st (email_outbox (tbl ?s2))\<rparr>"
      and snd: "settled_sound cfg obs (map scan_claimed (sel_claim held (oc_Batch cfg) clk (tbl ?s2))) st"
      and st: "st = ?dsp (map scan_claimed (sel_claim held (oc_Batch cfg) clk (tbl ?s2))) \<or>
        sel_claim held (oc_Batch cfg) clk (tbl ?s2) = [] \<and> st = empty_settlement"
      and hc: "held = locked E (stmt ?s2)" "clk = clock E (stmt ?s2)"
    have claim: "sel_claim held (oc_Batch cfg) clk (tbl ?s2) = ?X"
      using calm_claim [OF I c, of "stmt ?s2" "oc_Batch cfg"] s1 hc by simp
    have "set (st_sent st) = o_id ` set ?X"
      using st healthy_dispatch [OF h, of cfg fl u etext] unfolding claim
      by (auto simp: scan_claimed_def empty_settlement_def image_image)
    with settle_rows_all_sent [OF snd [unfolded claim]] * s3 s1 r show ?thesis by simp
  qed
qed

lemma healthy_tick_waiting:
  assumes "db_inv E s" and "calm E (tbl s)" and "\<forall>k. healthy (obs k)" and "paused \<le> now"
    and "relay_tick E cfg (dispatch cfg fl u etext obs) now now2 (paused, s) = (r, paused', s')"
  shows "waiting (tbl s') = drop (nat (oc_Batch cfg)) (waiting (tbl s))" and "calm E (tbl s')"
proof -
  note eff = conjunct2 [OF healthy_tick [OF assms]]
  from assms(1) have "distinct (map o_id (email_outbox (tbl s)))"
    by (auto simp: inv_def outbox_ok_def dest: tab_ok_distinct)
  from filter_minus_take [OF this, of "\<lambda>r. o_status r = status_pending" "nat (oc_Batch cfg)"]
  show "waiting (tbl s') = drop (nat (oc_Batch cfg)) (waiting (tbl s))"
    unfolding waiting_def eff .
  show "calm E (tbl s')" using assms(2) by (simp add: calm_def eff)
qed

lemma healthy_tick_paused:
  assumes "\<forall>k. healthy (obs k)"
  shows "fst (snd (relay_tick E cfg (dispatch cfg fl u etext obs) now now2 (paused, s))) = paused"
proof -
  have "\<not> st_paused (fst (tick_body E cfg (dispatch cfg fl u etext obs) s0))" for s0
    using healthy_dispatch_not_paused [OF assms]
    by (simp add: tick_body_def empty_settlement_def Let_def split: prod.splits sum.splits)
  then show ?thesis by (simp add: relay_tick_def empty_settlement_def Let_def split: prod.splits)
qed

subsection \<open>Draining\<close>

lemma drain_ticks:
  assumes "db_inv E s" and "calm E (tbl s)" and h: "\<forall>k. healthy (obs k)" and p: "\<forall>n. paused \<le> now n"
    and tick: "tick = (\<lambda>n ps. snd (relay_tick E cfg (dispatch cfg fl u etext obs) (now n) (now2 n) ps))"
  shows "waiting (tbl (snd (fst (relay_run tick n (replicate k (TickerFired False)) (paused, s))))) =
    drop (k * nat (oc_Batch cfg)) (waiting (tbl s))"
  using assms(1,2)
proof (induction k arbitrary: n s)
  case (Suc k)
  obtain r paused' s' where t: "relay_tick E cfg (dispatch cfg fl u etext obs) (now n) (now2 n) (paused, s) = (r, paused', s')"
    by (cases "relay_tick E cfg (dispatch cfg fl u etext obs) (now n) (now2 n) (paused, s)")
  have "paused' = paused" using healthy_tick_paused [OF h, of E cfg fl u etext "now n" "now2 n" paused s] t by simp
  moreover have "db_inv E s'" using relay_tick_inv [OF Suc.prems(1), of cfg fl u etext obs "now n" "now2 n" paused] t by simp
  ultimately show ?case
    using Suc.IH [of s' "Suc n"] healthy_tick_waiting [OF Suc.prems h _ t] p t
    by (simp add: tick add.commute)
qed simp

subsection \<open>Every message of a sent batch is accounted for\<close>

text \<open>Wherever the marking stops, each message is marked as sent, put up for retry, or behind the number delivered.\<close>

lemma mark_loop_accounts:
  assumes m: "mark_loop etext ob (zip pending rs) (empty_outcome\<lparr>so_sent := sent\<rparr>) = (q, out)"
    and len: "length rs = length pending" and c: "c \<in> set pending"
  shows "cl_ID c \<in> set (so_sent out) \<or> c \<in> ri_claimed ` set (so_retry out) \<or>
    q \<noteq> None \<and> c \<in> set (drop (so_delivered out) pending)"
proof -
  let ?crs = "zip pending rs"
  from mark_loop_split [OF m] obtain n where n: "n \<le> length pending" "q = None \<longrightarrow> n = length pending"
    and out: "so_sent out = sent @ map (\<lambda>cr. cl_ID (fst cr)) (filter (\<lambda>cr. snd cr = None) (take n ?crs))"
      "so_retry out = map (\<lambda>cr. \<lparr>ri_reason = etext (the (snd cr)), ri_claimed = fst cr\<rparr>)
        (filter (\<lambda>cr. snd cr \<noteq> None) (take n ?crs))"
      "so_delivered out = length (filter (\<lambda>cr. snd cr = None) (take n ?crs))"
    using len by (auto simp: empty_outcome_def)
  show ?thesis
  proof (cases "c \<in> set (take n pending)")
    case True
    have "take n pending = map fst (take n ?crs)" using len by (simp flip: take_map)
    with True obtain r where "(c, r) \<in> set (take n ?crs)" by auto
    then show ?thesis unfolding out by (cases r) force+
  next
    case False
    then have "c \<in> set (drop n pending)" using c by (metis Un_iff append_take_drop_id set_append)
    moreover have "so_delivered out \<le> n"
      using length_filter_le [of "\<lambda>cr. snd cr = None" "take n ?crs"] by (simp add: out(3))
    then have "set (drop n pending) \<subseteq> set (drop (so_delivered out) pending)" by (rule set_drop_subset_set_drop)
    moreover from False c n(2) have "q \<noteq> None" by auto
    ultimately show ?thesis by blast
  qed
qed

lemma processShard_accounts:
  assumes ctx: "\<not> ob_ctx_done ob" and chk: "\<And>c. c \<in> set shard \<Longrightarrow> ob_was_sent ob (cl_ID c) \<in> {Inr True, Inr False}"
    and snt: "\<And>msgs. \<exists>rs. ob_send ob msgs = Inr (Inr rs) \<and> length rs = length msgs"
    and c: "c \<in> set shard"
  shows "cl_ID c \<in> set (so_sent (fst (processShard etext ob shard))) \<or>
    c \<in> ri_claimed ` set (so_retry (fst (processShard etext ob shard)))"
proof -
  obtain p sent pending where cl: "check_loop ob shard [] [] = (p, sent, pending)"
    by (cases "check_loop ob shard [] []")
  have p: "p = None" by (rule check_loop_no_panic [OF _ cl]) (use chk in auto)
  from check_loop_split [OF cl] p have
    sent: "sent = map cl_ID (filter (\<lambda>c. ob_was_sent ob (cl_ID c) = Inr True) shard)"
    and pend: "pending = filter (\<lambda>c. ob_was_sent ob (cl_ID c) = Inr False) shard" by auto
  have split: "cl_ID c \<in> set sent \<or> c \<in> set pending" using chk [OF c] c by (auto simp: sent pend)
  show ?thesis
  proof (cases "pending = []")
    case True
    with split ctx cl p show ?thesis by (simp add: processShard_def)
  next
    case False
    obtain rs where rs: "ob_send ob (map cl_Message pending) = Inr (Inr rs)" "length rs = length pending"
      using snt [of "map cl_Message pending"] by auto
    obtain q out where m: "mark_loop etext ob (zip pending rs) (empty_outcome\<lparr>so_sent := sent\<rparr>) = (q, out)" by fastforce
    from mark_loop_split [OF m] have "set sent \<subseteq> set (so_sent out)" by (auto simp: empty_outcome_def)
    with split mark_loop_accounts [OF m rs(2)]
    have acc: "cl_ID c \<in> set (so_sent out) \<or> c \<in> ri_claimed ` set (so_retry out) \<or>
        q \<noteq> None \<and> c \<in> set (drop (so_delivered out) pending)" by blast
    have "fst (processShard etext ob shard) = (case q of None \<Rightarrow> out | Some p' \<Rightarrow> recover_shard pending p' out)"
      using ctx cl p False rs m by (simp add: processShard_def split: option.splits)
    with acc show ?thesis by (cases q) (auto simp: recover_shard_def image_Un image_image)
  qed
qed

subsection \<open>Properties\<close>

lemma prod_eqI3: "t = (fst t, fst (snd t), snd (snd t))"
  by simp

definition demo_obs :: shard_obs where
  "demo_obs = \<lparr>ob_ctx_done = False, ob_was_sent = \<lambda>_. Inr False,
     ob_send = \<lambda>msgs. Inr (Inr (replicate (length msgs) None)), ob_cause_paused = False, ob_mark = \<lambda>_. None\<rparr>"

definition demo_cfg :: OutboxConfig where
  "demo_cfg = \<lparr>oc_Tick = Second, oc_Budget = 5 * Second, oc_DedupTTL = 3600 * Second, oc_Batch = 100,
     oc_Workers = 4, oc_MaxAttempts = 8\<rparr>"

abbreviation demo_dispatch :: "shard_obs \<Rightarrow> Claimed list \<Rightarrow> settlement" where
  "demo_dispatch ob \<equiv> dispatch demo_cfg (\<lambda>x. x) (\<lambda>_. 0) (\<lambda>_. ''e'') (\<lambda>_. ob)"

text \<open>C3. No email is lost by a tick, whatever fails, panics or is cut off at whatever point: every row that
  was in the outbox is still there afterwards with the same recipient, subject and body, unless it
  was waiting and the dedup knew it as sent or the sender had accepted it in this very tick.\<close>

theorem tick_loses_no_email:
  assumes "db_inv E s"
    and "relay_tick E cfg (dispatch cfg fl u etext obs) now now2 (paused, s) = (res, paused', s')"
    and "r \<in> set (email_outbox (tbl s))"
  shows "(\<exists>r' \<in> set (email_outbox (tbl s')). o_id r' = o_id r \<and> o_recipient r' = o_recipient r \<and>
        o_subject r' = o_subject r \<and> o_body r' = o_body r) \<or>
    o_status r = status_pending \<and>
      (\<exists>k. ob_was_sent (obs k) (o_id r) = Inr True \<or> accepted (obs k) (scan_claimed r))"
proof (cases "tbl s' = tbl s")
  case False
  with relay_tick_effect [OF assms(1,2)] obtain clk2 held clk st where
    t: "email_outbox (tbl s') = settle_rows clk2 st (email_outbox (tbl s))"
    and S: "settled_sound cfg obs (map scan_claimed (sel_claim held (oc_Batch cfg) clk (tbl s))) st"
    by auto
  show ?thesis
  proof (cases "settle_row clk2 (verdict_of st (o_id r)) r")
    case None
    then have "o_id r \<in> set (st_sent st)"
      by (cases "verdict_of st (o_id r)") (auto dest: verdict_Gone)
    with S obtain c where c: "c \<in> set (map scan_claimed (sel_claim held (oc_Batch cfg) clk (tbl s)))"
      "cl_ID c = o_id r" "\<exists>k. ob_was_sent (obs k) (o_id r) = Inr True \<or> accepted (obs k) c"
      unfolding settled_sound_def by blast
    with claimed_row [OF assms(1) c(1) assms(3)] due_pending show ?thesis by auto
  next
    case (Some r')
    then have "r' \<in> set (email_outbox (tbl s'))"
      using assms(3) unfolding t settle_rows_def map_filter_def by force
    with settle_row_fields [OF Some] show ?thesis by blast
  qed
qed (use assms(3) in auto)

theorem tick_loses_no_email_witness:
  "(\<exists>r' \<in> set (email_outbox (tbl (snd (snd (relay_tick demo_env demo_cfg (demo_dispatch demo_obs) 1 1 (0, demo_db)))))).
      o_id r' = 1) \<or> accepted demo_obs (scan_claimed (hd (email_outbox demo_tables)))"
proof -
  have "hd (email_outbox demo_tables) \<in> set (email_outbox (tbl demo_db))" "o_id (hd (email_outbox demo_tables)) = 1"
    by (simp_all add: demo_db_def demo_tables_def)
  note mem = this
  have "ob_was_sent demo_obs i \<noteq> Inr True" for i by (simp add: demo_obs_def)
  with tick_loses_no_email [OF demo_inv prod_eqI3 mem(1), of demo_cfg "\<lambda>x. x" "\<lambda>_. 0" "\<lambda>_. ''e''"
      "\<lambda>_. demo_obs" 1 1 0] mem(2) show ?thesis by auto
qed



text \<open>C20. Attempts are bounded. A tick keeps every waiting email strictly below \<open>max_attempts\<close> attempts and
  every email it has given up at exactly \<open>max_attempts\<close>.\<close>

theorem tick_bounds_attempts:
  assumes "db_inv E s" and "attempts_ok (oc_MaxAttempts cfg) (tbl s)"
    and "relay_tick E cfg (dispatch cfg fl u etext obs) now now2 (paused, s) = (res, paused', s')"
  shows "attempts_ok (oc_MaxAttempts cfg) (tbl s')"
  using relay_tick_effect [OF assms(1,3)] attempts_ok_settle [OF assms(1,2)] assms(2) by auto

theorem tick_bounds_attempts_witness:
  "attempts_ok 8 (tbl (snd (snd (relay_tick demo_env demo_cfg (demo_dispatch demo_obs) 1 1 (0, demo_db)))))"
proof -
  have "attempts_ok (oc_MaxAttempts demo_cfg) (tbl demo_db)" "oc_MaxAttempts demo_cfg = 8"
    by (simp_all add: attempts_ok_def demo_db_def demo_tables_def demo_cfg_def outbox_status_defs)
  with tick_bounds_attempts [OF demo_inv _ prod_eqI3] show ?thesis by metis
qed

text \<open>C15. Delivery. When the store answers, no row is locked and the sender accepts what it is given, ticks
  of the relay deliver: after as many ticks as it takes batches to hold the waiting emails, none is
  waiting any more.\<close>

theorem relay_drains_outbox:
  assumes "db_inv E s" and "calm E (tbl s)" and "\<forall>k. healthy (obs k)" and "\<forall>n. paused \<le> now n"
    and "int (length (waiting (tbl s))) \<le> int k * oc_Batch cfg"
  shows "waiting (tbl (snd (fst (relay_run
      (\<lambda>n ps. snd (relay_tick E cfg (dispatch cfg fl u etext obs) (now n) (now2 n) ps))
      0 (replicate k (TickerFired False)) (paused, s))))) = []"
proof -
  have "length (waiting (tbl s)) \<le> k * nat (oc_Batch cfg)"
  proof (cases "0 \<le> oc_Batch cfg")
    case True
    then have "int k * oc_Batch cfg = int (k * nat (oc_Batch cfg))" by simp
    with assms(5) show ?thesis by linarith
  next
    case False
    then have "int k * oc_Batch cfg \<le> 0" by (simp add: mult_nonneg_nonpos)
    with assms(5) show ?thesis by linarith
  qed
  with drain_ticks [OF assms(1-4) refl] show ?thesis by simp
qed

theorem relay_drains_outbox_witness:
  "waiting demo_tables \<noteq> [] \<and>
   waiting (tbl (snd (fst (relay_run
      (\<lambda>n ps. snd (relay_tick demo_env demo_cfg (demo_dispatch demo_obs) 1 1 ps))
      0 (replicate 1 (TickerFired False)) (0, demo_db))))) = []"
proof -
  have "calm demo_env (tbl demo_db)" "healthy demo_obs"
    "int (length (waiting (tbl demo_db))) \<le> int 1 * oc_Batch demo_cfg" "waiting demo_tables \<noteq> []"
    by (simp_all add: calm_def healthy_def demo_env_def demo_db_def demo_tables_def demo_obs_def demo_cfg_def
        due_def waiting_def)
  with relay_drains_outbox [OF demo_inv, of "\<lambda>_. demo_obs" 0 "\<lambda>_. 1" 1 demo_cfg "\<lambda>x. x" "\<lambda>_. 0" "\<lambda>_. ''e''" "\<lambda>_. 1"]
  show ?thesis by simp
qed

text \<open>Nothing of a shard slips through once the provider has answered for its batch, even when the
  marking panics half way: every message of the shard is settled as sent or put up for retry.\<close>

theorem shard_accounts_for_every_message:
  assumes "\<not> ob_ctx_done ob" and "\<And>c. c \<in> set shard \<Longrightarrow> ob_was_sent ob (cl_ID c) \<in> {Inr True, Inr False}"
    and "\<And>msgs. \<exists>rs. ob_send ob msgs = Inr (Inr rs) \<and> length rs = length msgs" and "c \<in> set shard"
  shows "cl_ID c \<in> set (so_sent (fst (processShard etext ob shard))) \<or>
    c \<in> ri_claimed ` set (so_retry (fst (processShard etext ob shard)))"
  using assms by (rule processShard_accounts)

theorem shard_accounts_for_every_message_witness:
  "let ob = demo_obs\<lparr>ob_mark := \<lambda>i. if i = 2 then Some ''boom'' else None\<rparr>;
       c = \<lparr>cl_Message = \<lparr>msg_Recipient = [], msg_Subject = [], msg_Body = []\<rparr>, cl_ID = 2, cl_Attempts = 0\<rparr>
   in cl_ID c \<in> set (so_sent (fst (processShard (\<lambda>_. ''e'') ob [c\<lparr>cl_ID := 1\<rparr>, c]))) \<or>
      c \<in> ri_claimed ` set (so_retry (fst (processShard (\<lambda>_. ''e'') ob [c\<lparr>cl_ID := 1\<rparr>, c])))"
  unfolding Let_def by (rule shard_accounts_for_every_message) (simp_all add: demo_obs_def)

text \<open>A provider that refuses a batch costs no attempt: when every send fails and nothing panics, a
  shard puts nothing up for retry, so no row's attempts move.\<close>

theorem refused_batch_costs_no_attempt:
  assumes "\<not> ob_ctx_done ob" and "\<And>c. c \<in> set shard \<Longrightarrow> \<exists>b. ob_was_sent ob (cl_ID c) = Inr b"
    and "\<And>msgs. \<exists>e. ob_send ob msgs = Inr (Inl e)"
  shows "so_retry (fst (processShard etext ob shard)) = []"
  using assms by (rule processShard_batch_failed)

theorem refused_batch_costs_no_attempt_witness:
  "so_retry (fst (processShard (\<lambda>_. ''e'') (demo_obs\<lparr>ob_send := \<lambda>_. Inr (Inl (OtherErr ''down''))\<rparr>)
     [\<lparr>cl_Message = \<lparr>msg_Recipient = [], msg_Subject = [], msg_Body = []\<rparr>, cl_ID = 1, cl_Attempts = 0\<rparr>])) = []"
  by (rule refused_batch_costs_no_attempt) (auto simp: demo_obs_def)

text \<open>The recovery cuts \<open>pending\<close> at the number of deliveries, as if those came first. When a rejected message
  precedes a delivered one and a later mark panics, the delivered message is put up for retry
  beside being settled as sent, and the rejected one twice. Settling deletes before it reschedules, so the
  rows come out right all the same.\<close>

lemma recovery_retries_delivered:
  "let c = (\<lambda>i. \<lparr>cl_Message = \<lparr>msg_Recipient = [], msg_Subject = [], msg_Body = []\<rparr>, cl_ID = i, cl_Attempts = 0\<rparr>);
       ob = demo_obs\<lparr>ob_send := \<lambda>_. Inr (Inr [Some NumError, Some NumError, None, None]),
              ob_mark := \<lambda>i. if i = 4 then Some ''boom'' else None\<rparr>;
       out = fst (processShard (\<lambda>_. ''e'') ob [c 1, c 2, c 3, c 4])
   in so_sent out = [3] \<and> map (\<lambda>r. cl_ID (ri_claimed r)) (so_retry out) = [1, 2, 2, 3, 4]"
  by (simp add: Let_def demo_obs_def processShard_def recover_shard_def empty_outcome_def)

end
