(* ===== verification/Email_Client.thy ===== *)
theory Email_Client
  imports Relay_Settlement
begin

text \<open>
  \<open>internal/infrastructure/email\<close>: the sender the relay hands its batches to, behind a circuit
  breaker. The breaker library is a parameter by what its documentation says of \<open>Execute\<close>: it
  refuses at once with one of its two errors, or runs the request, takes note of its error and
  returns it. When it refuses is its own business (\<open>br_admit\<close>), guided by the two settings
  \<open>ReadyToTrip\<close> and \<open>IsExcluded\<close> of the client.

  The locale \<open>batch_sender\<close> is the relay's interface \<open>Sender\<close> with the law the relay relies on, one
  result per message; the client is an interpretation of it.
\<close>

subsection \<open>Configuration\<close>

record EmailConfig =
  em_MaxFailures :: nat
  em_OpenFor :: duration
  em_Timeout :: duration

definition EmailConfig_Validate :: "EmailConfig \<Rightarrow> gerr option" where
  "EmailConfig_Validate c =
     (if em_MaxFailures c = 0 then Some (OtherErr ''max_failures must be positive'')
      else if em_OpenFor c \<le> 0 then Some (OtherErr ''open_for must be positive'')
      else if em_Timeout c \<le> 0 then Some (OtherErr ''timeout must be positive'')
      else None)"

subsection \<open>The circuit breaker\<close>

datatype refusal = ErrOpenState | ErrTooManyRequests

definition refusal_err :: "refusal \<Rightarrow> gerr" where
  "refusal_err r = OtherErr (case r of ErrOpenState \<Rightarrow> ''circuit breaker is open''
     | ErrTooManyRequests \<Rightarrow> ''too many requests'')"

record 'b breaker =
  br_admit :: "'b \<Rightarrow> refusal option \<times> 'b"
  br_report :: "gerr option \<Rightarrow> 'b \<Rightarrow> 'b"

definition Execute :: "'b breaker \<Rightarrow> ('w \<Rightarrow> gerr option \<times> 'w) \<Rightarrow> 'b \<times> 'w \<Rightarrow> gerr option \<times> 'b \<times> 'w" where
  "Execute B req bw =
     (case br_admit B (fst bw) of
        (Some r, b') \<Rightarrow> (Some (refusal_err r), b', snd bw)
      | (None, b') \<Rightarrow> (let (e, w') = req (snd bw) in (e, br_report B e b', w')))"

text \<open>The two settings \<open>NewClient\<close> gives the breaker.\<close>

definition ReadyToTrip :: "EmailConfig \<Rightarrow> nat \<Rightarrow> bool" where
  "ReadyToTrip cfg consecutiveFailures \<longleftrightarrow> consecutiveFailures \<ge> em_MaxFailures cfg"

definition IsExcluded :: "gerr \<Rightarrow> bool" where
  "IsExcluded e \<longleftrightarrow> errors_is e ErrCallerGone"

subsection \<open>The client\<close>

text \<open>The mock delivery: it accepts every batch.\<close>

definition deliver :: "Message list \<Rightarrow> 'w \<Rightarrow> gerr option \<times> 'w" where
  "deliver msgs w = (None, w)"

text \<open>The caller's context: its error on entry, and its error once the provider has answered.\<close>

record caller =
  ca_Err :: "gerr option"
  ca_ErrAfter :: "gerr option"

text \<open>The closure run by the breaker: whose fault a failed send is.\<close>

definition classify :: "caller \<Rightarrow> gerr option \<Rightarrow> gerr option" where
  "classify ca err =
     (case err of
        None \<Rightarrow> None
      | Some e \<Rightarrow>
          if ca_ErrAfter ca \<noteq> None then Some (Wrap2 ErrCallerGone e)
          else if errors_is e DeadlineExceeded then Some (Wrap ''after timeout'' ErrProviderTimeout)
          else Some e)"

definition SendBatch :: "'b breaker \<Rightarrow> EmailConfig \<Rightarrow> (Message list \<Rightarrow> 'w \<Rightarrow> gerr option \<times> 'w) \<Rightarrow>
    caller \<Rightarrow> Message list \<Rightarrow> 'b \<times> 'w \<Rightarrow> (gerr + SendResult list) \<times> 'b \<times> 'w" where
  "SendBatch B cfg send ca msgs bw =
     (case ca_Err ca of
        Some e \<Rightarrow> (Inl e, bw)
      | None \<Rightarrow>
          (case Execute B (\<lambda>w. let (e, w') = send msgs w in (classify ca e, w')) bw of
             (None, bw') \<Rightarrow> (Inr (replicate (length msgs) None), bw')
           | (Some e, bw') \<Rightarrow>
               if errors_is e ErrCallerGone
               then (case ca_ErrAfter ca of Some c \<Rightarrow> Inl c | None \<Rightarrow> Inr [], bw')
               else (Inl (SendError (em_OpenFor cfg) e), bw')))"

text \<open>\<open>errCallerGone\<close> belongs to this package: no provider returns it. A context that ended has one of
  the two context errors.\<close>

definition provider_ok :: "(Message list \<Rightarrow> 'w \<Rightarrow> gerr option \<times> 'w) \<Rightarrow> bool" where
  "provider_ok send \<longleftrightarrow> (\<forall>msgs w e. fst (send msgs w) = Some e \<longrightarrow> \<not> errors_is e ErrCallerGone)"

definition caller_ok :: "caller \<Rightarrow> bool" where
  "caller_ok ca \<longleftrightarrow> ca_Err ca \<in> {None, Some Canceled, Some DeadlineExceeded} \<and>
     ca_ErrAfter ca \<in> {None, Some Canceled, Some DeadlineExceeded} \<and>
     (ca_Err ca \<noteq> None \<longrightarrow> ca_ErrAfter ca = ca_Err ca)"

subsection \<open>The interface of the relay\<close>

lemma loops_ignore_sender [simp]:
  "check_loop (ob\<lparr>ob_send := f\<rparr>) cs sent pending = check_loop ob cs sent pending"
  "mark_loop etext (ob\<lparr>ob_send := f\<rparr>) crs out = mark_loop etext ob crs out"
  "send_failed (ob\<lparr>ob_send := f\<rparr>) e out = send_failed ob e out"
proof -
  show "check_loop (ob\<lparr>ob_send := f\<rparr>) cs sent pending = check_loop ob cs sent pending"
    by (induction cs arbitrary: sent pending) (auto split: sum.splits bool.splits)
  show "mark_loop etext (ob\<lparr>ob_send := f\<rparr>) crs out = mark_loop etext ob crs out"
    by (induction crs arbitrary: out) (auto split: option.splits)
qed (simp add: send_failed_def)

text \<open>A shard calls its sender at most once, with the messages its dedup checks left.\<close>

definition shard_batch :: "shard_obs \<Rightarrow> Claimed list \<Rightarrow> Message list" where
  "shard_batch ob shard = map cl_Message (snd (snd (check_loop ob shard [] [])))"

lemma processShard_one_send:
  assumes "f (shard_batch ob shard) = ob_send ob (shard_batch ob shard)"
  shows "processShard etext (ob\<lparr>ob_send := f\<rparr>) shard = processShard etext ob shard"
proof -
  obtain p sent pending where c: "check_loop ob shard [] [] = (p, sent, pending)" using prod_cases3 by blast
  with assms have "f (map cl_Message pending) = ob_send ob (map cl_Message pending)" by (simp add: shard_batch_def)
  then show ?thesis by (simp add: processShard_def c Let_def split: option.splits sum.splits)
qed

locale batch_sender =
  fixes send :: "Message list \<Rightarrow> 'w \<Rightarrow> (gerr + SendResult list) \<times> 'w"
  assumes positional: "send msgs w = (Inr rs, w') \<Longrightarrow> length rs = length msgs \<or> rs = []"
begin

text \<open>What a shard with this sender does: it accounts for every message or puts nothing up for retry.\<close>

lemma shard_accounts_or_spends_nothing:
  assumes ctx: "\<not> ob_ctx_done ob" and chk: "\<And>c. c \<in> set shard \<Longrightarrow> \<exists>b. ob_was_sent ob (cl_ID c) = Inr b"
    and snd: "\<And>msgs. ob_send ob msgs = Inr (fst (send msgs w))"
  shows "(\<forall>c \<in> set shard. cl_ID c \<in> set (so_sent (fst (processShard etext ob shard))) \<or>
      c \<in> ri_claimed ` set (so_retry (fst (processShard etext ob shard)))) \<or>
    so_retry (fst (processShard etext ob shard)) = []"
proof -
  let ?b = "shard_batch ob shard"
  have chk': "ob_was_sent ob (cl_ID c) \<in> {Inr True, Inr False}" if "c \<in> set shard" for c
    using chk [OF that] by auto
  obtain r w' where s: "send ?b w = (r, w')" by fastforce
  show ?thesis
  proof (cases r)
    case (Inl e)
    let ?ob = "ob\<lparr>ob_send := \<lambda>_. Inr (Inl e)\<rparr>"
    have "processShard etext ?ob shard = processShard etext ob shard"
      by (rule processShard_one_send) (simp add: snd s Inl)
    moreover have "so_retry (fst (processShard etext ?ob shard)) = []"
      by (rule processShard_batch_failed) (use ctx chk in auto)
    ultimately show ?thesis by simp
  next
    case (Inr rs)
    show ?thesis
    proof (cases "length rs = length ?b")
      case True
      let ?ob = "ob\<lparr>ob_send := \<lambda>m. Inr (Inr (if m = ?b then rs else replicate (length m) None))\<rparr>"
      have "processShard etext ?ob shard = processShard etext ob shard"
        by (rule processShard_one_send) (simp add: snd s Inr)
      moreover have "cl_ID c \<in> set (so_sent (fst (processShard etext ?ob shard))) \<or>
          c \<in> ri_claimed ` set (so_retry (fst (processShard etext ?ob shard)))" if "c \<in> set shard" for c
        by (rule processShard_accounts) (use ctx chk' that True in auto)
      ultimately show ?thesis by simp
    next
      case False
      obtain p sent pending where c: "check_loop ob shard [] [] = (p, sent, pending)" using prod_cases3 by blast
      from positional [OF s [unfolded Inr]] False have e: "rs = []" by simp
      with False c have ne: "pending \<noteq> []" by (auto simp: shard_batch_def)
      from snd [of "map cl_Message pending"] s c Inr e
      have snt: "ob_send ob (map cl_Message pending) = Inr (Inr [])" by (simp add: shard_batch_def)
      have "p = None" using check_loop_no_panic [OF chk c] .
      with ctx c ne snt show ?thesis by (simp add: processShard_def empty_outcome_def)
    qed
  qed
qed

end

subsection \<open>The client is such a sender\<close>

lemma SendBatch_positional:
  "SendBatch B cfg snd' ca msgs bw = (Inr rs, bw') \<Longrightarrow> length rs = length msgs \<or> rs = []"
  by (auto simp: SendBatch_def split: option.splits prod.splits if_splits)

interpretation client: batch_sender "SendBatch B cfg snd' ca" for B cfg snd' ca
  by unfold_locales (rule SendBatch_positional)

lemma refusal_not_gone [simp]: "\<not> errors_is (refusal_err r) ErrCallerGone"
  by (simp add: refusal_err_def)

text \<open>The breaker's answer: a refusal, or the provider's, classified.\<close>

lemma Execute_cases:
  obtains (refused) r b' where "Execute B req bw = (Some (refusal_err r), b', snd bw)"
  | (ran) e w' b' where "req (snd bw) = (e, w')" and "Execute B req bw = (e, br_report B e b', w')"
proof (cases "br_admit B (fst bw)")
  case (Pair x b')
  obtain e w' where "req (snd bw) = (e, w')" by fastforce
  with Pair that show thesis by (cases x) (auto simp: Execute_def)
qed

lemma classify_gone:
  "provider_ok send \<Longrightarrow> send msgs w = (err, w') \<Longrightarrow> classify ca err = Some e \<Longrightarrow>
     errors_is e ErrCallerGone \<longleftrightarrow> ca_ErrAfter ca \<noteq> None"
  unfolding provider_ok_def
  by (drule spec [of _ msgs], drule spec [of _ w]) (auto simp: classify_def split: option.splits if_splits)

text \<open>Every answer of the client: all accepted, the caller's own context error without a hint, or a
  \<open>SendError\<close> with the hint, which is never a bare deadline of the caller's.\<close>

lemma SendBatch_cases:
  assumes "provider_ok send" and "caller_ok ca"
  obtains (accepted) bw' where "SendBatch B cfg send ca msgs bw = (Inr (replicate (length msgs) None), bw')"
  | (gone) c bw' where "SendBatch B cfg send ca msgs bw = (Inl c, bw')" and "ca_ErrAfter ca = Some c"
      and "c \<in> {Canceled, DeadlineExceeded}"
  | (failed) e bw' where "SendBatch B cfg send ca msgs bw = (Inl (SendError (em_OpenFor cfg) e), bw')"
      and "\<not> errors_is e ErrCallerGone"
proof (cases "ca_Err ca")
  case (Some c)
  with assms(2) gone [of c bw] show thesis by (auto simp: SendBatch_def caller_ok_def)
next
  case None
  let ?req = "\<lambda>w. let (e, w') = send msgs w in (classify ca e, w')"
  show thesis
  proof (cases rule: Execute_cases [of B ?req bw])
    case (refused r b')
    with None failed [of "refusal_err r" "(b', snd bw)"] show thesis by (simp add: SendBatch_def)
  next
    case (ran e w' b')
    obtain err where s: "send msgs (snd bw) = (err, w')" and e: "e = classify ca err"
      using ran(1) by (auto simp: Let_def split: prod.splits)
    show thesis
    proof (cases e)
      case None': None
      with None ran accepted show thesis by (simp add: SendBatch_def)
    next
      case (Some x)
      from classify_gone [OF assms(1) s] e Some have x: "errors_is x ErrCallerGone \<longleftrightarrow> ca_ErrAfter ca \<noteq> None" by simp
      show thesis
      proof (cases "ca_ErrAfter ca")
        case None'': None
        with None ran Some x failed show thesis by (simp add: SendBatch_def)
      next
        case (Some c)
        with None ran \<open>e = Some x\<close> x gone [of c] assms(2) show thesis by (auto simp: SendBatch_def caller_ok_def)
      qed
    qed
  qed
qed

text \<open>What a shard's outcome says about pausing, once its batch has been handed over.\<close>

lemma send_failed_pause:
  "so_pause (send_failed ob e out) = (case errors_as_hint e of None \<Rightarrow> so_pause out | Some d \<Rightarrow> d)"
  "so_paused (send_failed ob e out) \<longleftrightarrow> so_paused out \<or> ob_cause_paused ob \<or> \<not> errors_is e Canceled"
  by (auto simp: send_failed_def Let_def split: option.splits)

lemma processShard_handed_over:
  assumes "\<not> ob_ctx_done ob" and "\<And>c. c \<in> set shard \<Longrightarrow> \<exists>b. ob_was_sent ob (cl_ID c) = Inr b"
    and "shard_batch ob shard \<noteq> []"
  shows "ob_send ob (shard_batch ob shard) = Inr (Inl e) \<Longrightarrow>
      \<exists>sent. fst (processShard etext ob shard) = send_failed ob e (empty_outcome\<lparr>so_sent := sent\<rparr>)"
    and "ob_send ob (shard_batch ob shard) = Inr (Inr rs) \<Longrightarrow> length rs = length (shard_batch ob shard) \<Longrightarrow>
      \<not> so_paused (fst (processShard etext ob shard)) \<and> so_pause (fst (processShard etext ob shard)) = 0"
proof -
  obtain p sent pending where c: "check_loop ob shard [] [] = (p, sent, pending)" using prod_cases3 by blast
  have p: "p = None" using check_loop_no_panic [OF assms(2) c] .
  have b: "shard_batch ob shard = map cl_Message pending" by (simp add: shard_batch_def c)
  with assms(3) have ne: "pending \<noteq> []" by simp
  show "\<exists>sent. fst (processShard etext ob shard) = send_failed ob e (empty_outcome\<lparr>so_sent := sent\<rparr>)"
    if "ob_send ob (shard_batch ob shard) = Inr (Inl e)"
    using that assms(1) c p b ne by (auto simp: processShard_def)
  show "\<not> so_paused (fst (processShard etext ob shard)) \<and> so_pause (fst (processShard etext ob shard)) = 0"
    if s: "ob_send ob (shard_batch ob shard) = Inr (Inr rs)" and l: "length rs = length (shard_batch ob shard)"
  proof -
    obtain q out1 where m: "mark_loop etext ob (zip pending rs) (empty_outcome\<lparr>so_sent := sent\<rparr>) = (q, out1)"
      by fastforce
    from mark_loop_split [OF m] have "\<not> so_paused out1" "so_pause out1 = 0" by (auto simp: empty_outcome_def)
    with s l assms(1) c p b ne m show ?thesis
      by (cases q) (auto simp: processShard_def recover_shard_def)
  qed
qed

subsection \<open>Properties\<close>


definition demo_breaker :: "unit breaker" where
  "demo_breaker = \<lparr>br_admit = \<lambda>b. (None, b), br_report = \<lambda>e b. b\<rparr>"

definition demo_email :: EmailConfig where
  "demo_email = \<lparr>em_MaxFailures = 3, em_OpenFor = 7 * Second, em_Timeout = Second\<rparr>"

definition demo_claimed :: Claimed where
  "demo_claimed = \<lparr>cl_Message = \<lparr>msg_Recipient = ''a'', msg_Subject = [], msg_Body = []\<rparr>, cl_ID = 1, cl_Attempts = 0\<rparr>"


text \<open>C29. An outage pauses the relay for as long as the breaker stays open, and nothing else does: the
  shard asks for a pause exactly when its batch was not taken, unless the relay is being shut down,
  and it passes on \<open>open_for\<close> as the length exactly when it was the provider or the breaker that
  refused.\<close>

theorem outage_pauses_relay:
  assumes "\<not> ob_ctx_done ob" and "\<And>c. c \<in> set shard \<Longrightarrow> \<exists>b. ob_was_sent ob (cl_ID c) = Inr b"
    and "shard_batch ob shard \<noteq> []" and "provider_ok provider" and "caller_ok ca"
    and "\<And>msgs. ob_send ob msgs = Inr (fst (SendBatch B cfg provider ca msgs bw))"
  shows "case fst (SendBatch B cfg provider ca (shard_batch ob shard) bw) of
      Inr rs \<Rightarrow> \<not> so_paused (fst (processShard etext ob shard))
    | Inl e \<Rightarrow> (so_paused (fst (processShard etext ob shard)) \<longleftrightarrow> ob_cause_paused ob \<or> \<not> errors_is e Canceled) \<and>
        so_pause (fst (processShard etext ob shard)) =
          (if e \<in> {Canceled, DeadlineExceeded} then 0 else em_OpenFor cfg)"
proof -
  note over = processShard_handed_over [OF assms(1-3)]
  from assms(4,5) show ?thesis
  proof (cases rule: SendBatch_cases [where B = B and cfg = cfg and msgs = "shard_batch ob shard" and bw = bw])
    case (accepted bw')
    with over(2) assms(6) show ?thesis by simp
  next
    case (gone c bw')
    with over(1) [of c etext] assms(6) obtain sent where
      "fst (processShard etext ob shard) = send_failed ob c (empty_outcome\<lparr>so_sent := sent\<rparr>)" by auto
    with gone show ?thesis by (auto simp: send_failed_pause empty_outcome_def)
  next
    case (failed e bw')
    with over(1) [of "SendError (em_OpenFor cfg) e" etext] assms(6) obtain sent where
      "fst (processShard etext ob shard) = send_failed ob (SendError (em_OpenFor cfg) e) (empty_outcome\<lparr>so_sent := sent\<rparr>)"
      by auto
    with failed show ?thesis by (auto simp: send_failed_pause empty_outcome_def)
  qed
qed

theorem outage_pauses_relay_witness:
  "let ob = demo_obs\<lparr>ob_send := \<lambda>m. Inr (fst (SendBatch demo_breaker demo_email (\<lambda>_ w. (Some DeadlineExceeded, w))
         \<lparr>ca_Err = None, ca_ErrAfter = None\<rparr> m ((), ())))\<rparr>;
       out = fst (processShard (\<lambda>_. ''e'') ob [demo_claimed])
   in so_paused out \<and> so_pause out = 7 * Second"
proof -
  let ?p = "\<lambda>(_ :: Message list) w. (Some DeadlineExceeded, w :: unit)"
  let ?ca = "\<lparr>ca_Err = None, ca_ErrAfter = None\<rparr>"
  let ?ob = "demo_obs\<lparr>ob_send := \<lambda>m. Inr (fst (SendBatch demo_breaker demo_email ?p ?ca m ((), ())))\<rparr>"
  have b: "shard_batch ?ob [demo_claimed] \<noteq> []" by (simp add: shard_batch_def demo_obs_def)
  have e: "fst (SendBatch demo_breaker demo_email ?p ?ca m ((), ())) =
      Inl (SendError (7 * Second) (Wrap ''after timeout'' ErrProviderTimeout))" for m
    by (simp add: SendBatch_def Execute_def demo_breaker_def classify_def demo_email_def)
  have ok: "provider_ok ?p" "caller_ok ?ca" by (simp_all add: provider_ok_def caller_ok_def)
  have ob: "\<not> ob_ctx_done ?ob" "\<And>c. c \<in> set [demo_claimed] \<Longrightarrow> \<exists>b. ob_was_sent ?ob (cl_ID c) = Inr b"
    by (auto simp: demo_obs_def)
  have "ob_send ?ob m = Inr (fst (SendBatch demo_breaker demo_email ?p ?ca m ((), ())))" for m by simp
  from outage_pauses_relay [OF ob b ok this, of "\<lambda>_. ''e''"]
  show ?thesis unfolding e Let_def by (simp add: demo_email_def)
qed

end
