(* ===== verification/System.thy ===== *)
theory System
  imports Router Email_Client
begin

text \<open>
  The running system: the HTTP server, the command-line grant of the admin role and the outbox relay, all
  on one database. One step is one request served, one grant, one tick of the relay, or, because two
  services check before they open their transaction, the check and the transaction of such a request as
  two steps with anything in between: \<open>Tasks.Create\<close> and \<open>Teams.Invite\<close>. A step's transaction and its
  single statements are taken as atomic; Concurrent_Updates and Snapshot_Reads take the transactions apart
  that write rows they have read.

  The invariant of every reachable state: the database invariant, the bound on attempts, and that a
  request whose check has passed would still pass it.
\<close>

subsection \<open>States and steps\<close>

text \<open>A request between its checks and its transaction.\<close>

datatype checked =
    CheckedTask int64 int64 TaskInput \<comment> \<open>actor, team, input\<close>
  | CheckedInvite int64 int64 int64 string \<comment> \<open>actor, team, invitee, email\<close>

record ('r, 's) app =
  ap_server :: "('r, 's) server"
  ap_paused :: int \<comment> \<open>\<open>Relay.paused\<close>\<close>
  ap_checked :: "checked list"

abbreviation ap_db :: "('r, 's) app \<Rightarrow> db" where
  "ap_db a \<equiv> fst (fst (ap_server a))"

definition set_db :: "db \<Rightarrow> ('r, 's) app \<Rightarrow> ('r, 's) app" where
  "set_db s a = a\<lparr>ap_server := ((s, snd (fst (ap_server a))), snd (ap_server a))\<rparr>"

lemma set_db_simps [simp]:
  "ap_db (set_db s a) = s" "ap_checked (set_db s a) = ap_checked a" "ap_paused (set_db s a) = ap_paused a"
  by (simp_all add: set_db_def)

text \<open>After a task's commit the service invalidates the lists of its team.\<close>

definition invalidated :: "'r deps \<Rightarrow> int64 \<Rightarrow> ('r, 's) app \<Rightarrow> ('r, 's) app" where
  "invalidated D teamID a = a\<lparr>ap_server := ((ap_db a,
     snd (InvalidateTeam (dp_redis D) teamID (snd (fst (ap_server a))))), snd (ap_server a))\<rparr>"

lemma invalidated_simps [simp]:
  "ap_db (invalidated D i a) = ap_db a" "ap_checked (invalidated D i a) = ap_checked a"
  by (simp_all add: invalidated_def)

inductive app_step :: "env \<Rightarrow> 'r deps \<Rightarrow> ('s, 'net, 'ip) edge \<Rightarrow> OutboxConfig \<Rightarrow> ('r, 's) app \<Rightarrow> ('r, 's) app \<Rightarrow> bool"
  for E D G cfg where
  request: "serve E D G call (ap_server a) = (out, sv) \<Longrightarrow> app_step E D G cfg a (a\<lparr>ap_server := sv\<rparr>)"
| grant_admin: "Auth_GrantAdmin E email (ap_db a) = (res, s) \<Longrightarrow> app_step E D G cfg a (set_db s a)"
| tick: "relay_tick E cfg (dispatch cfg fl u etext obs) now now2 (ap_paused a, ap_db a) = (res, paused, s) \<Longrightarrow>
    app_step E D G cfg a ((set_db s a)\<lparr>ap_paused := paused\<rparr>)"
| check_task: "RequireTeamRole E actorID teamID TeamRoleMember (ap_db a) = (Inr (), s1) \<Longrightarrow>
    requireAssigneeIsMember E teamID (ti_AssigneeID inp) s1 = (Inr (), s) \<Longrightarrow>
    app_step E D G cfg a ((set_db s a)\<lparr>ap_checked := CheckedTask actorID teamID inp # ap_checked a\<rparr>)"
| commit_task: "CheckedTask actorID teamID inp \<in> set (ap_checked a) \<Longrightarrow>
    tx_do E (create_task_tx E (new_task actorID teamID inp)) (ap_db a) = (res, s) \<Longrightarrow>
    app_step E D G cfg a ((set_db s (if \<not> isl res then invalidated D teamID a else a))
      \<lparr>ap_checked := remove1 (CheckedTask actorID teamID inp) (ap_checked a)\<rparr>)"
| check_invite: "RequireTeamRole E actorID teamID TeamRoleAdmin (ap_db a) = (Inr (), s1) \<Longrightarrow>
    UserRepo_ByEmail E email s1 = (Inr invitee, s) \<Longrightarrow>
    app_step E D G cfg a
      ((set_db s a)\<lparr>ap_checked := CheckedInvite actorID teamID (user_ID invitee) email # ap_checked a\<rparr>)"
| commit_invite: "CheckedInvite actorID teamID userID email \<in> set (ap_checked a) \<Longrightarrow>
    tx_do E (invite_tx E teamID userID email) (ap_db a) = (res, s) \<Longrightarrow>
    app_step E D G cfg a
      ((set_db s a)\<lparr>ap_checked := remove1 (CheckedInvite actorID teamID userID email) (ap_checked a)\<rparr>)"

inductive_cases app_stepE: "app_step E D G cfg a a'"

inductive app_reach :: "env \<Rightarrow> 'r deps \<Rightarrow> ('s, 'net, 'ip) edge \<Rightarrow> OutboxConfig \<Rightarrow> ('r, 's) app \<Rightarrow> bool"
  for E D G cfg where
  init: "app_reach E D G cfg \<lparr>ap_server = ((empty_db, r), sn), ap_paused = 0, ap_checked = []\<rparr>"
| step: "app_reach E D G cfg a \<Longrightarrow> app_step E D G cfg a a' \<Longrightarrow> app_reach E D G cfg a'"

subsection \<open>The invariant\<close>

fun still_allowed :: "tables \<Rightarrow> checked \<Rightarrow> bool" where
  "still_allowed T (CheckedTask actorID teamID inp) \<longleftrightarrow> may_act T actorID teamID TeamRoleMember \<and>
     (\<forall>a. ti_AssigneeID inp = Some a \<longrightarrow> (teamID, a) \<in> member_pairs T)"
| "still_allowed T (CheckedInvite actorID teamID userID email) \<longleftrightarrow> may_act T actorID teamID TeamRoleAdmin \<and>
     userID \<in> user_ids T"

definition app_inv :: "env \<Rightarrow> OutboxConfig \<Rightarrow> ('r, 's) app \<Rightarrow> bool" where
  "app_inv E cfg a \<longleftrightarrow> db_inv E (ap_db a) \<and>
     (1 \<le> oc_MaxAttempts cfg \<longrightarrow> attempts_ok (oc_MaxAttempts cfg) (tbl (ap_db a))) \<and>
     (\<forall>c \<in> set (ap_checked a). still_allowed (tbl (ap_db a)) c)"

lemma inv_members_ok: "inv E T N \<Longrightarrow> members_ok T"
  by (simp add: inv_def)

lemma evolves_still_allowed:
  assumes "evolves T T'" and "inv E T N" and "inv E T' N'" and "still_allowed T c"
  shows "still_allowed T' c"
proof (cases c)
  case (CheckedTask actorID teamID inp)
  with assms evolves_may_act [OF assms(1) inv_members_ok [OF assms(2)] inv_members_ok [OF assms(3)]] show ?thesis
    by (auto dest: evolves_member)
next
  case (CheckedInvite actorID teamID userID email)
  with assms evolves_may_act [OF assms(1) inv_members_ok [OF assms(2)] inv_members_ok [OF assms(3)]] show ?thesis
    by (auto simp: evolves_def)
qed

lemma evolves_attempts_ok: "evolves T T' \<Longrightarrow> 1 \<le> n \<Longrightarrow> attempts_ok n T \<Longrightarrow> attempts_ok n T'"
  unfolding attempts_ok_def evolves_def by (fastforce simp: outbox_status_defs)

text \<open>A step that only evolves the tables and keeps the database invariant keeps the whole; checks
  that remain or are added must hold.\<close>

lemma app_inv_evolves:
  assumes I: "app_inv E cfg a" and s: "db_inv E s" and e: "evolves (tbl (ap_db a)) (tbl s)"
    and db: "ap_db a' = s"
    and ch: "\<And>c. c \<in> set (ap_checked a') \<Longrightarrow> c \<in> set (ap_checked a) \<or> still_allowed (tbl s) c"
  shows "app_inv E cfg a'"
  using I s e ch evolves_still_allowed [OF e _ s] evolves_attempts_ok [OF e]
  unfolding app_inv_def db by blast

lemma still_allowed_congs:
  "user_ids T' = user_ids T \<Longrightarrow> users T' = users T \<Longrightarrow> team_members T' = team_members T \<Longrightarrow>
     still_allowed T' c = still_allowed T c"
  by (cases c) (simp_all add: may_act_def is_global_admin_def team_role_of_def member_pairs_def)

lemma tick_keeps_app_inv:
  assumes I: "app_inv E cfg a"
    and t: "relay_tick E cfg (dispatch cfg fl u etext obs) now now2 (ap_paused a, ap_db a) = (res, paused, s)"
  shows "app_inv E cfg ((set_db s a)\<lparr>ap_paused := paused\<rparr>)"
proof -
  from I have inv: "db_inv E (ap_db a)" by (simp add: app_inv_def)
  from relay_tick_inv [OF inv, of cfg fl u etext obs now now2 "ap_paused a"] t have s: "db_inv E s" by simp
  from relay_tick_effect [OF inv t] consider "tbl s = tbl (ap_db a)"
    | clk2 held clk st where
      "tbl s = (tbl (ap_db a))\<lparr>email_outbox := settle_rows clk2 st (email_outbox (tbl (ap_db a)))\<rparr>"
      "settled_sound cfg obs (map scan_claimed (sel_claim held (oc_Batch cfg) clk (tbl (ap_db a)))) st"
    by blast
  then show ?thesis
  proof cases
    case 1
    with I s show ?thesis by (simp add: app_inv_def set_db_def)
  next
    case 2
    have "attempts_ok (oc_MaxAttempts cfg) (tbl s)" if "attempts_ok (oc_MaxAttempts cfg) (tbl (ap_db a))"
      using attempts_ok_settle [OF inv that 2(2)] 2(1) by simp
    moreover have "still_allowed (tbl s) c = still_allowed (tbl (ap_db a)) c" for c
      by (rule still_allowed_congs) (simp_all add: 2(1))
    ultimately show ?thesis using I s by (simp add: app_inv_def set_db_def)
  qed
qed

lemma check_task_inv:
  assumes I: "app_inv E cfg a" and r: "RequireTeamRole E actorID teamID TeamRoleMember (ap_db a) = (Inr (), s1)"
    and m: "requireAssigneeIsMember E teamID (ti_AssigneeID inp) s1 = (Inr (), s)"
  shows "app_inv E cfg ((set_db s a)\<lparr>ap_checked := CheckedTask actorID teamID inp # ap_checked a\<rparr>)"
proof -
  from I have inv: "db_inv E (ap_db a)" by (simp add: app_inv_def)
  have s1: "tbl s1 = tbl (ap_db a)" "cnt s1 = cnt (ap_db a)" using read_onlyD [OF RequireTeamRole_ro r] by simp_all
  have s: "tbl s = tbl (ap_db a)" "cnt s = cnt (ap_db a)"
    using read_onlyD [OF requireAssigneeIsMember_ro m] s1 by simp_all
  have "still_allowed (tbl s) (CheckedTask actorID teamID inp)"
    using RequireTeamRole_Inr [OF inv r] requireAssigneeIsMember_Inr [OF m] s s1 by simp
  with inv s show ?thesis by (intro app_inv_evolves [OF I, of s]) auto
qed

lemma commit_task_inv:
  assumes I: "app_inv E cfg a" and c: "CheckedTask actorID teamID inp \<in> set (ap_checked a)"
    and tx: "tx_do E (create_task_tx E (new_task actorID teamID inp)) (ap_db a) = (res, s)"
  shows "app_inv E cfg ((set_db s (if \<not> isl res then invalidated D teamID a else a))
      \<lparr>ap_checked := remove1 (CheckedTask actorID teamID inp) (ap_checked a)\<rparr>)"
proof -
  from I have inv: "db_inv E (ap_db a)" by (simp add: app_inv_def)
  from I c have asg: "\<And>x. ti_AssigneeID inp = Some x \<Longrightarrow> (teamID, x) \<in> member_pairs (tbl (ap_db a))"
    by (auto simp: app_inv_def)
  have "db_inv E (snd (tx_do E (create_task_tx E (new_task actorID teamID inp)) (ap_db a)))"
    by (rule tx_inv_at [OF create_task_tx_grows inv], erule create_task_tx_inv [rotated])
      (use inv asg in \<open>simp_all add: new_task_def Let_def\<close>)
  with tx have s: "db_inv E s" by simp
  show ?thesis
    by (rule app_inv_evolves [OF I s evolvingD [OF evo_tx [OF evo_task_tx(1)] tx]])
      (auto dest: subsetD [OF set_remove1_subset])
qed

lemma check_invite_inv:
  assumes I: "app_inv E cfg a" and r: "RequireTeamRole E actorID teamID TeamRoleAdmin (ap_db a) = (Inr (), s1)"
    and m: "UserRepo_ByEmail E email s1 = (Inr invitee, s)"
  shows "app_inv E cfg ((set_db s a)\<lparr>ap_checked := CheckedInvite actorID teamID (user_ID invitee) email # ap_checked a\<rparr>)"
proof -
  from I have inv: "db_inv E (ap_db a)" by (simp add: app_inv_def)
  have s1: "tbl s1 = tbl (ap_db a)" "cnt s1 = cnt (ap_db a)" using read_onlyD [OF RequireTeamRole_ro r] by simp_all
  have s: "tbl s = tbl (ap_db a)" "cnt s = cnt (ap_db a)" using read_onlyD [OF UserRepo_ByEmail_ro m] s1 by simp_all
  have "user_ID invitee \<in> user_ids (tbl s1)"
    using m by (auto simp: UserRepo_ByEmail_Inr user_ids_def dest!: find_Some_iff_mem)
  then have "still_allowed (tbl s) (CheckedInvite actorID teamID (user_ID invitee) email)"
    using RequireTeamRole_Inr [OF inv r] s s1 by simp
  with inv s show ?thesis by (intro app_inv_evolves [OF I, of s]) auto
qed

lemma app_step_inv:
  assumes I: "app_inv E cfg a" and st: "app_step E D G cfg a a'"
  shows "app_inv E cfg a'"
  using st
proof (rule app_stepE)
  from I have inv: "db_inv E (ap_db a)" by (simp add: app_inv_def)
  show ?thesis if a': "a' = a\<lparr>ap_server := sv\<rparr>" and "serve E D G call (ap_server a) = (out, sv)" for call out sv
  proof -
    from serve_safe [of E D G call] that(2) inv have "db_inv E (fst (fst sv))"
      "evolves (tbl (ap_db a)) (tbl (fst (fst sv)))"
      unfolding server_safe_def by (metis snd_conv)+
    then show ?thesis by (rule app_inv_evolves [OF I]) (simp_all add: a')
  qed
  show ?thesis if a': "a' = set_db s a" and "Auth_GrantAdmin E email (ap_db a) = (res, s)" for email res s
  proof -
    have "db_inv E s" using Auth_GrantAdmin_inv [of E email] inv that(2) unfolding keeps_inv_def by (metis snd_conv)
    then show ?thesis
      by (rule app_inv_evolves [OF I]) (simp_all add: a' evolvingD [OF evo_Auth(2) that(2)])
  qed
  show ?thesis if a': "a' = (set_db s a)\<lparr>ap_checked := remove1 (CheckedInvite actorID teamID userID email) (ap_checked a)\<rparr>"
    and tx: "tx_do E (invite_tx E teamID userID email) (ap_db a) = (res, s)" for actorID teamID userID email res s
  proof -
    have s: "db_inv E s"
      using invite_tx_do_inv [of E teamID userID email] inv tx unfolding keeps_inv_def by (metis snd_conv)
    show ?thesis
      by (rule app_inv_evolves [OF I s evolvingD [OF evo_tx [OF evo_invite_tx] tx]])
        (auto simp: a' dest: subsetD [OF set_remove1_subset])
  qed
qed (use tick_keeps_app_inv [OF I] check_task_inv [OF I] commit_task_inv [OF I] check_invite_inv [OF I] in \<open>simp_all only:\<close>)

lemma app_reach_inv: "app_reach E D G cfg a \<Longrightarrow> app_inv E cfg a"
proof (induction rule: app_reach.induct)
  case (init r sn)
  then show ?case
    using inv_empty [of E] by (simp add: app_inv_def attempts_ok_def empty_db_def empty_tables_def)
next
  case (step a a')
  then show ?case by (metis app_step_inv)
qed

lemma app_reach_db_inv: "app_reach E D G cfg a \<Longrightarrow> db_inv E (ap_db a)"
  by (drule app_reach_inv) (simp add: app_inv_def)

end
