(* ===== verification/Paging.thy ===== *)
theory Paging
  imports Scenario Analytics_Http Comments_Http
begin

text \<open>
  Keyset pagination. Five queries hand out their rows page by page, the client passing on the last id it
  has seen. The locale \<open>keyset_list\<close> is their common contract: in a state that is \<open>ok\<close> the rows are in
  strictly rising order of a positive key, and a page is the first rows beyond the cursor. The lemma
  proved from it: following the cursor visits every row exactly once, in order, and ends. Each query is
  an interpretation, with the database invariant for \<open>ok\<close>.
\<close>

subsection \<open>Following the cursor\<close>

text \<open>A client of a list endpoint: it asks for the next page as long as the last one was full. The first
  argument bounds the number of requests.\<close>

fun follow :: "nat \<Rightarrow> ('row \<Rightarrow> int64) \<Rightarrow> int \<Rightarrow> (int64 \<Rightarrow> 'row list) \<Rightarrow> int64 \<Rightarrow> 'row list list" where
  "follow 0 key limit page after = []"
| "follow (Suc n) key limit page after =
     (let p = page after
      in p # (if int (length p) = limit then follow n key limit page (key (last p)) else []))"

lemma take_filter_beyond:
  fixes key :: "'row \<Rightarrow> int64"
  assumes "sorted_wrt (<) (map key rs)" and "0 < n" and "n \<le> length rs"
  shows "filter (\<lambda>r. key (last (take n rs)) < key r) rs = drop n rs"
proof -
  let ?k = "key (last (take n rs))"
  have l: "last (take n rs) = rs ! (n - 1)" using last_conv_nth [of "take n rs"] assms(2,3) by (cases rs) (auto simp: min_def)
  have s: "key (rs ! i) < key (rs ! j)" if "i < j" "j < length rs" for i j
    using sorted_wrt_nth_less [OF assms(1), of i j] that by simp
  have "\<not> ?k < key r" if "r \<in> set (take n rs)" for r
  proof -
    from that obtain i where i: "i < n" "i < length rs" "r = rs ! i" by (auto simp: in_set_conv_nth)
    show ?thesis
    proof (cases "i = n - 1")
      case False
      with i assms(3) have "i < n - 1" "n - 1 < length rs" by linarith+
      from s [OF this] show ?thesis unfolding l i(3) by linarith
    qed (simp add: l i)
  qed
  then have "filter (\<lambda>r. ?k < key r) (take n rs) = []" by (simp add: filter_empty_conv)
  moreover have "?k < key r" if "r \<in> set (drop n rs)" for r
  proof -
    from that obtain i where i: "i < length (drop n rs)" "r = drop n rs ! i" by (auto simp: in_set_conv_nth)
    then have "r = rs ! (n + i)" "n + i < length rs" by simp_all
    with s [of "n - 1" "n + i"] assms(2) show ?thesis by (simp add: l)
  qed
  then have "filter (\<lambda>r. ?k < key r) (drop n rs) = drop n rs" by (simp add: filter_id_conv)
  ultimately show ?thesis by (metis append_Nil append_take_drop_id filter_append)
qed

locale keyset_list =
  fixes key :: "'row \<Rightarrow> int64" and ok :: "'t \<Rightarrow> bool" and rows :: "'t \<Rightarrow> 'row list"
    and page :: "int64 \<Rightarrow> int \<Rightarrow> 't \<Rightarrow> 'row list"
  assumes page_rows: "ok T \<Longrightarrow> 0 \<le> after \<Longrightarrow> 1 \<le> limit \<Longrightarrow>
      page after limit T = take (nat limit) (filter (\<lambda>r. after < key r) (rows T))"
    and rising: "ok T \<Longrightarrow> sorted_wrt (<) (map key (rows T))"
    and positive: "ok T \<Longrightarrow> r \<in> set (rows T) \<Longrightarrow> 0 < key r"
begin

lemma follow_beyond:
  assumes T: "ok T" and l: "1 \<le> limit" and a: "0 \<le> after"
    and n: "length (filter (\<lambda>r. after < key r) (rows T)) < n"
  shows "concat (follow n key limit (\<lambda>a. page a limit T) after) = filter (\<lambda>r. after < key r) (rows T)"
  using a n
proof (induction n arbitrary: after)
  case (Suc n)
  define rs where "rs = filter (\<lambda>r. after < key r) (rows T)"
  define m where "m = nat limit"
  have m: "0 < m" "int m = limit" using l by (simp_all add: m_def)
  have page: "page after limit T = take m rs" using page_rows [OF T Suc.prems(1) l] by (simp add: rs_def m_def)
  have rising': "sorted_wrt (<) (map key rs)"
    using rising [OF T] by (simp add: rs_def sorted_wrt_map sorted_wrt_filter)
  show ?case
  proof (cases "m \<le> length rs")
    case True
    define k where "k = key (last (take m rs))"
    have "take m rs \<noteq> []" using True m by auto
    then have "last (take m rs) \<in> set rs" using last_in_set in_set_takeD by metis
    then have k: "after < k" by (simp add: rs_def k_def)
    then have "filter (\<lambda>r. k < key r) (rows T) = filter (\<lambda>r. k < key r) rs"
      unfolding rs_def filter_filter by (intro filter_cong) auto
    also have "\<dots> = drop m rs" unfolding k_def by (rule take_filter_beyond [OF rising' m(1) True])
    finally have rest: "filter (\<lambda>r. k < key r) (rows T) = drop m rs" .
    have "length (drop m rs) < n" using Suc.prems(2) m(1) True by (simp add: rs_def [symmetric])
    with Suc.IH [of k] Suc.prems(1) k rest
    have "concat (follow n key limit (\<lambda>a. page a limit T) k) = drop m rs" by simp
    moreover have "int (length (take m rs)) = limit" using True m by simp
    ultimately show ?thesis by (simp add: page Let_def k_def rs_def [symmetric])
  next
    case False
    then have "int (length (take m rs)) \<noteq> limit" "take m rs = rs" using m by simp_all
    then show ?thesis by (simp add: page Let_def rs_def [symmetric])
  qed
qed simp

lemma follow_all:
  assumes "ok T" and "1 \<le> limit"
  shows "concat (follow (Suc (length (rows T))) key limit (\<lambda>a. page a limit T) 0) = rows T"
proof -
  have "filter (\<lambda>r. 0 < key r) (rows T) = rows T" using positive [OF assms(1)] by (simp add: filter_id_conv)
  with follow_beyond [OF assms, of 0 "Suc (length (rows T))"] show ?thesis by simp
qed

end

subsection \<open>The five queries\<close>

definition consistent :: "env \<Rightarrow> tables \<Rightarrow> bool" where
  "consistent E T \<longleftrightarrow> (\<exists>N. inv E T N)"

lemma sorted_key_strict:
  "tab_ok key n rs \<Longrightarrow> sorted_wrt (<) (map key (sort_key key (filter P rs)))"
  by (simp add: tab_ok_sorted) (auto simp: tab_ok_def sorted_wrt_map sorted_wrt_filter)

lemma filter_sort_key:
  fixes key :: "'a \<Rightarrow> int"
  shows "tab_ok key n rs \<Longrightarrow> filter Q (sort_key key (filter P rs)) = sort_key key (filter (\<lambda>x. P x \<and> Q x) rs)"
  by (simp add: tab_ok_sorted conj_commute)

lemma consistentE:
  assumes "consistent E T"
  obtains n m k c where "tab_ok k_id n (tasks T)" and "tab_ok c_id m (task_comments T)" and "tab_ok t_id k (teams T)"
    and "\<forall>r \<in> set (tasks T). task_ok T r"
  using assms by (auto simp: consistent_def inv_def tasks_ok_def comments_ok_def teams_ok_def)

definition task_rows :: "TaskFilter \<Rightarrow> tables \<Rightarrow> task_row list" where
  "task_rows f T = sel_task_list (f\<lparr>tf_AfterID := 0, tf_Limit := int (length (tasks T))\<rparr>) T"

definition task_page :: "TaskFilter \<Rightarrow> int64 \<Rightarrow> int \<Rightarrow> tables \<Rightarrow> task_row list" where
  "task_page f after limit T = sel_task_list (f\<lparr>tf_AfterID := after, tf_Limit := limit\<rparr>) T"

lemma task_rows_all: "task_rows f T = sort_key k_id (filter (task_filter_match (f\<lparr>tf_AfterID := 0\<rparr>)) (tasks T))"
proof -
  have m: "task_filter_match (f\<lparr>tf_AfterID := 0, tf_Limit := n\<rparr>) = task_filter_match (f\<lparr>tf_AfterID := 0\<rparr>)" for n
    by (simp add: task_filter_match_def fun_eq_iff)
  have "length (filter P (tasks T)) \<le> nat (int (length (tasks T)))" for P by simp
  then show ?thesis by (simp add: task_rows_def sel_task_list_def m)
qed

interpretation task_pages: keyset_list k_id "consistent E" "task_rows f" "task_page f" for E f
proof
  fix T assume T: "consistent E T"
  then obtain n where tab: "tab_ok k_id n (tasks T)" by (rule consistentE)
  then have pos: "0 < k_id r" if "r \<in> set (tasks T)" for r using that by (auto simp: tab_ok_def)
  show "sorted_wrt (<) (map k_id (task_rows f T))" unfolding task_rows_all by (rule sorted_key_strict [OF tab])
  show "0 < k_id r" if "r \<in> set (task_rows f T)" for r using that pos by (auto simp: task_rows_all)
  fix after limit :: int assume "0 \<le> after" "1 \<le> limit"
  have "filter (task_filter_match (f\<lparr>tf_AfterID := after, tf_Limit := limit\<rparr>)) (tasks T) =
      filter (\<lambda>r. task_filter_match (f\<lparr>tf_AfterID := 0\<rparr>) r \<and> after < k_id r) (tasks T)"
    using \<open>0 \<le> after\<close> pos by (intro filter_cong refl) (auto simp: task_filter_match_def)
  then show "task_page f after limit T = take (nat limit) (filter (\<lambda>r. after < k_id r) (task_rows f T))"
    by (simp add: task_page_def sel_task_list_def task_rows_all filter_sort_key [OF tab])
qed

definition comment_rows :: "CommentFilter \<Rightarrow> tables \<Rightarrow> comment_row list" where
  "comment_rows f T = sel_comment_list (f\<lparr>cf_AfterID := 0, cf_Limit := int (length (task_comments T))\<rparr>) T"

definition comment_page :: "CommentFilter \<Rightarrow> int64 \<Rightarrow> int \<Rightarrow> tables \<Rightarrow> comment_row list" where
  "comment_page f after limit T = sel_comment_list (f\<lparr>cf_AfterID := after, cf_Limit := limit\<rparr>) T"

lemma comment_rows_all:
  "comment_rows f T = sort_key c_id (filter (comment_filter_match (f\<lparr>cf_AfterID := 0\<rparr>)) (task_comments T))"
proof -
  have m: "comment_filter_match (f\<lparr>cf_AfterID := 0, cf_Limit := n\<rparr>) = comment_filter_match (f\<lparr>cf_AfterID := 0\<rparr>)" for n
    by (simp add: comment_filter_match_def fun_eq_iff)
  have "length (filter P (task_comments T)) \<le> nat (int (length (task_comments T)))" for P by simp
  then show ?thesis by (simp add: comment_rows_def sel_comment_list_def m)
qed

interpretation comment_pages: keyset_list c_id "consistent E" "comment_rows f" "comment_page f" for E f
proof
  fix T assume T: "consistent E T"
  then obtain n where tab: "tab_ok c_id n (task_comments T)" by (rule consistentE)
  then have pos: "0 < c_id r" if "r \<in> set (task_comments T)" for r using that by (auto simp: tab_ok_def)
  show "sorted_wrt (<) (map c_id (comment_rows f T))" unfolding comment_rows_all by (rule sorted_key_strict [OF tab])
  show "0 < c_id r" if "r \<in> set (comment_rows f T)" for r using that pos by (auto simp: comment_rows_all)
  fix after limit :: int assume "0 \<le> after" "1 \<le> limit"
  have "filter (comment_filter_match (f\<lparr>cf_AfterID := after, cf_Limit := limit\<rparr>)) (task_comments T) =
      filter (\<lambda>r. comment_filter_match (f\<lparr>cf_AfterID := 0\<rparr>) r \<and> after < c_id r) (task_comments T)"
    using \<open>0 \<le> after\<close> pos by (intro filter_cong refl) (auto simp: comment_filter_match_def)
  then show "comment_page f after limit T = take (nat limit) (filter (\<lambda>r. after < c_id r) (comment_rows f T))"
    by (simp add: comment_page_def sel_comment_list_def comment_rows_all filter_sort_key [OF tab])
qed

text \<open>The reports: teams, teams with recent tasks, orphaned tasks.\<close>

interpretation stats_pages: keyset_list t_id "consistent E" teams stats_page for E
proof
  fix T assume T: "consistent E T"
  then obtain k where tab: "tab_ok t_id k (teams T)" by (rule consistentE)
  show "sorted_wrt (<) (map t_id (teams T))" and "\<And>r. r \<in> set (teams T) \<Longrightarrow> 0 < t_id r"
    using tab by (auto simp: tab_ok_def)
  show "stats_page after limit T = take (nat limit) (filter (\<lambda>r. after < t_id r) (teams T))" for after limit
    by (simp add: stats_page_def tab_ok_sorted [OF tab])
qed

interpretation orphan_pages: keyset_list k_id "consistent E" "\<lambda>T. sort_key k_id (filter (is_orphan T) (tasks T))" sel_orphans
  for E
proof
  fix T assume T: "consistent E T"
  then obtain n where tab: "tab_ok k_id n (tasks T)" by (rule consistentE)
  show "sorted_wrt (<) (map k_id (sort_key k_id (filter (is_orphan T) (tasks T))))" by (rule sorted_key_strict [OF tab])
  show "0 < k_id r" if "r \<in> set (sort_key k_id (filter (is_orphan T) (tasks T)))" for r
    using that tab by (auto simp: tab_ok_def)
  show "sel_orphans after limit T =
      take (nat limit) (filter (\<lambda>r. after < k_id r) (sort_key k_id (filter (is_orphan T) (tasks T))))" for after limit
    by (simp add: sel_orphans_def filter_sort_key [OF tab])
qed

definition active_teams :: "env \<Rightarrow> int \<Rightarrow> tables \<Rightarrow> int64 list" where
  "active_teams E now T = sort (remdups (map k_team_id (recent_tasks E now T)))"

lemma filter_remdups_map: "remdups (map f (filter (\<lambda>x. P (f x)) xs)) = filter P (remdups (map f xs))"
  by (induction xs) auto

interpretation creator_pages: keyset_list "\<lambda>i. i" "consistent E" "active_teams E now"
    "\<lambda>after limit. page_teams E after limit now" for E now
proof
  fix T assume "consistent E T"
  then obtain N where I: "inv E T N" by (auto simp: consistent_def)
  show "sorted_wrt (<) (map (\<lambda>i. i) (active_teams E now T))" by (simp add: active_teams_def strict_sorted_iff)
  show "0 < i" if "i \<in> set (active_teams E now T)" for i
  proof -
    from that obtain k where "k \<in> set (tasks T)" "i = k_team_id k"
      by (auto simp: active_teams_def recent_tasks_def)
    with I have "i \<in> team_ids T" by (auto simp: inv_def tasks_ok_def task_ok_def)
    with I show ?thesis by (auto simp: inv_def teams_ok_def tab_ok_def team_ids_def)
  qed
  show "page_teams E after limit now T = take (nat limit) (filter (\<lambda>r. after < r) (active_teams E now T))" for after limit
    by (simp add: page_teams_def active_teams_def filter_sort filter_remdups_map)
qed

subsection \<open>The cursor of the top creators\<close>

text \<open>A page of that report is a list of teams, each with up to three rows; the handler finds the number of
  teams and the last one by watching the team id change.\<close>

lemma count_teams_block:
  assumes "xs \<noteq> []" and "\<forall>c \<in> set xs. tp_TeamID c = i" and "i \<noteq> lastTeam"
  shows "count_teams (xs @ ys) n lastTeam = count_teams ys (n + 1) i"
proof -
  have "count_teams (zs @ ys) k i = count_teams ys k i" if "\<forall>c \<in> set zs. tp_TeamID c = i" for zs k
    using that by (induction zs) auto
  with assms show ?thesis by (cases xs) auto
qed

lemma count_teams_blocks:
  assumes "\<forall>i \<in> set is. f i \<noteq> [] \<and> (\<forall>c \<in> set (f i). tp_TeamID c = i)" and "distinct (lastTeam # is)"
  shows "count_teams (concat (map f is)) n lastTeam = (n + int (length is), last (lastTeam # is))"
  using assms
proof (induction "is" arbitrary: n lastTeam)
  case (Cons i js)
  then show ?case using count_teams_block [of "f i" i lastTeam "concat (map f js)" n] by simp
qed simp

lemma team_top_block:
  assumes I: "inv E T N" and i: "i \<in> set (active_teams E now T)"
  shows "team_top E now T i \<noteq> [] \<and> (\<forall>c \<in> set (team_top E now T i). tp_TeamID c = i)"
proof -
  from i obtain k where k: "k \<in> set (recent_tasks E now T)" "k_team_id k = i" by (auto simp: active_teams_def)
  then have "k \<in> set (tasks T)" by (simp add: recent_tasks_def)
  with I k(2) have ti: "i \<in> team_ids T" by (auto simp: inv_def tasks_ok_def task_ok_def)
  have "k_created_by k \<in> set (ranked E now T i)" using k by (auto simp: ranked_def)
  then obtain u us where us: "ranked E now T i = u # us" by (cases "ranked E now T i") auto
  have "map (\<lambda>n. int n + 1) [0..<length (u # us)] = 1 # map (\<lambda>n. int n + 1) [1..<length (u # us)]"
    by (simp add: upt_rec)
  then have "filter (\<lambda>(rn, u). rn \<le> 3) (zip (map (\<lambda>n. int n + 1) [0..<length (u # us)]) (u # us)) \<noteq> []" by simp
  then have "team_top E now T i \<noteq> []"
    using team_top_rows [OF I ti, of now] by (metis (no_types, lifting) map_is_Nil_conv us)
  moreover have "\<forall>c \<in> set (team_top E now T i). tp_TeamID c = i" by (auto simp: team_top_def)
  ultimately show ?thesis ..
qed

subsection \<open>Properties\<close>



text \<open>The same for the comments of a task.\<close>

theorem comment_pages_cover:
  assumes "consistent E T" and "1 \<le> limit"
  shows "concat (follow (Suc (length (comment_rows f T))) c_id limit
      (\<lambda>after. sel_comment_list (f\<lparr>cf_AfterID := after, cf_Limit := limit\<rparr>) T) 0) =
    sort_key c_id (filter (comment_filter_match (f\<lparr>cf_AfterID := 0\<rparr>)) (task_comments T))"
  using comment_pages.follow_all [OF assms, of f] by (simp add: comment_page_def comment_rows_all)

theorem comment_pages_cover_witness:
  "let f = \<lparr>cf_TaskID = 1, cf_Limit = 20, cf_AfterID = 0\<rparr>
   in concat (follow (Suc (length (comment_rows f demo_tables))) c_id 1
       (\<lambda>after. sel_comment_list (f\<lparr>cf_AfterID := after, cf_Limit := 1\<rparr>) demo_tables) 0) =
      sort_key c_id (filter (comment_filter_match (f\<lparr>cf_AfterID := 0\<rparr>)) (task_comments demo_tables))"
  unfolding Let_def
  by (rule comment_pages_cover [where E = demo_env])
    (use demo_inv in \<open>auto simp: consistent_def demo_db_def\<close>)



end
