(* ===== verification/Cache_Protocol.thy ===== *)
theory Cache_Protocol
  imports Scenario
begin

text \<open>
  The list cache under concurrent requests. A list request reads the version, looks the entry up,
  reads the database on a miss and fills the entry under the version it read first; a write commits
  and then increments the version. The calls of different requests interleave freely, any of them
  may fail, entries may expire at any moment.

  A step of the relation \<open>cstep\<close> is one call of \<open>cache/tasks.go\<close> or one commit of the database; the
  steps are built from the same functions \<open>GetList\<close>, \<open>SetList\<close> and \<open>InvalidateTeam\<close> consist of. A
  request carries two ghost fields: whether its team was free of unannounced commits when it
  started, and the database states it has lived through.
\<close>

subsection \<open>The state\<close>

record list_request =
  rq_filter :: TaskFilter
  rq_version :: int64
  rq_missed :: bool
  rq_rows :: "Task list option"
  rq_clean :: bool
  rq_seen :: "tables list"

record 'r world =
  w_tbl :: tables
  w_redis :: 'r
  w_reqs :: "list_request list"
  w_stale :: "int64 \<Rightarrow> bool" \<comment> \<open>a commit has not been announced by an increment yet\<close>
  w_log :: "(list_request \<times> Task list) list" \<comment> \<open>requests answered, with their answers\<close>

definition answer :: "TaskFilter \<Rightarrow> tables \<Rightarrow> Task list" where
  "answer f T = map scan_task (sel_task_list f T)"

definition tables_utf8 :: "tables \<Rightarrow> bool" where
  "tables_utf8 T \<longleftrightarrow> (\<forall>k \<in> set (tasks T). task_utf8 (scan_task k))"

definition touches_only :: "int64 \<Rightarrow> tables \<Rightarrow> tables \<Rightarrow> bool" where
  "touches_only t T T' \<longleftrightarrow> (\<forall>f. tf_TeamID f \<noteq> t \<longrightarrow> answer f T' = answer f T)"

definition see :: "tables \<Rightarrow> list_request \<Rightarrow> list_request" where
  "see T q = q\<lparr>rq_seen := T # rq_seen q\<rparr>"

definition begin_request :: "'r world \<Rightarrow> TaskFilter \<Rightarrow> int64 \<Rightarrow> bool \<Rightarrow> list_request" where
  "begin_request w f v missed = \<lparr>rq_filter = f, rq_version = v, rq_missed = missed, rq_rows = None,
     rq_clean = (\<not> w_stale w (tf_TeamID f)), rq_seen = [w_tbl w]\<rparr>"

definition task_key :: "string \<Rightarrow> bool" where
  "task_key k \<longleftrightarrow> (\<exists>i. k = versionKey i) \<or> (\<exists>f v. k = listKey f v)"

text \<open>The keys of the cache only age; what else happens on the server does not matter.\<close>

definition tasks_aged :: "keys \<Rightarrow> keys \<Rightarrow> bool" where
  "tasks_aged V V' \<longleftrightarrow>
     (\<forall>k. task_key k \<longrightarrow> V' k = V k \<or> (\<exists>b. V k = Some (b, True) \<and> V' k = None))"

inductive cstep :: "'r redis \<Rightarrow> ('r \<Rightarrow> keys) \<Rightarrow> codec \<Rightarrow> duration \<Rightarrow> 'r world \<Rightarrow> 'r world \<Rightarrow> bool"
  for R view J ttl where
  begin_known: "filter_ok f \<Longrightarrow> cache_version R (tf_TeamID f) (w_redis w) = (Inr v, r') \<Longrightarrow>
    cstep R view J ttl w (w\<lparr>w_redis := r', w_reqs := begin_request w f v False # w_reqs w\<rparr>)"
| begin_unknown: "filter_ok f \<Longrightarrow> cache_version R (tf_TeamID f) (w_redis w) = (Inl e, r') \<Longrightarrow>
    cstep R view J ttl w (w\<lparr>w_redis := r', w_reqs := begin_request w f versionUnknown True # w_reqs w\<rparr>)"
| hit: "w_reqs w = xs @ q # ys \<Longrightarrow> \<not> rq_missed q \<Longrightarrow>
    cache_fetch R J (rq_filter q) (rq_version q) (w_redis w) = (Some ts, r') \<Longrightarrow>
    cstep R view J ttl w (w\<lparr>w_redis := r', w_reqs := xs @ ys, w_log := (q, ts) # w_log w\<rparr>)"
| miss: "w_reqs w = xs @ q # ys \<Longrightarrow> \<not> rq_missed q \<Longrightarrow>
    cache_fetch R J (rq_filter q) (rq_version q) (w_redis w) = (None, r') \<Longrightarrow>
    cstep R view J ttl w (w\<lparr>w_redis := r', w_reqs := xs @ q\<lparr>rq_missed := True\<rparr> # ys\<rparr>)"
| read_db: "w_reqs w = xs @ q # ys \<Longrightarrow> rq_missed q \<Longrightarrow> rq_rows q = None \<Longrightarrow>
    cstep R view J ttl w
      (w\<lparr>w_reqs := xs @ q\<lparr>rq_rows := Some (answer (rq_filter q) (w_tbl w))\<rparr> # ys\<rparr>)"
| fill: "w_reqs w = xs @ q # ys \<Longrightarrow> rq_rows q = Some ts \<Longrightarrow>
    SetList R J ttl (rq_filter q) (rq_version q) ts (w_redis w) = ((), r') \<Longrightarrow>
    cstep R view J ttl w (w\<lparr>w_redis := r', w_reqs := xs @ ys, w_log := (q, ts) # w_log w\<rparr>)"
| task_commit: "touches_only t (w_tbl w) T' \<Longrightarrow> tables_utf8 T' \<Longrightarrow>
    cstep R view J ttl w (w\<lparr>w_tbl := T', w_stale := (w_stale w)(t := True),
      w_reqs := map (see T') (w_reqs w)\<rparr>)"
| other_commit: "(\<And>f. answer f T' = answer f (w_tbl w)) \<Longrightarrow> tables_utf8 T' \<Longrightarrow>
    cstep R view J ttl w (w\<lparr>w_tbl := T', w_reqs := map (see T') (w_reqs w)\<rparr>)"
| announce: "rd_incr R (versionKey t) (w_redis w) = (Inr n, r') \<Longrightarrow>
    cstep R view J ttl w (w\<lparr>w_redis := snd (InvalidateTeam R t (w_redis w)),
      w_stale := (w_stale w)(t := False)\<rparr>)"
| announce_failed: "rd_incr R (versionKey t) (w_redis w) = (Inl e, r') \<Longrightarrow>
    cstep R view J ttl w (w\<lparr>w_redis := snd (InvalidateTeam R t (w_redis w))\<rparr>)"
| other_keys: "tasks_aged (view (w_redis w)) (view r') \<Longrightarrow>
    cstep R view J ttl w (w\<lparr>w_redis := r'\<rparr>)"

text \<open>The server starts without keys of the cache.\<close>

definition cinit :: "('r \<Rightarrow> keys) \<Rightarrow> tables \<Rightarrow> 'r \<Rightarrow> 'r world \<Rightarrow> bool" where
  "cinit view T r w \<longleftrightarrow> tables_utf8 T \<and> (\<forall>k. task_key k \<longrightarrow> view r k = None) \<and>
     w = \<lparr>w_tbl = T, w_redis = r, w_reqs = [], w_stale = (\<lambda>_. False), w_log = []\<rparr>"

inductive creach :: "'r redis \<Rightarrow> ('r \<Rightarrow> keys) \<Rightarrow> codec \<Rightarrow> duration \<Rightarrow> 'r world \<Rightarrow> bool"
  for R view J ttl where
  start: "cinit view T r w \<Longrightarrow> creach R view J ttl w"
| step: "creach R view J ttl w \<Longrightarrow> cstep R view J ttl w w' \<Longrightarrow> creach R view J ttl w'"

subsection \<open>Versions\<close>

definition cur :: "keys \<Rightarrow> int64 \<Rightarrow> int64 \<Rightarrow> bool" where
  "cur V t n \<longleftrightarrow> 0 \<le> n \<and> in_int64 n \<and> counter V (versionKey t) n False"

definition versions_ok :: "keys \<Rightarrow> bool" where
  "versions_ok V \<longleftrightarrow> (\<forall>t. \<exists>n. cur V t n)"

lemma cur_unique: "cur V t n \<Longrightarrow> cur V t m \<Longrightarrow> n = m"
  by (auto simp: cur_def counter_def dest: FormatInt_inj)

lemma task_keys [simp]: "task_key (versionKey i)" "task_key (listKey f v)"
  by (auto simp: task_key_def)

lemma aged_tasks: "aged V V' \<Longrightarrow> tasks_aged V V'"
  by (simp add: aged_def tasks_aged_def)

lemma tasks_aged_version:
  assumes "versions_ok V" and "tasks_aged V V'"
  shows "V' (versionKey t) = V (versionKey t)"
proof -
  from assms(1) obtain n where "cur V t n" by (auto simp: versions_ok_def)
  with assms(2) [unfolded tasks_aged_def, rule_format, of "versionKey t"] show ?thesis
    by (auto simp: cur_def counter_def)
qed

lemma tasks_aged_cur: "versions_ok V \<Longrightarrow> tasks_aged V V' \<Longrightarrow> cur V' t n \<longleftrightarrow> cur V t n"
  by (simp add: cur_def counter_def tasks_aged_version)

lemma tasks_aged_versions: "versions_ok V \<Longrightarrow> tasks_aged V V' \<Longrightarrow> versions_ok V'"
  using tasks_aged_cur [of V V'] by (simp add: versions_ok_def)

lemma tasks_aged_list: "tasks_aged V V' \<Longrightarrow> V' (listKey f v) = Some e \<Longrightarrow> V (listKey f v) = Some e"
  unfolding tasks_aged_def by (metis task_keys(2) option.distinct(1))

subsection \<open>The invariant\<close>

definition entries_ok :: "codec \<Rightarrow> keys \<Rightarrow> tables \<Rightarrow> (int64 \<Rightarrow> bool) \<Rightarrow> bool" where
  "entries_ok J V T st \<longleftrightarrow> (\<forall>f v b x n. filter_ok f \<and> 0 \<le> v \<and> V (listKey f v) = Some (b, x) \<and>
     cur V (tf_TeamID f) n \<longrightarrow>
     v \<le> n \<and> (v = n \<and> \<not> st (tf_TeamID f) \<longrightarrow> unmarshal J b = Inr (answer f T)))"

definition seen_answer :: "list_request \<Rightarrow> Task list \<Rightarrow> bool" where
  "seen_answer q ts \<longleftrightarrow> (\<exists>T \<in> set (rq_seen q). ts = answer (rq_filter q) T)"

text \<open>Rows a request holds: what the database said during the request, and what it still says as
  long as the version is current and nothing was committed unannounced.\<close>

definition rows_ok :: "keys \<Rightarrow> tables \<Rightarrow> (int64 \<Rightarrow> bool) \<Rightarrow> list_request \<Rightarrow> bool" where
  "rows_ok V T st q \<longleftrightarrow> (\<forall>ts. rq_rows q = Some ts \<longrightarrow> list_all task_utf8 ts \<and> seen_answer q ts \<and>
     (cur V (tf_TeamID (rq_filter q)) (rq_version q) \<and> \<not> st (tf_TeamID (rq_filter q)) \<longrightarrow>
        ts = answer (rq_filter q) T))"

definition entry_seen :: "codec \<Rightarrow> keys \<Rightarrow> list_request \<Rightarrow> bool" where
  "entry_seen J V q \<longleftrightarrow> (\<forall>b x. V (listKey (rq_filter q) (rq_version q)) = Some (b, x) \<longrightarrow>
     (\<exists>ts. unmarshal J b = Inr ts \<and> seen_answer q ts))"

definition req_ok :: "codec \<Rightarrow> keys \<Rightarrow> tables \<Rightarrow> (int64 \<Rightarrow> bool) \<Rightarrow> list_request \<Rightarrow> bool" where
  "req_ok J V T st q \<longleftrightarrow> filter_ok (rq_filter q) \<and> T \<in> set (rq_seen q) \<and> rows_ok V T st q \<and>
     (0 \<le> rq_version q \<or> rq_missed q) \<and>
     (\<forall>n. cur V (tf_TeamID (rq_filter q)) n \<longrightarrow> rq_version q \<le> n) \<and>
     (rq_clean q \<and> 0 \<le> rq_version q \<longrightarrow> entry_seen J V q)"

text \<open>What another request is about to fill in is an answer this one may be given.\<close>

definition pair_ok :: "list_request \<Rightarrow> list_request \<Rightarrow> bool" where
  "pair_ok q q' \<longleftrightarrow> rq_clean q \<and> 0 \<le> rq_version q \<and> rq_filter q' = rq_filter q \<and>
     rq_version q' = rq_version q \<longrightarrow> (\<forall>ts. rq_rows q' = Some ts \<longrightarrow> seen_answer q ts)"

definition log_seen :: "(list_request \<times> Task list) list \<Rightarrow> bool" where
  "log_seen L \<longleftrightarrow> (\<forall>(q, ts) \<in> set L. rq_clean q \<longrightarrow> seen_answer q ts)"

definition winv :: "codec \<Rightarrow> keys \<Rightarrow> 'r world \<Rightarrow> bool" where
  "winv J V w \<longleftrightarrow> tables_utf8 (w_tbl w) \<and> versions_ok V \<and> entries_ok J V (w_tbl w) (w_stale w) \<and>
     (\<forall>q \<in> set (w_reqs w). req_ok J V (w_tbl w) (w_stale w) q) \<and>
     (\<forall>q \<in> set (w_reqs w). \<forall>q' \<in> set (w_reqs w). pair_ok q q') \<and> log_seen (w_log w)"

lemma winv_redis [simp]:
  "winv J V (w\<lparr>w_redis := r\<rparr>) = winv J V w"
  "winv J V (w\<lparr>w_redis := r, w_reqs := qs\<rparr>) = winv J V (w\<lparr>w_reqs := qs\<rparr>)"
  "winv J V (w\<lparr>w_redis := r, w_reqs := qs, w_log := L\<rparr>) = winv J V (w\<lparr>w_reqs := qs, w_log := L\<rparr>)"
  "winv J V (w\<lparr>w_redis := r, w_stale := st\<rparr>) = winv J V (w\<lparr>w_stale := st\<rparr>)"
  by (simp_all add: winv_def)

subsection \<open>Preservation\<close>

lemma winv_aged:
  assumes I: "winv J V w" and a: "tasks_aged V V'"
  shows "winv J V' w"
proof -
  from I have v: "versions_ok V" by (simp add: winv_def)
  note cur = tasks_aged_cur [OF v a] and list = tasks_aged_list [OF a]
  have "entries_ok J V' T st" if "entries_ok J V T st" for T st
    using that unfolding entries_ok_def cur by (blast dest: list)
  moreover have "req_ok J V' T st q" if "req_ok J V T st q" for T st q
    using that unfolding req_ok_def rows_ok_def entry_seen_def cur by (blast dest: list)
  ultimately show ?thesis
    using I tasks_aged_versions [OF v a] by (simp add: winv_def)
qed

lemma winv_answered:
  assumes "winv J V w" and "w_reqs w = xs @ q # ys" and "rq_clean q \<Longrightarrow> seen_answer q ts"
  shows "winv J V (w\<lparr>w_reqs := xs @ ys, w_log := (q, ts) # w_log w\<rparr>)"
  using assms by (auto simp: winv_def log_seen_def)

lemma winv_replace:
  assumes "winv J V w" and "w_reqs w = xs @ q # ys" and "req_ok J V (w_tbl w) (w_stale w) q'"
    and "\<forall>p \<in> set (xs @ ys). pair_ok p q' \<and> pair_ok q' p" and "pair_ok q' q'"
  shows "winv J V (w\<lparr>w_reqs := xs @ q' # ys\<rparr>)"
  using assms by (auto simp: winv_def)

lemma seen_answer_upd [simp]:
  "seen_answer (q\<lparr>rq_missed := m\<rparr>) = seen_answer q" "seen_answer (q\<lparr>rq_rows := rs\<rparr>) = seen_answer q"
  by (simp_all add: seen_answer_def fun_eq_iff)

lemma winv_missed:
  assumes I: "winv J V w" and reqs: "w_reqs w = xs @ q # ys"
  shows "winv J V (w\<lparr>w_reqs := xs @ q\<lparr>rq_missed := True\<rparr> # ys\<rparr>)"
  by (rule winv_replace [OF I reqs])
    (use I reqs in \<open>auto simp: winv_def req_ok_def rows_ok_def entry_seen_def pair_ok_def\<close>)

lemma answer_utf8: "tables_utf8 T \<Longrightarrow> list_all task_utf8 (answer f T)"
  by (auto simp: tables_utf8_def answer_def sel_task_list_def list_all_iff dest!: in_set_takeD)

lemma winv_read_db:
  assumes I: "winv J V w" and reqs: "w_reqs w = xs @ q # ys"
  shows "winv J V (w\<lparr>w_reqs := xs @ q\<lparr>rq_rows := Some (answer (rq_filter q) (w_tbl w))\<rparr> # ys\<rparr>)"
proof -
  let ?q = "q\<lparr>rq_rows := Some (answer (rq_filter q) (w_tbl w))\<rparr>"
  have seen: "seen_answer p (answer (rq_filter p) (w_tbl w))" if "p \<in> set (w_reqs w)" for p
    using I that by (auto simp: winv_def req_ok_def seen_answer_def)
  have q: "req_ok J V (w_tbl w) (w_stale w) q" "tables_utf8 (w_tbl w)"
    using I reqs by (auto simp: winv_def)
  show ?thesis
  proof (rule winv_replace [OF I reqs])
    show "req_ok J V (w_tbl w) (w_stale w) ?q"
      using q seen [of q] answer_utf8 [OF q(2)] reqs
      by (auto simp: req_ok_def rows_ok_def entry_seen_def)
    show "\<forall>p \<in> set (xs @ ys). pair_ok p ?q \<and> pair_ok ?q p"
    proof
      fix p assume "p \<in> set (xs @ ys)"
      then have p: "p \<in> set (w_reqs w)" by (auto simp: reqs)
      then have "pair_ok q p" using I reqs by (auto simp: winv_def)
      with seen [OF p] show "pair_ok p ?q \<and> pair_ok ?q p" by (auto simp: pair_ok_def)
    qed
    show "pair_ok ?q ?q" using seen [of q] reqs by (auto simp: pair_ok_def)
  qed
qed

lemma winv_commit:
  assumes I: "winv J V w" and u: "tables_utf8 T'"
    and same: "\<And>f. \<not> st (tf_TeamID f) \<Longrightarrow>
      \<not> w_stale w (tf_TeamID f) \<and> answer f T' = answer f (w_tbl w)"
  shows "winv J V (w\<lparr>w_tbl := T', w_stale := st, w_reqs := map (see T') (w_reqs w)\<rparr>)"
proof -
  have seen: "seen_answer q ts \<Longrightarrow> seen_answer (see T' q) ts" for q ts
    by (auto simp: seen_answer_def see_def)
  have entries: "entries_ok J V T' st"
    using I same unfolding winv_def entries_ok_def by metis
  have req: "req_ok J V T' st (see T' q)" if q: "req_ok J V (w_tbl w) (w_stale w) q" for q
  proof -
    have "rows_ok V T' st (see T' q)"
      using q same [of "rq_filter q"] seen by (auto simp: req_ok_def rows_ok_def see_def)
    moreover have "entry_seen J V (see T' q)" if "entry_seen J V q"
      using that seen unfolding entry_seen_def by (fastforce simp: see_def)
    ultimately show ?thesis using q by (auto simp: req_ok_def see_def)
  qed
  have pair: "pair_ok (see T' q) (see T' q')" if "pair_ok q q'" for q q'
    using that seen by (auto simp: pair_ok_def see_def)
  show ?thesis using I u entries req pair by (auto simp: winv_def)
qed

lemma winv_entry:
  assumes I: "winv J V w" and q: "q \<in> set (w_reqs w)" and v: "0 \<le> rq_version q"
    and ts: "rq_rows q = Some ts" and raw: "unmarshal J raw = Inr ts"
  shows "winv J (V(listKey (rq_filter q) (rq_version q) \<mapsto> (raw, x))) w" (is "winv J ?V w")
proof -
  from I q have q_ok: "req_ok J V (w_tbl w) (w_stale w) q" by (simp add: winv_def)
  have cur: "cur ?V = cur V" by (simp add: fun_eq_iff cur_def counter_def)
  have key: "listKey f u = listKey (rq_filter q) (rq_version q) \<longleftrightarrow> f = rq_filter q \<and> u = rq_version q"
    if "filter_ok f" for f u
    using listKey_inj [OF that] q_ok by (auto simp: req_ok_def)
  have "entries_ok J ?V (w_tbl w) (w_stale w)"
    unfolding entries_ok_def cur
    using I q_ok ts raw key by (auto simp: winv_def entries_ok_def req_ok_def rows_ok_def)
  moreover have "req_ok J ?V (w_tbl w) (w_stale w) p" if p: "p \<in> set (w_reqs w)" for p
  proof -
    have p_ok: "req_ok J V (w_tbl w) (w_stale w) p" "pair_ok p q" using I q p by (simp_all add: winv_def)
    then have "entry_seen J ?V p" if "rq_clean p" "0 \<le> rq_version p"
      using that ts raw key [of "rq_filter p" "rq_version p"]
      by (auto simp: entry_seen_def req_ok_def pair_ok_def)
    with p_ok show ?thesis by (simp add: req_ok_def rows_ok_def cur)
  qed
  moreover have "versions_ok ?V" using I by (simp add: winv_def versions_ok_def cur)
  ultimately show ?thesis using I by (simp add: winv_def)
qed

lemma winv_bump:
  assumes I: "winv J V w" and n: "cur V t n" and n1: "in_int64 (n + 1)"
    and st: "\<And>t'. t' \<noteq> t \<Longrightarrow> st t' = w_stale w t'"
  shows "winv J (V(versionKey t \<mapsto> (FormatInt (n + 1), False))) (w\<lparr>w_stale := st\<rparr>)" (is "winv J ?V _")
proof -
  from n have n0: "0 \<le> n" by (simp add: cur_def)
  have other: "cur ?V t' m \<longleftrightarrow> cur V t' m" if "t' \<noteq> t" for t' m
    using that by (simp add: cur_def counter_def)
  have own: "cur ?V t m \<longleftrightarrow> m = n + 1" for m
    using n0 n1 by (auto simp: cur_def counter_def dest: FormatInt_inj)
  have "versions_ok ?V"
    using I other own unfolding winv_def versions_ok_def by metis
  moreover have "entries_ok J ?V (w_tbl w) st"
    unfolding entries_ok_def
  proof (intro allI impI)
    fix f v b y m
    assume *: "filter_ok f \<and> 0 \<le> v \<and> ?V (listKey f v) = Some (b, y) \<and> cur ?V (tf_TeamID f) m"
    show "v \<le> m \<and> (v = m \<and> \<not> st (tf_TeamID f) \<longrightarrow> unmarshal J b = Inr (answer f (w_tbl w)))"
    proof (cases "tf_TeamID f = t")
      case True
      with * I n own have "v \<le> n" "m = n + 1" by (auto simp: winv_def entries_ok_def)
      then show ?thesis by simp
    next
      case False
      from I have "entries_ok J V (w_tbl w) (w_stale w)" by (simp add: winv_def)
      from this [unfolded entries_ok_def, rule_format, of f v b y m] * st [OF False] other [OF False]
      show ?thesis by simp
    qed
  qed
  moreover have "req_ok J ?V (w_tbl w) st q" if "q \<in> set (w_reqs w)" for q
  proof -
    have q: "req_ok J V (w_tbl w) (w_stale w) q" using I that by (simp add: winv_def)
    have seen: "entry_seen J ?V q = entry_seen J V q" by (simp add: entry_seen_def)
    show ?thesis
    proof (cases "tf_TeamID (rq_filter q) = t")
      case True
      with q n have "rq_version q \<le> n" by (simp add: req_ok_def)
      with q True own seen show ?thesis by (auto simp: req_ok_def rows_ok_def)
    next
      case False
      with q st other seen show ?thesis by (simp add: req_ok_def rows_ok_def)
    qed
  qed
  ultimately show ?thesis using I by (simp add: winv_def)
qed

lemma winv_begin:
  assumes I: "winv J V w" and f: "filter_ok f"
    and v: "cur V (tf_TeamID f) v \<or> v = versionUnknown \<and> missed"
  shows "winv J V (w\<lparr>w_reqs := begin_request w f v missed # w_reqs w\<rparr>)"
proof -
  let ?q = "begin_request w f v missed"
  have le: "v \<le> n" if "cur V (tf_TeamID f) n" for n
    using v
  proof
    assume "cur V (tf_TeamID f) v"
    from cur_unique [OF this that] show ?thesis by simp
  next
    assume "v = versionUnknown \<and> missed"
    with that show ?thesis by (simp add: versionUnknown_def cur_def)
  qed
  have "entry_seen J V ?q" if "0 \<le> v" and "\<not> w_stale w (tf_TeamID f)"
    using I f v that
    by (fastforce simp: winv_def entries_ok_def entry_seen_def begin_request_def seen_answer_def
        versionUnknown_def)
  then have q: "req_ok J V (w_tbl w) (w_stale w) ?q"
    using f v le by (auto simp: req_ok_def rows_ok_def begin_request_def cur_def)
  have "pair_ok ?q p" if "p \<in> set (w_reqs w)" for p
    using I v that
    by (auto simp: winv_def req_ok_def rows_ok_def pair_ok_def begin_request_def seen_answer_def
        versionUnknown_def)
  moreover have "pair_ok p ?q" for p by (simp add: pair_ok_def begin_request_def)
  ultimately show ?thesis using I q by (auto simp: winv_def)
qed

subsection \<open>The calls\<close>

lemma cache_version_cur:
  assumes R: "redis_ok R view" and v: "versions_ok (view r)" and c: "cache_version R t r = (res, r')"
  shows "tasks_aged (view r) (view r')" and "res = Inr n \<Longrightarrow> cur (view r') t n"
proof -
  obtain x r1 where g: "rd_get R (versionKey t) r = (x, r1)" by (cases "rd_get R (versionKey t) r")
  with c have "r1 = r'" by (auto simp: cache_version_def split: sum.splits option.splits)
  with R g have "aged (view r) (view r')"
    and x: "\<And>y. x = Inr y \<Longrightarrow> y = map_option fst (view r' (versionKey t))"
    by (auto simp: redis_ok_def get_law_def)
  then show aged: "tasks_aged (view r) (view r')" by (simp add: aged_tasks)
  show "cur (view r') t n" if "res = Inr n"
  proof -
    from tasks_aged_versions [OF v aged] obtain m where m: "cur (view r') t m"
      by (auto simp: versions_ok_def)
    with c g x that have "n = m"
      by (auto simp: cache_version_def cur_def counter_def ParseInt_FormatInt
          split: sum.splits option.splits)
    with m show ?thesis by simp
  qed
qed

lemma cache_fetch_seen:
  assumes R: "redis_ok R view" and c: "cache_fetch R J f v r = (res, r')"
  shows "tasks_aged (view r) (view r')"
    and "res = Some ts \<Longrightarrow> \<exists>b x. view r (listKey f v) = Some (b, x) \<and> unmarshal J b = Inr ts"
proof -
  obtain x r1 where g: "rd_get R (listKey f v) r = (x, r1)" by (cases "rd_get R (listKey f v) r")
  with c have "r1 = r'" by (auto simp: cache_fetch_def split: sum.splits option.splits)
  with R g have "aged (view r) (view r')"
    and x: "\<And>y. x = Inr y \<Longrightarrow> y = map_option fst (view r' (listKey f v))"
    by (auto simp: redis_ok_def get_law_def)
  then show aged: "tasks_aged (view r) (view r')" by (simp add: aged_tasks)
  assume "res = Some ts"
  with c g x obtain b y where "view r' (listKey f v) = Some (b, y)" "unmarshal J b = Inr ts"
    by (auto simp: cache_fetch_def split: sum.splits option.splits)
  with tasks_aged_list [OF aged] show "\<exists>b x. view r (listKey f v) = Some (b, x) \<and> unmarshal J b = Inr ts"
    by blast
qed

lemma winv_SetList:
  assumes R: "redis_ok R view" and J: "codec_ok J" and I: "winv J (view r) w"
    and q: "q \<in> set (w_reqs w)" and ts: "rq_rows q = Some ts"
    and c: "SetList R J ttl (rq_filter q) (rq_version q) ts r = ((), r')"
  shows "winv J (view r') w"
proof (cases "0 \<le> rq_version q \<and> (\<exists>raw. marshal J ts = Inr raw)")
  case True
  then obtain raw where raw: "marshal J ts = Inr raw" and v: "0 \<le> rq_version q" by blast
  let ?k = "listKey (rq_filter q) (rq_version q)"
  obtain res where "rd_set R ?k raw ttl r = (res, r')"
    using c raw v by (cases "rd_set R ?k raw ttl r") (simp add: SetList_def)
  with R obtain V where V: "aged (view r) V" "view r' = V(?k \<mapsto> (raw, ttl > 0)) \<or> view r' = V"
    by (fastforce simp: redis_ok_def set_law_def)
  have "winv J V w" using winv_aged [OF I aged_tasks [OF V(1)]] .
  moreover have "unmarshal J raw = Inr ts"
    using I q ts raw J by (auto simp: winv_def req_ok_def rows_ok_def codec_ok_def)
  ultimately show ?thesis using V(2) winv_entry [OF _ q v ts] by auto
next
  case False
  with c I show ?thesis by (auto simp: SetList_def split: if_splits sum.splits)
qed

lemma winv_announce:
  assumes R: "redis_ok R view" and I: "winv J (view r) w" and c: "rd_incr R (versionKey t) r = (res, r')"
  shows "winv J (view r') w" and "res = Inr n \<Longrightarrow> winv J (view r') (w\<lparr>w_stale := (w_stale w)(t := False)\<rparr>)"
proof -
  from R c obtain V where V: "aged (view r) V" and law: "\<And>n x. counter V (versionKey t) n x \<Longrightarrow>
      (if in_int64 (n + 1)
       then res = Inr (n + 1) \<and> view r' = V(versionKey t \<mapsto> (FormatInt (n + 1), x)) \<or>
            (\<exists>e. res = Inl e) \<and> (view r' = V \<or> view r' = V(versionKey t \<mapsto> (FormatInt (n + 1), x)))
       else (\<exists>e. res = Inl e) \<and> view r' = V)"
    unfolding redis_ok_def incr_law_def by meson
  have IV: "winv J V w" using winv_aged [OF I aged_tasks [OF V]] .
  then obtain m where m: "cur V t m" unfolding winv_def versions_ok_def by blast
  then have "counter V (versionKey t) m False" by (simp add: cur_def)
  from law [OF this] have cases: "view r' = V \<and> (\<forall>n. res \<noteq> Inr n) \<or>
      in_int64 (m + 1) \<and> view r' = V(versionKey t \<mapsto> (FormatInt (m + 1), False))"
    by (auto split: if_splits)
  have bump: "winv J (view r') (w\<lparr>w_stale := st\<rparr>)"
    if "view r' \<noteq> V \<or> (\<exists>n. res = Inr n)" "\<And>t'. t' \<noteq> t \<Longrightarrow> st t' = w_stale w t'" for st
    using winv_bump [OF IV m _ that(2)] cases that(1) by auto
  show "winv J (view r') w"
    using bump [of "w_stale w"] cases IV by (cases "view r' = V") auto
  show "winv J (view r') (w\<lparr>w_stale := (w_stale w)(t := False)\<rparr>)" if "res = Inr n"
    using bump that by auto
qed

subsection \<open>Reachable states\<close>

lemma winv_init: "cinit view T r w \<Longrightarrow> winv J (view (w_redis w)) w"
  by (auto simp: cinit_def winv_def versions_ok_def cur_def counter_def entries_ok_def log_seen_def
      in_int64_def)

lemma winv_step:
  assumes R: "redis_ok R view" and J: "codec_ok J" and "cstep R view J ttl w w'"
    and I: "winv J (view (w_redis w)) w"
  shows "winv J (view (w_redis w')) w'"
  using assms(3)
proof cases
  case (begin_known f v r')
  from I have v: "versions_ok (view (w_redis w))" by (simp add: winv_def)
  note c = cache_version_cur [OF R v begin_known(3)]
  from winv_begin [OF winv_aged [OF I c(1)] begin_known(2), of v False] c(2) begin_known(1)
  show ?thesis by simp
next
  case (begin_unknown f e r')
  from I have v: "versions_ok (view (w_redis w))" by (simp add: winv_def)
  note c = cache_version_cur(1) [OF R v begin_unknown(3)]
  from winv_begin [OF winv_aged [OF I c] begin_unknown(2), of versionUnknown True] begin_unknown(1)
  show ?thesis by simp
next
  case (hit xs q ys ts r')
  note c = cache_fetch_seen [OF R hit(4)]
  have "seen_answer q ts" if "rq_clean q"
  proof -
    from I hit(2) have q: "req_ok J (view (w_redis w)) (w_tbl w) (w_stale w) q" by (simp add: winv_def)
    from c(2) obtain b x where "view (w_redis w) (listKey (rq_filter q) (rq_version q)) = Some (b, x)"
      "unmarshal J b = Inr ts" by blast
    with q that hit(3) show ?thesis by (auto simp: req_ok_def entry_seen_def)
  qed
  from winv_answered [OF winv_aged [OF I c(1)] hit(2) this] hit(1) show ?thesis by simp
next
  case (miss xs q ys r')
  from winv_missed [OF winv_aged [OF I cache_fetch_seen(1) [OF R miss(4)]] miss(2)] miss(1)
  show ?thesis by simp
next
  case (read_db xs q ys)
  from winv_read_db [OF I read_db(2)] read_db(1) show ?thesis by simp
next
  case (fill xs q ys ts r')
  then have q: "q \<in> set (w_reqs w)" by simp
  have "seen_answer q ts" using I q fill(3) by (auto simp: winv_def req_ok_def rows_ok_def)
  with winv_answered [OF winv_SetList [OF R J I q fill(3,4)] fill(2)] fill(1) show ?thesis by simp
next
  case (task_commit t T')
  have "winv J (view (w_redis w)) (w\<lparr>w_tbl := T', w_stale := (w_stale w)(t := True),
      w_reqs := map (see T') (w_reqs w)\<rparr>)"
    by (rule winv_commit [OF I task_commit(3)])
      (use task_commit(2) in \<open>simp add: touches_only_def split: if_splits\<close>)
  with task_commit(1) show ?thesis by simp
next
  case (other_commit T')
  have "winv J (view (w_redis w)) (w\<lparr>w_tbl := T', w_stale := w_stale w,
      w_reqs := map (see T') (w_reqs w)\<rparr>)"
    by (rule winv_commit [OF I other_commit(3)]) (use other_commit(2) in simp)
  moreover have "w\<lparr>w_tbl := T', w_stale := w_stale w, w_reqs := map (see T') (w_reqs w)\<rparr> = w'"
    unfolding other_commit(1) by simp
  ultimately show ?thesis using other_commit(1) by simp
next
  case (announce t n r')
  from winv_announce(2) [OF R I announce(2)] announce show ?thesis by (simp add: InvalidateTeam_def)
next
  case (announce_failed t e r')
  from winv_announce(1) [OF R I announce_failed(2)] announce_failed show ?thesis
    by (simp add: InvalidateTeam_def)
next
  case (other_keys r')
  from winv_aged [OF I other_keys(2)] other_keys(1) show ?thesis by simp
qed

lemma creach_winv:
  "creach R view J ttl w \<Longrightarrow> redis_ok R view \<Longrightarrow> codec_ok J \<Longrightarrow> winv J (view (w_redis w)) w"
  by (induction rule: creach.induct) (auto intro: winv_init winv_step)

subsection \<open>The commits of the services\<close>

text \<open>The transactions of \<open>service/tasks.go\<close> are commits of the kind \<open>task_commit\<close> describes.\<close>

lemma touches_only_append:
  "k_team_id k = t \<Longrightarrow> touches_only t T (T\<lparr>tasks := tasks T @ [k], task_history := hs\<rparr>)"
  by (simp add: touches_only_def answer_def sel_task_list_def task_filter_match_def)

lemma touches_only_map:
  assumes "\<And>r. r \<in> set (tasks T) \<Longrightarrow> g r = r \<or> k_team_id r = t \<and> k_team_id (g r) = t"
  shows "touches_only t T (T\<lparr>tasks := map g (tasks T), task_history := hs\<rparr>)"
  unfolding touches_only_def
proof (intro allI impI)
  fix f :: TaskFilter assume f: "tf_TeamID f \<noteq> t"
  have "filter (task_filter_match f) (map g rs) = filter (task_filter_match f) rs"
    if "\<And>r. r \<in> set rs \<Longrightarrow> g r = r \<or> k_team_id r = t \<and> k_team_id (g r) = t" for rs
    using that
  proof (induction rs)
    case (Cons r rs)
    have "g r = r \<or> \<not> task_filter_match f r \<and> \<not> task_filter_match f (g r)"
      using Cons.prems [of r] f by (auto simp: task_filter_match_def)
    with Cons show ?case by auto
  qed simp
  with assms show "answer f (T\<lparr>tasks := map g (tasks T), task_history := hs\<rparr>) = answer f T"
    by (simp add: answer_def sel_task_list_def)
qed

lemma create_task_tx_touches:
  assumes "create_task_tx E t s = (Inr u, s')"
  shows "touches_only (task_TeamID t) (tbl s) (tbl s')"
  using assms
proof (rule create_task_tx_Inr)
  fix s1 i assume "TaskRepo_Create E t s = (Inr i, s1)" and s': "tbl s' = tbl s1"
  then show ?thesis by (auto elim!: TaskRepo_Create_Inr intro!: touches_only_append)
qed

lemma update_task_tx_touches:
  assumes I: "db_inv E s" and tx: "update_task_tx E actorID taskID inp s = (Inr u, s')"
  shows "touches_only (task_TeamID u) (tbl s) (tbl s')"
  using tx
proof (rule update_task_tx_Inr)
  fix old s1
  assume old: "find (\<lambda>r. k_id r = taskID) (tasks (tbl s)) = Some old" and s1: "tbl s1 = tbl s"
    and upd: "TaskRepo_Update E actorID (apply_input (scan_task old) inp) s1 = (Inr u, s')"
  let ?t = "apply_input (scan_task old) inp"
  from find_Some_iff_mem [OF old] have old_in: "old \<in> set (tasks (tbl s))" and id: "k_id old = taskID"
    by simp_all
  have uniq: "r = old" if "r \<in> set (tasks (tbl s))" and "k_id r = taskID" for r
    using inv_find_task [OF I that(1)] that(2) old by simp
  from upd show ?thesis
  proof (rule TaskRepo_Update_Inr)
    fix old' w now g hs r
    let ?g = "\<lambda>r. if k_id r = task_ID ?t then set_task_row ?t (completed_after old' ?t w) now r else r"
    assume tbl: "tbl s' = (tbl s1)\<lparr>tasks := updated_tasks ?t (completed_after old' ?t w) now (tasks (tbl s1)),
           task_history := task_history (tbl s1) @ hs\<rparr>"
      and r: "find (\<lambda>r. k_id r = task_ID ?t) (tasks (tbl s')) = Some r" "u = scan_task r"
    have moved: "?g x = x \<or> k_team_id x = k_team_id old \<and> k_team_id (?g x) = k_team_id old"
      if "x \<in> set (tasks (tbl s))" for x
      using uniq [OF that] id by auto
    have "tasks (tbl s') = map ?g (tasks (tbl s))" by (simp add: tbl s1 updated_tasks_def)
    from r(1) [unfolded this] obtain x where x: "r = ?g x" "x \<in> set (tasks (tbl s))"
      by (rule find_map_obtain)
    have "k_id r = taskID" using find_Some_iff_mem [OF r(1)] id by simp
    with x id have "k_id x = taskID" by (simp split: if_splits)
    with uniq x(2) have "x = old" by simp
    with x(1) have "task_TeamID u = k_team_id old" using r(2) by (simp add: scan_task_def)
    moreover have "touches_only (k_team_id old) (tbl s) (tbl s')"
      unfolding tbl s1 updated_tasks_def by (rule touches_only_map) (rule moved)
    ultimately show ?thesis by simp
  qed
qed

subsection \<open>A run\<close>

definition demo_filter :: TaskFilter where
  "demo_filter = \<lparr>tf_Status = None, tf_AssigneeID = None, tf_TeamID = 1, tf_Limit = 20, tf_AfterID = 0\<rparr>"

definition demo_codec :: codec where
  "demo_codec = \<lparr>marshal = \<lambda>ts. if ts = [scan_task demo_task] then Inr ''x'' else Inl (OtherErr []),
     unmarshal = \<lambda>b. if b = ''x'' then Inr [scan_task demo_task] else Inl (OtherErr [])\<rparr>"

definition demo_world :: "keys world" where
  "demo_world = \<lparr>w_tbl = demo_tables, w_redis = (\<lambda>_. None), w_reqs = [], w_stale = (\<lambda>_. False), w_log = []\<rparr>"

definition demo_list_request :: list_request where
  "demo_list_request = begin_request demo_world demo_filter 0 False"

definition demo_filled :: "keys world" where
  "demo_filled = demo_world\<lparr>w_redis := [listKey demo_filter 0 \<mapsto> (''x'', True)],
     w_log := [(demo_list_request\<lparr>rq_missed := True, rq_rows := Some [scan_task demo_task]\<rparr>, [scan_task demo_task])]\<rparr>"

definition demo_hit :: "keys world" where
  "demo_hit = demo_filled\<lparr>w_log := (demo_list_request, [scan_task demo_task]) # w_log demo_filled\<rparr>"

lemma demo_codec_ok: "codec_ok demo_codec"
  by (simp add: codec_ok_def demo_codec_def)

lemma demo_answer: "answer demo_filter demo_tables = [scan_task demo_task]"
  by code_simp

lemma demo_begin:
  assumes "creach map_redis (\<lambda>V. V) J ttl w" and "w_redis w (versionKey 1) = None"
  shows "creach map_redis (\<lambda>V. V) J ttl (w\<lparr>w_reqs := begin_request w demo_filter 0 False # w_reqs w\<rparr>)"
proof -
  have "cache_version map_redis (tf_TeamID demo_filter) (w_redis w) = (Inr 0, w_redis w)"
    using assms(2) by (simp add: cache_version_def map_redis_def demo_filter_def)
  from creach.step [OF assms(1) cstep.begin_known [OF _ this]] show ?thesis
    by (simp add: filter_ok_def demo_filter_def)
qed

lemma demo_reach_filled: "creach map_redis (\<lambda>V. V) demo_codec 60 demo_filled"
proof -
  let ?reach = "creach map_redis (\<lambda>V. V) demo_codec 60" and ?q = demo_list_request
  have "ValidString ''a''" "ValidString ''d''" "ValidString ''todo''" by code_simp+
  then have "tables_utf8 demo_tables"
    by (simp add: tables_utf8_def demo_tables_def demo_task_def task_utf8_def scan_task_def TaskStatusTodo_def)
  then have "?reach demo_world" by (intro creach.start [where T = demo_tables and r = "\<lambda>_. None"]) (simp add: cinit_def demo_world_def)
  from demo_begin [OF this] have r1: "?reach (demo_world\<lparr>w_reqs := [?q]\<rparr>)"
    by (simp add: demo_world_def demo_list_request_def)
  have "cache_fetch map_redis demo_codec (rq_filter ?q) (rq_version ?q) (\<lambda>_. None) = (None, \<lambda>_. None)"
    by (simp add: cache_fetch_def map_redis_def)
  with creach.step [OF r1 cstep.miss [where xs = "[]" and ys = "[]" and q = ?q]]
  have r2: "?reach (demo_world\<lparr>w_reqs := [?q\<lparr>rq_missed := True\<rparr>]\<rparr>)"
    by (simp add: demo_world_def demo_list_request_def begin_request_def)
  from creach.step [OF r2 cstep.read_db [where xs = "[]" and ys = "[]" and q = "?q\<lparr>rq_missed := True\<rparr>"]]
  have r3: "?reach (demo_world\<lparr>w_reqs := [?q\<lparr>rq_missed := True, rq_rows := Some [scan_task demo_task]\<rparr>]\<rparr>)"
    using demo_answer by (simp add: demo_world_def demo_list_request_def begin_request_def)
  have "SetList map_redis demo_codec 60 demo_filter 0 [scan_task demo_task] (\<lambda>_. None) =
      ((), [listKey demo_filter 0 \<mapsto> (''x'', True)])"
    by (simp add: SetList_def map_redis_def demo_codec_def)
  with creach.step [OF r3 cstep.fill [where xs = "[]" and ys = "[]"
        and q = "?q\<lparr>rq_missed := True, rq_rows := Some [scan_task demo_task]\<rparr>"]]
  show ?thesis by (simp add: demo_filled_def demo_world_def demo_list_request_def begin_request_def)
qed

lemma demo_reach_hit: "creach map_redis (\<lambda>V. V) demo_codec 60 demo_hit"
proof -
  let ?V = "[listKey demo_filter 0 \<mapsto> (''x'', True)]"
  from demo_begin [OF demo_reach_filled]
  have r1: "creach map_redis (\<lambda>V. V) demo_codec 60 (demo_filled\<lparr>w_reqs := [demo_list_request]\<rparr>)"
    by (simp add: demo_filled_def demo_world_def demo_list_request_def begin_request_def)
  have "cache_fetch map_redis demo_codec demo_filter 0 ?V = (Some [scan_task demo_task], ?V)"
    by (simp add: cache_fetch_def map_redis_def demo_codec_def)
  with creach.step [OF r1 cstep.hit [where xs = "[]" and ys = "[]" and q = demo_list_request]]
  show ?thesis
    by (simp add: demo_hit_def demo_filled_def demo_world_def demo_list_request_def begin_request_def)
qed

subsection \<open>Properties\<close>

text \<open>C2. Coherence of the list cache. Whatever the interleaving of requests and writes, whatever calls
  fail and whenever entries expire: a list request that starts when every committed write of its
  team has been announced is answered with what the database said at some moment during that
  request, be the answer taken from the cache or from the database.\<close>

theorem cached_lists_are_current:
  assumes "redis_ok R view" and "codec_ok J" and "creach R view J ttl w"
    and "(q, ts) \<in> set (w_log w)" and "rq_clean q"
  shows "\<exists>T \<in> set (rq_seen q). ts = map scan_task (sel_task_list (rq_filter q) T)"
  using creach_winv [OF assms(3,1,2)] assms(4,5)
  by (auto simp: winv_def log_seen_def seen_answer_def answer_def)

theorem cached_lists_are_current_witness:
  "creach map_redis (\<lambda>V. V) demo_codec 60 demo_hit \<and> (demo_list_request, [scan_task demo_task]) \<in> set (w_log demo_hit) \<and>
   rq_clean demo_list_request \<and> (\<exists>T \<in> set (rq_seen demo_list_request).
     [scan_task demo_task] = map scan_task (sel_task_list (rq_filter demo_list_request) T))"
proof -
  have log: "(demo_list_request, [scan_task demo_task]) \<in> set (w_log demo_hit)" by (simp add: demo_hit_def)
  have clean: "rq_clean demo_list_request" by (simp add: demo_list_request_def begin_request_def demo_world_def)
  from cached_lists_are_current [OF map_redis_ok demo_codec_ok demo_reach_hit log clean] demo_reach_hit log clean
  show ?thesis by blast
qed

text \<open>Keys of the cache. Two different list requests of the HTTP layer never share an entry, nor
  do two versions of one, and no entry collides with a version counter.\<close>

theorem list_keys_distinct:
  assumes "filter_ok f" and "filter_ok g"
  shows "(listKey f v = listKey g w \<longleftrightarrow> f = g \<and> v = w) \<and> listKey f v \<noteq> versionKey i"
  using listKey_inj [OF assms] by auto

theorem list_keys_distinct_witness:
  "listKey demo_filter 1 \<noteq> listKey (demo_filter\<lparr>tf_AssigneeID := Some 1\<rparr>) 1"
proof -
  have ok: "filter_ok demo_filter" "filter_ok (demo_filter\<lparr>tf_AssigneeID := Some 1\<rparr>)"
    by (simp_all add: filter_ok_def demo_filter_def)
  have "demo_filter \<noteq> demo_filter\<lparr>tf_AssigneeID := Some 1\<rparr>" by (simp add: demo_filter_def)
  with list_keys_distinct [OF ok] show ?thesis by blast
qed

end
