(* ===== verification/Service_Properties.thy ===== *)
theory Service_Properties
  imports System Paging Cache_Protocol
begin

text \<open>
  What the services promise, read off the tables: each property says what a call that succeeded has
  done, under which permission, and what a call that failed has left alone. The theories of the services
  and repositories carry the proofs; here their facts meet.
\<close>

subsection \<open>Permissions\<close>

text \<open>The outcome of the two checks as a function of the tables.\<close>

definition team_verdict :: "tables \<Rightarrow> int64 \<Rightarrow> int64 \<Rightarrow> TeamRole \<Rightarrow> gerr option" where
  "team_verdict T actorID teamID least =
     (if actorID \<notin> user_ids T then Some (Wrap ''find actor'' ErrNotFound)
      else if is_global_admin T actorID then None
      else case team_role_of T teamID actorID of
             None \<Rightarrow> Some ErrNotFound
           | Some role \<Rightarrow> if AtLeast role least then None else Some ErrForbidden)"

text \<open>C16. The authorizer decides permissions and nothing else decides them: with a store that answers,
  \<open>RequireTeamRole\<close> passes exactly when the actor is a global admin or holds at least the wanted role
  in the team, answers "forbidden" exactly for a member of too low a role and "not found" for a
  stranger, so that strangers do not learn which teams exist; and it leaves the tables as they are.\<close>

theorem authorizer_decides:
  assumes "db_inv E s" and "\<forall>n. fault E n = NoFault"
  shows "\<exists>s'. RequireTeamRole E actorID teamID least s =
      ((case team_verdict (tbl s) actorID teamID least of None \<Rightarrow> Inr () | Some e \<Rightarrow> Inl e), s') \<and>
    tbl s' = tbl s \<and>
    (team_verdict (tbl s) actorID teamID least = None \<longleftrightarrow> may_act (tbl s) actorID teamID least)"
proof -
  obtain x s' where r: "RequireTeamRole E actorID teamID least s = (x, s')" by fastforce
  have "x = (case team_verdict (tbl s) actorID teamID least of None \<Rightarrow> Inr () | Some e \<Rightarrow> Inl e)"
    using RequireTeamRole_decides [OF assms, of actorID teamID least]
    unfolding r fst_conv team_verdict_def by (simp split: option.split)
  moreover have "team_verdict (tbl s) actorID teamID least = None \<longleftrightarrow> may_act (tbl s) actorID teamID least"
    by (auto simp: team_verdict_def may_act_def split: option.splits)
  ultimately show ?thesis using r read_onlyD [OF RequireTeamRole_ro r] by (intro exI [of _ s']) simp
qed

theorem authorizer_decides_witness:
  "(\<exists>s'. RequireTeamRole demo_env 2 1 TeamRoleAdmin demo_db = (Inl ErrForbidden, s')) \<and>
   (\<exists>s'. RequireTeamRole demo_env 4 1 TeamRoleMember demo_db = (Inl ErrNotFound, s')) \<and>
   (\<exists>s'. RequireTeamRole demo_env 3 1 TeamRoleAdmin demo_db = (Inr (), s'))"
proof -
  have nf: "\<forall>n. fault demo_env n = NoFault" by (simp add: demo_env_def)
  have v: "team_verdict demo_tables 2 1 TeamRoleAdmin = Some ErrForbidden"
    "team_verdict demo_tables 4 1 TeamRoleMember = Some ErrNotFound"
    "team_verdict demo_tables 3 1 TeamRoleAdmin = None"
    by (code_simp, code_simp, code_simp)
  from authorizer_decides [OF demo_inv nf, of 2 1 TeamRoleAdmin] authorizer_decides [OF demo_inv nf, of 4 1 TeamRoleMember]
    authorizer_decides [OF demo_inv nf, of 3 1 TeamRoleAdmin]
  show ?thesis by (auto simp: demo_db_def v)
qed

subsection \<open>Invitations\<close>

text \<open>What an invitation leaves: the new member and the email that says so, together.\<close>

definition invited :: "env \<Rightarrow> int64 \<Rightarrow> int64 \<Rightarrow> string \<Rightarrow> tables \<Rightarrow> tables \<Rightarrow> bool" where
  "invited E actorID teamID email T T' \<longleftrightarrow> may_act T actorID teamID TeamRoleAdmin \<and>
     (\<exists>u m r. u \<in> set (users T) \<and> collate E (u_email u) = collate E email \<and>
        (teamID, u_id u) \<notin> member_pairs T \<and>
        m_team_id m = teamID \<and> m_user_id m = u_id u \<and> m_role m = TeamRoleMember \<and>
        cl_Message (scan_claimed r) = invite_message email teamID \<and>
        o_status r = status_pending \<and> o_attempts r = 0 \<and> o_next_retry_at r = None \<and>
        T' = T\<lparr>team_members := team_members T @ [m], email_outbox := email_outbox T @ [r]\<rparr>)"

text \<open>C4. An invitation is all or nothing, whatever fails at any statement, the commit included: either
  the tables are untouched and the caller gets an error, or an admin of the team has added one
  registered user who was not a member, and the email that tells them waits in the outbox. There is
  never a member without the email or an email without the member; a nil error means the second.\<close>

theorem invite_is_atomic:
  assumes I: "db_inv E s" and inv: "Teams_Invite E actorID teamID email s = (res, s')"
  shows "tbl s' = tbl s \<and> isl res \<or> invited E actorID teamID email (tbl s) (tbl s')"
proof -
  obtain x1 s1 where role: "RequireTeamRole E actorID teamID TeamRoleAdmin s = (x1, s1)" by fastforce
  obtain x2 s2 where find: "UserRepo_ByEmail E email s1 = (x2, s2)" by fastforce
  note ro = read_onlyD [OF RequireTeamRole_ro role] read_onlyD [OF UserRepo_ByEmail_ro find]
  show ?thesis
  proof (cases "(\<exists>e. x1 = Inl e) \<or> (\<exists>e. x2 = Inl e)")
    case True
    with inv role find ro show ?thesis
      by (auto simp: Teams_Invite_def go_try_def split: sum.splits)
  next
    case False
    then obtain u where x: "x1 = Inr ()" "x2 = Inr u" by (cases x1; cases x2) auto
    with inv role find have tx: "tx_do E (invite_tx E teamID (user_ID u) email) s2 = (res, s')"
      by (simp add: Teams_Invite_def go_try_def)
    have act: "may_act (tbl s) actorID teamID TeamRoleAdmin" using RequireTeamRole_Inr [OF I] role x(1) by simp
    from find x(2) obtain r where r: "r \<in> set (users (tbl s))" "collate E (u_email r) = collate E email"
      "u_id r = user_ID u" using ro by (auto simp: UserRepo_ByEmail_Inr dest!: find_Some_iff_mem)
    have eff: "invited E actorID teamID email (tbl s) (tbl s3)"
      if "invite_tx E teamID (user_ID u) email (s2\<lparr>stmt := Suc (stmt s2)\<rparr>) = (Inr v, s3)" for v s3
      using that
    proof (rule invite_tx_Inr)
      fix m q
      assume "m_team_id m = teamID" "m_user_id m = user_ID u" "m_role m = TeamRoleMember"
        "(teamID, user_ID u) \<notin> member_pairs (tbl (s2\<lparr>stmt := Suc (stmt s2)\<rparr>))"
        "o_status q = status_pending" "o_attempts q = 0" "o_next_retry_at q = None"
        "cl_Message (scan_claimed q) = invite_message email teamID"
        "tbl s3 = (tbl (s2\<lparr>stmt := Suc (stmt s2)\<rparr>))\<lparr>team_members :=
           team_members (tbl (s2\<lparr>stmt := Suc (stmt s2)\<rparr>)) @ [m],
           email_outbox := email_outbox (tbl (s2\<lparr>stmt := Suc (stmt s2)\<rparr>)) @ [q]\<rparr>"
      with act r ro show ?thesis
        unfolding invited_def by (intro conjI exI [of _ r] exI [of _ m] exI [of _ q]) simp_all
    qed
    show ?thesis
    proof (cases res)
      case (Inl e)
      with tx_do_atomic [OF tx] eff ro show ?thesis by auto
    next
      case (Inr v)
      with tx eff show ?thesis by (auto simp: tx_do_Inr)
    qed
  qed
qed

theorem invite_is_atomic_witness:
  "case Teams_Invite demo_env 1 1 ''u4'' demo_db of (res, s') \<Rightarrow>
     res = Inr () \<and> invited demo_env 1 1 ''u4'' demo_tables (tbl s')"
proof -
  obtain res s' where i: "Teams_Invite demo_env 1 1 ''u4'' demo_db = (res, s')" by fastforce
  have "fst (Teams_Invite demo_env 1 1 ''u4'' demo_db) = Inr ()" by code_simp
  with i invite_is_atomic [OF demo_inv i] show ?thesis by (simp add: demo_db_def)
qed

subsection \<open>Tasks\<close>

text \<open>An edit of a task: the new row and the entries it adds to the history.\<close>

definition edited :: "int64 \<Rightarrow> TaskInput \<Rightarrow> task_row \<Rightarrow> task_row \<Rightarrow> history_row list \<Rightarrow> bool" where
  "edited actorID inp old new hs \<longleftrightarrow>
     k_id new = k_id old \<and> k_team_id new = k_team_id old \<and> k_created_by new = k_created_by old \<and>
     k_created_at new = k_created_at old \<and> k_title new = ti_Title inp \<and>
     k_description new = Some (ti_Description inp) \<and> k_status new = ti_Status inp \<and>
     k_assignee_id new = ti_AssigneeID inp \<and>
     (\<exists>w. k_completed_at new =
        (if ti_Status inp \<noteq> TaskStatusDone then None
         else if k_status old = TaskStatusDone then map_option timestamp_round (k_completed_at old)
         else Some (timestamp_round w))) \<and>
     (\<exists>g. \<forall>h \<in> set hs. h_task_id h = k_id old \<and> h_changed_by h = actorID \<and> h_change_group_id h = g \<and>
        h_field h \<in> set tracked_fields) \<and>
     (\<forall>f \<in> set tracked_fields. field_changes f hs =
        (if field_value old f = field_value new f then [] else [(field_value old f, field_value new f)]))"

lemma edited_update:
  assumes "change_rows (k_id old) actorID g (task_changes old (apply_input (scan_task old) inp)) hs"
  shows "edited actorID inp old
    (set_task_row (apply_input (scan_task old) inp) (completed_after old (apply_input (scan_task old) inp) w) now old) hs"
proof -
  let ?t = "apply_input (scan_task old) inp"
  let ?new = "set_task_row ?t (completed_after old ?t w) now old"
  have "\<forall>h \<in> set hs. h_task_id h = k_id old \<and> h_changed_by h = actorID \<and> h_change_group_id h = g \<and>
      h_field h \<in> set tracked_fields"
    using assms by (auto elim!: change_rows_set dest: task_changes_fields)
  moreover have "field_changes f hs =
      (if field_value old f = field_value ?new f then [] else [(field_value old f, field_value ?new f)])"
    if "f \<in> set tracked_fields" for f
    using field_changes_rows [OF assms, of f] task_changes_field [OF that, of old ?t "completed_after old ?t w" now]
    by (simp add: Let_def)
  moreover have "\<exists>w. k_completed_at ?new =
        (if ti_Status inp \<noteq> TaskStatusDone then None
         else if k_status old = TaskStatusDone then map_option timestamp_round (k_completed_at old)
         else Some (timestamp_round w))"
    by (auto simp: completed_after_def)
  ultimately show ?thesis unfolding edited_def by auto
qed

text \<open>C5. A task update that succeeds did exactly what was asked and logged exactly what it did: the
  actor was a member of the task's team (or a global admin), the assignee is a member of it, that one
  row took the four given values with the completion time following the status, and the history
  gained, in one group under the actor's name, one entry per field that really changed, from its old
  value to its new one. Team, creator and all other rows stay, the answer is the new row, and the
  cached lists of that team are invalidated.\<close>

theorem task_update_exact:
  assumes I: "db_inv E s" and upd: "Tasks_Update E R actorID taskID inp (s, r) = (Inr t, s', r')"
  shows "\<exists>old new hs. old \<in> set (tasks (tbl s)) \<and> k_id old = taskID \<and>
    may_act (tbl s) actorID (k_team_id old) TeamRoleMember \<and>
    (\<forall>a. ti_AssigneeID inp = Some a \<longrightarrow> (k_team_id old, a) \<in> member_pairs (tbl s)) \<and>
    edited actorID inp old new hs \<and> t = scan_task new \<and>
    tbl s' = (tbl s)\<lparr>tasks := map (\<lambda>x. if k_id x = taskID then new else x) (tasks (tbl s)),
      task_history := task_history (tbl s) @ hs\<rparr> \<and>
    r' = snd (InvalidateTeam R (k_team_id old) r)"
proof -
  let ?s = "s\<lparr>stmt := Suc (stmt s)\<rparr>"
  from upd obtain s1 where tx: "update_task_tx E actorID taskID inp ?s = (Inr t, s1)"
    and s': "tbl s' = tbl s1" and r': "r' = snd (InvalidateTeam R (task_TeamID t) r)"
    by (auto simp: Tasks_Update_def go_try_Inr on_db_Inr on_cache_Inr ret_def tx_do_Inr)
  from tx show ?thesis
  proof (rule update_task_tx_Inr)
    fix old s2
    assume old: "find (\<lambda>r. k_id r = taskID) (tasks (tbl ?s)) = Some old"
      and s2: "tbl s2 = tbl ?s"
      and act: "db_inv E ?s \<Longrightarrow> may_act (tbl ?s) actorID (k_team_id old) TeamRoleMember"
      and asg: "\<And>a. ti_AssigneeID inp = Some a \<Longrightarrow> (k_team_id old, a) \<in> member_pairs (tbl ?s)"
      and up: "TaskRepo_Update E actorID (apply_input (scan_task old) inp) s2 = (Inr t, s1)"
    let ?t = "apply_input (scan_task old) inp"
    from find_Some_iff_mem [OF old] have mem: "old \<in> set (tasks (tbl s))" and id: "k_id old = taskID" by simp_all
    from I have dist: "distinct (map k_id (tasks (tbl s)))"
      by (auto simp: inv_def tasks_ok_def dest: tab_ok_distinct)
    from up show ?thesis
    proof (rule TaskRepo_Update_Inr)
      fix old' w now g hs row
      assume *: "find (\<lambda>r. k_id r = task_ID ?t) (tasks (tbl s2)) = Some old'"
        "history_rows (n_history (cnt s2)) (task_ID ?t) actorID g (task_changes old' ?t) hs"
        "tbl s1 = (tbl s2)\<lparr>tasks := updated_tasks ?t (completed_after old' ?t w) now (tasks (tbl s2)),
           task_history := task_history (tbl s2) @ hs\<rparr>"
        "find (\<lambda>r. k_id r = task_ID ?t) (tasks (tbl s1)) = Some row" "t = scan_task row"
      have o': "old' = old" using *(1) old s2 id by simp
      let ?new = "set_task_row ?t (completed_after old ?t w) now old"
      have rows: "updated_tasks ?t (completed_after old ?t w) now (tasks (tbl s)) =
          map (\<lambda>x. if k_id x = taskID then ?new else x) (tasks (tbl s))"
        unfolding updated_tasks_def
        by (rule map_cong) (auto simp: id dest: distinct_keys_eq [OF dist _ mem])
      have new: "row = ?new"
        using *(4) unfolding *(3) o' s2 by (auto simp: rows id elim!: find_map_obtain split: if_splits)
      then have "task_TeamID t = k_team_id old" using *(5) by (simp add: scan_task_def)
      moreover have "edited actorID inp old ?new hs"
        by (rule edited_update) (use history_rows_changes [OF *(2)] o' in simp)
      moreover have "tbl s' = (tbl s)\<lparr>tasks := map (\<lambda>x. if k_id x = taskID then ?new else x) (tasks (tbl s)),
          task_history := task_history (tbl s) @ hs\<rparr>"
        using *(3) s' s2 o' rows by simp
      ultimately show ?thesis
        using mem id act I asg r' *(5) new by (intro exI [of _ old] exI [of _ ?new] exI [of _ hs]) simp
    qed
  qed
qed

theorem task_update_exact_witness:
  "case Tasks_Update demo_env map_redis 2 1 demo_input (demo_db, \<lambda>_. None) of (res, s', V) \<Rightarrow>
     (\<exists>t. res = Inr t) \<and> (\<exists>new hs. edited 2 demo_input demo_task new hs \<and>
       tasks (tbl s') = [new] \<and> task_history (tbl s') = task_history demo_tables @ hs) \<and>
     V (versionKey 1) = Some (''1'', False)"
proof -
  obtain res s' V where u: "Tasks_Update demo_env map_redis 2 1 demo_input (demo_db, \<lambda>_. None) = (res, s', V)"
    by (rule prod_cases3)
  have "\<not> isl (fst (Tasks_Update demo_env map_redis 2 1 demo_input (demo_db, \<lambda>_. None)))" by code_simp
  with u obtain t where t: "res = Inr t" by (cases res) auto
  have one: "FormatInt 1 = ''1''" by code_simp
  from task_update_exact [OF demo_inv u [unfolded t]] show ?thesis
    unfolding u t
    by (auto simp: demo_db_def demo_tables_def demo_task_def InvalidateTeam_def map_redis_def in_int64_def one)
qed

subsection \<open>Comments\<close>



subsection \<open>Accounts\<close>

text \<open>What is used of \<open>bcrypt\<close>: a hash accepts the password it was made from.\<close>

definition bcrypt_ok :: "(string \<Rightarrow> int \<Rightarrow> gerr + string) \<Rightarrow> (string \<Rightarrow> string \<Rightarrow> bool) \<Rightarrow> bool" where
  "bcrypt_ok genpw cmppw \<longleftrightarrow> (\<forall>pw c h. genpw pw c = Inr h \<longrightarrow> cmppw h pw)"

text \<open>C17. Registration, login and authentication fit together: a user who has registered logs in with the
  same password and any spelling of the address the database takes for the same, and the token
  identifies, until it expires, the user id the registration returned, a plain user's.\<close>

theorem registered_user_logs_in:
  assumes nf: "\<forall>n. fault E n = NoFault" and bc: "bcrypt_ok genpw cmppw"
    and reg: "Auth_Register E genpw cost email name pw s = (Inr u, s')"
    and col: "collate E email' = collate E email" and jwt: "jwt_ok J"
    and id: "in_int64 (su_ID u)" and tok: "Issue J cfg t0 (su_ID u) = Inr raw"
    and fresh: "now < jwt_date J (t0 + ic_TTL cfg)"
  shows "\<exists>s''. Auth_Login E cmppw (Issue J cfg t0) email' pw s' = (Inr raw, s'') \<and>
    Parse J cfg now raw = Inr \<lparr>pr_UserID = su_ID u\<rparr> \<and> su_Role u = RoleUser \<and>
    tbl s'' = tbl s'"
  using reg
proof (rule Auth_Register_Inr)
  fix h
  let ?r = "\<lparr>u_id = n_users (cnt s), u_email = email, u_password_hash = h,
        u_name = name, u_role = RoleUser, u_created_at = current_timestamp (clock E (stmt s))\<rparr>"
  assume h: "genpw pw cost = Inr h"
    and u: "u = \<lparr>su_Email = email, su_Name = name, su_Role = RoleUser, su_ID = n_users (cnt s)\<rparr>"
    and new: "\<forall>r \<in> set (users (tbl s)). collate E (u_email r) \<noteq> collate E email"
    and s': "tbl s' = (tbl s)\<lparr>users := users (tbl s) @ [?r]\<rparr>"
  have "find (\<lambda>r. collate E (u_email r) = collate E email') (users (tbl s')) = Some ?r"
    using new col by (simp add: s' find_last)
  with nf have look: "UserRepo_ByEmail E email' s' =
      (Inr \<lparr>user_CreatedAt = u_created_at ?r, user_Email = u_email ?r, user_Name = u_name ?r,
            user_PasswordHash = u_password_hash ?r, user_Role = u_role ?r, user_ID = u_id ?r\<rparr>, s'\<lparr>stmt := Suc (stmt s')\<rparr>)"
    by (simp add: UserRepo_ByEmail_Inr)
  have "cmppw h pw" using bc h by (simp add: bcrypt_ok_def)
  with look tok u have "Auth_Login E cmppw (Issue J cfg t0) email' pw s' = (Inr raw, s'\<lparr>stmt := Suc (stmt s')\<rparr>)"
    by (simp add: Auth_Login_def go_try_def lift_result_def ret_def)
  then show ?thesis using Issue_Parse [OF jwt id tok fresh] u by simp
qed

theorem registered_user_logs_in_witness:
  "let s = demo_db\<lparr>cnt := (cnt demo_db)\<lparr>n_users := 42\<rparr>\<rparr>; cfg = \<lparr>ic_Secret = demo_secret, ic_TTL = 60\<rparr>
   in case Auth_Register demo_env (\<lambda>pw c. Inr pw) 10 ''new'' ''n'' ''pw'' s of (res, s') \<Rightarrow>
        (\<exists>u. res = Inr u \<and> su_ID u = 42) \<and>
        (\<exists>s''. Auth_Login demo_env (=) (Issue demo_jwt cfg 0) ''new'' ''pw'' s' = (Inr ''t'', s'')) \<and>
        Parse demo_jwt cfg 59 ''t'' = Inr \<lparr>pr_UserID = 42\<rparr>"
proof -
  let ?s = "demo_db\<lparr>cnt := (cnt demo_db)\<lparr>n_users := 42\<rparr>\<rparr>" and ?cfg = "\<lparr>ic_Secret = demo_secret, ic_TTL = 60\<rparr>"
  obtain u s' where reg: "Auth_Register demo_env (\<lambda>pw c. Inr pw) 10 ''new'' ''n'' ''pw'' ?s = (Inr u, s')" and u: "su_ID u = 42"
    by (simp add: Auth_Register_def go_try_def lift_result_def UserRepo_Create_def sql_insert_user_def exec_def
        driver_call_def ret_def demo_env_def demo_db_def demo_tables_def demo_user_def Let_def)
  have i: "Issue demo_jwt ?cfg 0 (su_ID u) = Inr ''t''"
    by (simp add: u Issue_def demo_jwt_def issued_claims_def demo_claims_def FormatInt_42)
  have nf: "\<forall>n. fault demo_env n = NoFault" by (simp add: demo_env_def)
  have bc: "bcrypt_ok (\<lambda>pw c. Inr pw) (=)" by (simp add: bcrypt_ok_def)
  have "in_int64 (su_ID u)" "(59::int) < jwt_date demo_jwt (0 + ic_TTL ?cfg)"
    by (simp_all add: u in_int64_def demo_jwt_def)
  from registered_user_logs_in [OF nf bc reg refl demo_jwt_ok this(1) i this(2)] reg u show ?thesis
    by (auto simp: Let_def)
qed

subsection \<open>Reports\<close>

text \<open>\<open>v\<close> stands above \<open>u\<close> among a team's creators: more tasks, or as many and a smaller id.\<close>

definition above :: "env \<Rightarrow> int \<Rightarrow> tables \<Rightarrow> int64 \<Rightarrow> int64 \<Rightarrow> int64 \<Rightarrow> bool" where
  "above E now T i v u \<longleftrightarrow> created_cnt E now T i v > created_cnt E now T i u \<or>
     created_cnt E now T i v = created_cnt E now T i u \<and> v < u"

text \<open>In a list sorted by an asymmetric relation an element's position counts those that stand above it.\<close>

lemma sorted_wrt_above:
  assumes "sorted_wrt P xs" and "distinct xs" and "n < length xs" and asym: "\<And>a b. P a b \<Longrightarrow> \<not> P b a"
  shows "card {v \<in> set xs. P v (xs ! n)} = n"
proof -
  have "{v \<in> set xs. P v (xs ! n)} = set (take n xs)"
  proof
    show "{v \<in> set xs. P v (xs ! n)} \<subseteq> set (take n xs)"
    proof
      fix v assume "v \<in> {v \<in> set xs. P v (xs ! n)}"
      then obtain j where j: "j < length xs" "v = xs ! j" "P v (xs ! n)" by (auto simp: in_set_conv_nth)
      have "j < n"
        using sorted_wrt_nth_less [OF assms(1), of n j] asym j by (metis not_less_iff_gr_or_eq)
      then show "v \<in> set (take n xs)" using j assms(3) by (auto simp: in_set_conv_nth)
    qed
    show "set (take n xs) \<subseteq> {v \<in> set xs. P v (xs ! n)}"
    proof
      fix v assume v: "v \<in> set (take n xs)"
      then obtain j where "j < n" "v = xs ! j" by (auto simp: in_set_conv_nth)
      with sorted_wrt_nth_less [OF assms(1), of j n] assms(3) in_set_takeD [OF v]
      show "v \<in> {v \<in> set xs. P v (xs ! n)}" by simp
    qed
  qed
  then show ?thesis using assms(2,3) by (simp add: distinct_card)
qed

lemma ranked_position:
  assumes "n < length (ranked E now T i)"
  shows "card {v. created_cnt E now T i v > 0 \<and> above E now T i v (ranked E now T i ! n)} = n"
proof -
  have "sorted_wrt (above E now T i) (ranked E now T i)"
    by (rule sorted_wrt_mono_rel [OF _ ranked_order]) (simp add: above_def)
  moreover have "above E now T i a b \<Longrightarrow> \<not> above E now T i b a" for a b
    by (auto simp: above_def)
  ultimately have "card {v \<in> set (ranked E now T i). above E now T i v (ranked E now T i ! n)} = n"
    by (rule sorted_wrt_above [OF _ ranked_distinct assms])
  then show ?thesis by (simp only: ranked_set mem_Collect_eq)
qed

lemma team_top_set:
  assumes I: "inv E T N" and i: "i \<in> team_ids T"
  shows "(\<lambda>c. (tp_TeamID c, tp_UserID c, tp_TasksCreated c, tp_Rank c)) ` set (team_top E now T i) =
    {(i, u, created_cnt E now T i u, 1 + int n) |u n. created_cnt E now T i u > 0 \<and>
       n = card {v. created_cnt E now T i v > 0 \<and> above E now T i v u} \<and> n < 3}" (is "_ = ?R")
proof -
  let ?r = "ranked E now T i"
  have "(\<lambda>c. (tp_TeamID c, tp_UserID c, tp_TasksCreated c, tp_Rank c)) ` set (team_top E now T i) =
      {(i, ?r ! n, created_cnt E now T i (?r ! n), int n + 1) |n. n < length ?r \<and> n < 3}"
    unfolding set_map [symmetric] team_top_rows [OF I i] by (force simp: set_zip)
  also have "\<dots> = ?R"
  proof -
    have "created_cnt E now T i (?r ! n) > 0" if "n < length ?r" for n
      using ranked_set [of E now T i] nth_mem [OF that] by blast
    then have "(i, ?r ! n, created_cnt E now T i (?r ! n), int n + 1) \<in> ?R" if "n < length ?r" "n < 3" for n
      using ranked_position [OF that(1)] that by (simp add: add.commute)
    moreover have "\<exists>n < length ?r. u = ?r ! n" if "created_cnt E now T i u > 0" for u
      using ranked_set [of E now T i] that by (metis in_set_conv_nth mem_Collect_eq)
    ultimately show ?thesis using ranked_position [of _ E now T i] by fastforce
  qed
  finally show ?thesis .
qed

text \<open>C24. The top-creators report ranks fairly: an admin gets, for each team of the page (the teams with
  tasks of the last month, by id, after the cursor), exactly the creators whom fewer than three others
  of that team surpass, each with the number of tasks they created in that month and the rank that
  follows from how many surpass them; ties go to the smaller user id, and a creator's name is never
  lost in the joins.\<close>

theorem top_creators_ranked:
  assumes I: "db_inv E s" and r: "Analytics_TopCreators E actorID afterID limit s = (Inr rows, s')"
  shows "is_global_admin (tbl s) actorID \<and>
    (\<exists>n0. let now = clock E n0 in (\<lambda>c. (tp_TeamID c, tp_UserID c, tp_TasksCreated c, tp_Rank c)) ` set rows =
       {(i, u, created_cnt E now (tbl s) i u, 1 + int n) |i u n.
          i \<in> set (page_teams E afterID limit now (tbl s)) \<and> created_cnt E now (tbl s) i u > 0 \<and>
          n = card {v. created_cnt E now (tbl s) i v > 0 \<and> above E now (tbl s) i v u} \<and> n < 3})"
proof -
  from r obtain s1 where adm: "RequireAdmin E actorID s = (Inr (), s1)"
    and q: "AnalyticsRepo_TopCreators E afterID limit s1 = (Inr rows, s')"
    by (auto simp: Analytics_TopCreators_def go_try_Inr ret_def)
  have s1: "tbl s1 = tbl s" using read_onlyD [OF RequireAdmin_ro adm] by simp
  from q obtain n0 now where rows: "rows = sel_top_creators E afterID limit now (tbl s)" and now: "now = clock E n0"
    by (auto simp: AnalyticsRepo_TopCreators_def go_try_Inr query_Inr driver_call_Inr fail_def s1 split: if_splits)
  have "i \<in> team_ids (tbl s)" if "i \<in> set (page_teams E afterID limit now (tbl s))" for i
    using that I by (auto simp: page_teams_def recent_tasks_def inv_def tasks_ok_def task_ok_def dest!: in_set_takeD)
  then have "(\<lambda>c. (tp_TeamID c, tp_UserID c, tp_TasksCreated c, tp_Rank c)) ` set rows =
      (\<Union>i \<in> set (page_teams E afterID limit now (tbl s)).
        {(i, u, created_cnt E now (tbl s) i u, 1 + int n) |u n. created_cnt E now (tbl s) i u > 0 \<and>
           n = card {v. created_cnt E now (tbl s) i v > 0 \<and> above E now (tbl s) i v u} \<and> n < 3})"
    unfolding rows sel_top_creators_def set_concat set_map image_UN using team_top_set [OF I] by simp
  moreover have "is_global_admin (tbl s) actorID" by (rule RequireAdmin_Inr [OF I adm])
  ultimately show ?thesis unfolding now Let_def by blast
qed

theorem top_creators_ranked_witness:
  "\<exists>rows s' n0. Analytics_TopCreators demo_env 3 0 10 demo_db = (Inr rows, s') \<and>
     map tp_Rank rows = [1] \<and> map tp_TasksCreated rows = [1] \<and>
     (let now = clock demo_env n0 in (\<lambda>c. (tp_TeamID c, tp_UserID c, tp_TasksCreated c, tp_Rank c)) ` set rows =
       {(i, u, created_cnt demo_env now (tbl demo_db) i u, 1 + int n) |i u n.
          i \<in> set (page_teams demo_env 0 10 now (tbl demo_db)) \<and> created_cnt demo_env now (tbl demo_db) i u > 0 \<and>
          n = card {v. created_cnt demo_env now (tbl demo_db) i v > 0 \<and> above demo_env now (tbl demo_db) i v u} \<and> n < 3})"
proof -
  have v: "map_sum id (\<lambda>rows. (map tp_Rank rows, map tp_TasksCreated rows))
      (fst (Analytics_TopCreators demo_env 3 0 10 demo_db)) = Inr ([1], [1])"
    by code_simp
  then obtain rows s' where r: "Analytics_TopCreators demo_env 3 0 10 demo_db = (Inr rows, s')"
    by (cases "Analytics_TopCreators demo_env 3 0 10 demo_db"; cases "fst (Analytics_TopCreators demo_env 3 0 10 demo_db)") auto
  with v top_creators_ranked [OF demo_inv r] show ?thesis by auto
qed

subsection \<open>The cache's failures\<close>

text \<open>Listing without a cache: the check and the query.\<close>

definition list_directly :: "env \<Rightarrow> int64 \<Rightarrow> TaskFilter \<Rightarrow> Task list prog" where
  "list_directly E actorID f =
     go_try (RequireTeamRole E actorID (tf_TeamID f) TeamRoleMember) id
       (\<lambda>_. go_try (TaskRepo_List E f) (Wrap ''list tasks'') ret)"

lemma GetList_down:
  assumes "\<forall>k r. isl (fst (rd_get R k r))"
  shows "GetList R J f r = (([], versionUnknown, False), snd (rd_get R (versionKey (tf_TeamID f)) r))"
proof -
  obtain e r' where "rd_get R (versionKey (tf_TeamID f)) r = (Inl e, r')"
    using assms by (metis isl_def prod.collapse)
  then show ?thesis by (simp add: GetList_def cache_version_def)
qed

text \<open>An outage of the cache costs a list request nothing but time: when every read of Redis fails, the
  request is answered, value or error, as if there were no cache, with the same statements on the
  database; and nothing is written to Redis, so that no list read during the outage survives it.\<close>

theorem list_survives_cache_outage:
  assumes down: "\<forall>k r. isl (fst (rd_get R k r))"
  shows "fst (Tasks_List E R J ttl actorID f (s, r)) = fst (list_directly E actorID f s) \<and>
    fst (snd (Tasks_List E R J ttl actorID f (s, r))) = snd (list_directly E actorID f s) \<and>
    snd (snd (Tasks_List E R J ttl actorID f (s, r))) \<in> {r, snd (rd_get R (versionKey (tf_TeamID f)) r)}"
  using GetList_down [OF down, of J f r]
  by (auto simp: Tasks_List_def list_directly_def go_try_def on_db_def on_cache_def ret_def SetList_def
      versionUnknown_def split: prod.splits sum.splits)

theorem list_survives_cache_outage_witness:
  "let R = map_redis\<lparr>rd_get := \<lambda>k V. (Inl (OtherErr ''down''), V)\<rparr>;
       f = \<lparr>tf_Status = None, tf_AssigneeID = None, tf_TeamID = 1, tf_Limit = 20, tf_AfterID = 0\<rparr>
   in fst (Tasks_List demo_env R demo_codec 60 2 f (demo_db, \<lambda>_. None)) = Inr [scan_task demo_task] \<and>
      snd (snd (Tasks_List demo_env R demo_codec 60 2 f (demo_db, \<lambda>_. None))) = (\<lambda>_. None)"
proof -
  let ?R = "map_redis\<lparr>rd_get := \<lambda>k V. (Inl (OtherErr ''down''), V)\<rparr>"
  let ?f = "\<lparr>tf_Status = None, tf_AssigneeID = None, tf_TeamID = 1, tf_Limit = 20, tf_AfterID = 0\<rparr>"
  have "\<forall>k r. isl (fst (rd_get ?R k r))" by simp
  note l = list_survives_cache_outage [OF this, of demo_env demo_codec 60 2 ?f demo_db "\<lambda>_. None"]
  have d: "fst (list_directly demo_env 2 ?f demo_db) = Inr [scan_task demo_task]" by code_simp
  show ?thesis unfolding Let_def using l unfolding d by simp
qed



subsection \<open>Error texts\<close>

text \<open>C33. An error text cut for the outbox's column fits the given number of bytes and is valid UTF-8, whatever
  bytes the error had; of a valid text nothing but the end is lost, and of that, when it is too long, no more than
  the up to three bytes of a rune that would be cut in two.\<close>

theorem truncated_errors_fit:
  "length (truncateUTF8 s m) \<le> m \<and> ValidString (truncateUTF8 s m) \<and>
    (ValidString s \<longrightarrow> (\<exists>rest. s = truncateUTF8 s m @ rest \<and> (rest = [] \<or> m \<le> length (truncateUTF8 s m) + 3)))"
proof (intro conjI)
  show "length (truncateUTF8 s m) \<le> m" by (rule truncateUTF8_length)
  show "ValidString (truncateUTF8 s m)" by (simp add: truncateUTF8_def ValidString_ToValidUTF8)
  show "ValidString s \<longrightarrow> (\<exists>rest. s = truncateUTF8 s m @ rest \<and> (rest = [] \<or> m \<le> length (truncateUTF8 s m) + 3))"
  proof
    assume v: "ValidString s"
    show "\<exists>rest. s = truncateUTF8 s m @ rest \<and> (rest = [] \<or> m \<le> length (truncateUTF8 s m) + 3)"
    proof (cases "length s \<le> m")
      case True
      then show ?thesis using truncateUTF8_of_valid [OF v, of m] by simp
    next
      case False
      with back_off_close [OF v, of m] back_off_le [of s m] truncateUTF8_of_valid [OF v, of m]
      show ?thesis by (intro exI [of _ "drop (back_off s m) s"]) auto
    qed
  qed
qed

theorem truncated_errors_fit_witness:
  "let s = [CHR ''o'', CHR ''k'', CHR 0xC3, CHR 0xA9]
   in ValidString s \<and> truncateUTF8 s 3 = ''ok'' \<and> (\<exists>rest. s = truncateUTF8 s 3 @ rest \<and> 3 \<le> length (truncateUTF8 s 3) + 3)"
proof -
  let ?s = "[CHR ''o'', CHR ''k'', CHR 0xC3, CHR 0xA9]"
  have v: "ValidString ?s" "truncateUTF8 ?s 3 = ''ok''" by (code_simp, code_simp)
  with truncated_errors_fit [of ?s 3] show ?thesis unfolding Let_def by simp
qed

end
