(* ===== verification/Journey.thy ===== *)
theory Journey
  imports System
begin

text \<open>
  A concrete run of the system, for the instances of the properties of reachable states: a user
  registers, creates a team and a task, and edits the task, all through the API, from the empty database.
  The handlers' chain is taken off by lemmas and what is left is evaluated.
\<close>

subsection \<open>Running calls\<close>

text \<open>A client's calls one after the other, from the empty database.\<close>

definition run_calls :: "env \<Rightarrow> 'r deps \<Rightarrow> ('s, 'net, 'ip) edge \<Rightarrow> api_call list \<Rightarrow> ('r, 's) server \<Rightarrow> ('r, 's) server" where
  "run_calls E D G calls w = fold (\<lambda>call w. snd (serve E D G call w)) calls w"

lemma app_reach_calls:
  "app_reach E D G cfg \<lparr>ap_server = run_calls E D G calls ((empty_db, r), sn), ap_paused = 0, ap_checked = []\<rparr>"
proof (induction calls rule: rev_induct)
  case Nil
  then show ?case using app_reach.init [of E D G cfg r sn] by (simp add: run_calls_def)
next
  case (snoc call calls)
  let ?a = "\<lparr>ap_server = run_calls E D G calls ((empty_db, r), sn), ap_paused = 0, ap_checked = []\<rparr>"
  obtain out sv where s: "serve E D G call (ap_server ?a) = (out, sv)" by (metis surj_pair)
  from app_reach.step [OF snoc app_step.request [OF s]] s show ?case
    by (simp add: run_calls_def)
qed

text \<open>One user registers, creates a team and a finished task for herself, and edits it; her token is
  always taken.\<close>

definition journey_deps :: "keys deps" where
  "journey_deps = demo_deps\<lparr>dp_jwt := demo_jwt\<lparr>jwt_parse :=
     \<lambda>kf iss aud now raw. Inr (demo_claims\<lparr>rc_Subject := ''1''\<rparr>)\<rparr>,
     dp_ozzo := \<lambda>_. None\<rparr>"

definition journey_request :: "'d \<Rightarrow> 'd request" where
  "journey_request d = \<lparr>rq_Authorization = ''Bearer t'', rq_RemoteAddr = ''1.2.3.4'', rq_id = ''1'',
     rq_query = \<lambda>_. [], rq_body = Decoded d, rq_principal = None, rq_ctx_done = False, rq_now = 10\<rparr>"

definition journey :: "api_call list" where
  "journey =
     [PostRegister (journey_request \<lparr>rg_Email = ''a@b'', rg_Name = ''a'', rg_Password = ''password''\<rparr>),
      PostTeam (journey_request \<lparr>cm_Name = ''team''\<rparr>),
      PostTask (journey_request \<lparr>ct_AssigneeID = Some 1, ct_Title = ''t'', ct_Description = ''d'',
        ct_Status = TaskStatusDone, ct_TeamID = 1\<rparr>),
      PutTask (journey_request \<lparr>ut_AssigneeID = Some 1, ut_Title = ''u'', ut_Description = ''d'',
        ut_Status = TaskStatusTodo\<rparr>)]"

definition journey_app :: "(keys, unit) app" where
  "journey_app = \<lparr>ap_server = run_calls demo_env journey_deps (demo_edge 1) journey ((empty_db, \<lambda>_. None), ((), 0)),
     ap_paused = 0, ap_checked = []\<rparr>"

lemma journey_reached: "app_reach demo_env journey_deps (demo_edge 1) cfg journey_app"
  unfolding journey_app_def by (rule app_reach_calls)

text \<open>Behind the token, the limiter and the validation the two task requests are the service's calls.\<close>

lemma answer_state: "snd (answer r cs k m w) = snd (m w)"
  by (simp add: answer_def split: prod.split sum.split)

lemma recover_state: "snd (recoverer h r w) = snd (h r w)"
  by (simp add: recoverer_def split: prod.split outcome.split)

lemma journey_calls:
  "fst (snd (serve demo_env journey_deps (demo_edge 1) (PostTask (journey_request q)) w)) =
     snd (Tasks_Create demo_env map_redis 1 (ct_TeamID q) \<lparr>ti_AssigneeID = ct_AssigneeID q, ti_Title = ct_Title q,
       ti_Description = ct_Description q, ti_Status = ct_Status q\<rparr> (fst w))"
  "fst (snd (serve demo_env journey_deps (demo_edge 1) (PutTask (journey_request p)) w)) =
     snd (Tasks_Update demo_env map_redis 1 1 \<lparr>ti_AssigneeID = ut_AssigneeID p, ti_Title = ut_Title p,
       ti_Description = ut_Description p, ti_Status = ut_Status p\<rparr> (fst w))"
proof -
  have deps: "dp_redis journey_deps = map_redis" "dp_ozzo journey_deps fs = None" for fs
    by (simp_all add: journey_deps_def demo_deps_def)
  have tok: "Parse (dp_jwt journey_deps) (dp_identity journey_deps) t raw = Inr \<lparr>pr_UserID = 1\<rparr>" for t raw
    by (simp add: Parse_def journey_deps_def demo_jwt_def ParseInt_def char_digit_def)
  have id: "ParseInt ''1'' = Inr 1" by code_simp
  note defs = protected_def Auth_def RateLimit_def rejectOrServe_def limiter_allow_def Limiter_Allow_def
    demo_edge_def on_app_def bearer_def journey_request_def with_principal_def with_id_def DecodeJSON_def validated_def
    tasks_createHandler_def tasks_updateHandler_def
  show "fst (snd (serve demo_env journey_deps (demo_edge 1) (PostTask (journey_request q)) w)) =
     snd (Tasks_Create demo_env map_redis 1 (ct_TeamID q) \<lparr>ti_AssigneeID = ct_AssigneeID q, ti_Title = ct_Title q,
       ti_Description = ct_Description q, ti_Status = ct_Status q\<rparr> (fst w))"
    "fst (snd (serve demo_env journey_deps (demo_edge 1) (PutTask (journey_request p)) w)) =
     snd (Tasks_Update demo_env map_redis 1 1 \<lparr>ti_AssigneeID = ut_AssigneeID p, ti_Title = ut_Title p,
       ti_Description = ut_Description p, ti_Status = ut_Status p\<rparr> (fst w))"
    by (simp_all add: defs tok id deps answer_state recover_state split_beta)
qed

lemma journey_state:
  "fst (ap_server journey_app) =
     snd (Tasks_Update demo_env map_redis 1 1
       \<lparr>ti_AssigneeID = Some 1, ti_Title = ''u'', ti_Description = ''d'', ti_Status = TaskStatusTodo\<rparr>
       (snd (Tasks_Create demo_env map_redis 1 1
         \<lparr>ti_AssigneeID = Some 1, ti_Title = ''t'', ti_Description = ''d'', ti_Status = TaskStatusDone\<rparr>
         (fst (run_calls demo_env journey_deps (demo_edge 1) (take 2 journey) ((empty_db, \<lambda>_. None), ((), 0)))))))"
  by (simp add: journey_app_def run_calls_def journey_def journey_calls del: serve.simps)

lemma journey_task:
  "map (\<lambda>k. (k_id k, k_title k, k_status k)) (tasks (tbl (ap_db journey_app))) = [(1, ''u'', TaskStatusTodo)] \<and>
   map (\<lambda>h. (h_task_id h, h_field h)) (task_history (tbl (ap_db journey_app))) =
     [(1, ChangeFieldCreated), (1, ''title''), (1, ''status'')]"
  unfolding journey_state by code_simp

end
