(* ===== verification/Concurrent_Updates.thy ===== *)
theory Concurrent_Updates
  imports Evolution Scenario
begin

text \<open>
  Concurrent task updates, statement by statement. \<open>Tasks.Update\<close> (service/tasks.go) checks the actor and the
  assignee on a snapshot, then \<open>TaskRepo.Update\<close> (persistence/task.go) locks the row with \<open>SELECT ... FOR UPDATE\<close>,
  updates it and inserts one history row per changed field before the commit. \<open>ustep\<close> runs any number of such
  transactions with their statements interleaved, together with the other writing services, which are steps of
  their own. The invariant \<open>uinv\<close> carries the database invariant of Schema through every interleaving; the row
  lock is what makes the old values in the history the committed ones.
\<close>

subsection \<open>Services that leave tasks and histories alone\<close>

definition same_tasks :: "tables \<Rightarrow> tables \<Rightarrow> bool" where
  "same_tasks T T' \<longleftrightarrow> tasks T' = tasks T \<and> task_history T' = task_history T"

interpretation same: table_preorder same_tasks
  by unfold_locales (auto simp: same_tasks_def)

lemmas same_defs = along_def same_tasks_def Let_def

lemma same_statements:
  "along same_tasks (sql_insert_user E a b c)" "along same_tasks (sql_grant_admin E a)"
  "along same_tasks (sql_insert_team E name i)" "along same_tasks (sql_insert_member E i j role)"
  "along same_tasks (sql_insert_comment E i j b)" "along same_tasks (sql_update_comment E i b)"
  "along same_tasks (sql_delete_comment E i)" "along same_tasks (sql_insert_outbox E msg)"
  unfolding sql_insert_user_def sql_grant_admin_def sql_insert_team_def sql_insert_member_def
    sql_insert_comment_def sql_update_comment_def sql_delete_comment_def sql_insert_outbox_def
  by (rule same.along_exec; simp add: same_defs)+

text \<open>A request that does not write tasks: everything that writes but \<open>Tasks.Create\<close> and \<open>Tasks.Update\<close>.\<close>

datatype other_op =
    OpRegister string string string string \<comment> \<open>the hash, then email, name and password\<close>
  | OpGrantAdmin string
  | OpCreateTeam int64 string
  | OpInvite int64 int64 string
  | OpCreateComment int64 int64 string
  | OpUpdateComment int64 int64 string
  | OpDeleteComment int64 int64

fun run_other :: "env \<Rightarrow> other_op \<Rightarrow> db \<Rightarrow> db" where
  "run_other E (OpRegister h email name pw) s = snd (Auth_Register E (\<lambda>_ _. Inr h) 10 email name pw s)"
| "run_other E (OpGrantAdmin email) s = snd (Auth_GrantAdmin E email s)"
| "run_other E (OpCreateTeam a name) s = snd (Teams_Create E a name s)"
| "run_other E (OpInvite a i email) s = snd (Teams_Invite E a i email s)"
| "run_other E (OpCreateComment a i b) s = snd (Comments_Create E a i b s)"
| "run_other E (OpUpdateComment a i b) s = snd (Comments_Update E a i b s)"
| "run_other E (OpDeleteComment a i) s = snd (Comments_Delete E a i s)"

lemma same_services:
  "along same_tasks (Auth_Register E g c email name pw)" "along same_tasks (Auth_GrantAdmin E email)"
  "along same_tasks (Teams_Create E a name)" "along same_tasks (Teams_Invite E a i email)"
  "along same_tasks (Comments_Create E a i b)" "along same_tasks (Comments_Update E a i b)"
  "along same_tasks (Comments_Delete E a i)"
  unfolding Auth_Register_def Auth_GrantAdmin_def UserRepo_Create_def UserRepo_GrantAdmin_def
    Teams_Create_def create_team_tx_def TeamRepo_Create_def TeamRepo_AddMember_def
    Teams_Invite_def invite_tx_def OutboxRepo_Enqueue_def
    Comments_Create_def create_comment_tx_def CommentRepo_Create_def
    Comments_Update_def update_comment_tx_def CommentRepo_Update_def
    Comments_Delete_def delete_comment_tx_def CommentRepo_Delete_def
  by (intro same.along_tx same.along_try same_statements same.along_ro ro_intros)+

lemma grow_users: "cnt_grows (sql_insert_user E a b c)" "cnt_grows (sql_grant_admin E a)"
  unfolding sql_insert_user_def sql_grant_admin_def
  by (rule grow_exec; simp add: cnt_grows_def cnt_le_def Let_def)+

lemma grow_services:
  "cnt_grows (Auth_Register E g c email name pw)" "cnt_grows (Auth_GrantAdmin E email)"
  "cnt_grows (Teams_Create E a name)" "cnt_grows (Teams_Invite E a i email)"
  "cnt_grows (Comments_Create E a i b)" "cnt_grows (Comments_Update E a i b)" "cnt_grows (Comments_Delete E a i)"
  unfolding Auth_Register_def Auth_GrantAdmin_def UserRepo_Create_def UserRepo_GrantAdmin_def
    Teams_Create_def Teams_Invite_def Comments_Create_def Comments_Update_def Comments_Delete_def
  by (intro grow_tx grow_try grow_users create_team_tx_grows invite_tx_grows comment_tx_grows grow_read_only ro_intros)+

lemma run_other_effect:
  assumes "db_inv E s"
  shows "db_inv E (run_other E op s)" and "same_tasks (tbl s) (tbl (run_other E op s))"
    and "evolves (tbl s) (tbl (run_other E op s))" and "cnt_le (cnt s) (cnt (run_other E op s))"
proof -
  note keep = Auth_Register_inv Auth_GrantAdmin_inv Teams_Create_inv Teams_Invite_inv
    Comments_Create_inv Comments_Update_inv Comments_Delete_inv
  show "db_inv E (run_other E op s)"
    using assms keep [unfolded keeps_inv_def] by (cases op) simp_all
  show "same_tasks (tbl s) (tbl (run_other E op s))"
    using same_services [unfolded along_def] by (cases op) simp_all
  show "evolves (tbl s) (tbl (run_other E op s))"
    using evo_Auth [unfolded along_def] evo_Teams [unfolded along_def] evo_Comments [unfolded along_def]
    by (cases op) simp_all
  show "cnt_le (cnt s) (cnt (run_other E op s))"
    using grow_services [unfolded cnt_grows_def] by (cases op) simp_all
qed

subsection \<open>Transactions in progress\<close>

text \<open>
  What an update holds between its statements: the actor and the task as it is to become; from the
  \<open>SELECT ... FOR UPDATE\<close> on the row it read under the lock; from the \<open>UPDATE\<close> on the completion time, the
  statement's time, the change group, the history rows inserted so far and the changes still to insert.
\<close>

datatype tx_phase =
    Checked
  | Locked task_row
  | Writing task_row "int option" int string "history_row list" "FieldChange list"

record update_tx =
  ux_actor :: int64
  ux_task :: Task
  ux_phase :: tx_phase

record cworld =
  cw_db :: db \<comment> \<open>what is committed, and the counters, which inserts advance at once\<close>
  cw_txs :: "nat \<Rightarrow> update_tx option"

definition holds_lock :: "update_tx \<Rightarrow> int64 \<Rightarrow> bool" where
  "holds_lock u i \<longleftrightarrow> ux_phase u \<noteq> Checked \<and> task_ID (ux_task u) = i"

text \<open>The row \<open>INSERT INTO task_history\<close> adds for a change, under the id the counter gives it.\<close>

definition history_entry :: "int64 \<Rightarrow> update_tx \<Rightarrow> string \<Rightarrow> FieldChange \<Rightarrow> int \<Rightarrow> history_row" where
  "history_entry n u g ch now =
     \<lparr>h_id = n, h_task_id = task_ID (ux_task u), h_changed_by = ux_actor u, h_change_group_id = g,
      h_field = fc_Field ch, h_old_value = Some (fc_OldValue ch), h_new_value = Some (fc_NewValue ch),
      h_changed_at = current_timestamp now\<rparr>"

text \<open>
  A step of the interleaving. The reads before the lock see one snapshot, the first read's, and are
  one step, under statement numbers of the transaction's own; every later statement is a step of its
  own: the lock, which waits for the row's holder and then reads what is committed; the \<open>UPDATE\<close>; one
  \<open>INSERT\<close> per change, whose id is drawn at once and never given back; the commit. A transaction may
  end without a commit at any point, whatever the error. The table lists its rows by id.
\<close>

inductive ustep :: "env \<Rightarrow> cworld \<Rightarrow> cworld \<Rightarrow> bool" for E where
  check: "cw_txs w n = None \<Longrightarrow> tbl s = tbl (cw_db w) \<Longrightarrow> cnt s = cnt (cw_db w) \<Longrightarrow>
    TaskRepo_ByID E taskID s = (Inr current, s1) \<Longrightarrow>
    RequireTeamRole E actorID (task_TeamID current) TeamRoleMember s1 = (Inr (), s2) \<Longrightarrow>
    requireAssigneeIsMember E (task_TeamID current) (ti_AssigneeID inp) s2 = (Inr (), s3) \<Longrightarrow>
    ustep E w (w\<lparr>cw_txs := (cw_txs w)(n \<mapsto>
      \<lparr>ux_actor = actorID, ux_task = apply_input current inp, ux_phase = Checked\<rparr>)\<rparr>)"
| lock: "cw_txs w n = Some u \<Longrightarrow> ux_phase u = Checked \<Longrightarrow>
    (\<forall>m v. cw_txs w m = Some v \<longrightarrow> \<not> holds_lock v (task_ID (ux_task u))) \<Longrightarrow>
    find (\<lambda>r. k_id r = task_ID (ux_task u)) (tasks (tbl (cw_db w))) = Some old \<Longrightarrow>
    ustep E w (w\<lparr>cw_txs := (cw_txs w)(n \<mapsto> u\<lparr>ux_phase := Locked old\<rparr>)\<rparr>)"
| upd: "cw_txs w n = Some u \<Longrightarrow> ux_phase u = Locked old \<Longrightarrow> task_Status (ux_task u) \<in> set task_status_enum \<Longrightarrow>
    length g = 32 \<Longrightarrow>
    ustep E w (w\<lparr>cw_txs := (cw_txs w)(n \<mapsto> u\<lparr>ux_phase :=
      Writing old (completed_after old (ux_task u) wall_time) now g [] (task_changes old (ux_task u))\<rparr>)\<rparr>)"
| insert: "cw_txs w n = Some u \<Longrightarrow> ux_phase u = Writing old c now g hs (ch # chs) \<Longrightarrow>
    ustep E w (w\<lparr>cw_db := (cw_db w)\<lparr>cnt := (cnt (cw_db w))\<lparr>n_history := n_history (cnt (cw_db w)) + 1\<rparr>\<rparr>,
      cw_txs := (cw_txs w)(n \<mapsto> u\<lparr>ux_phase :=
        Writing old c now g (hs @ [history_entry (n_history (cnt (cw_db w))) u g ch now']) chs\<rparr>)\<rparr>)"
| commit: "cw_txs w n = Some u \<Longrightarrow> ux_phase u = Writing old c now g hs [] \<Longrightarrow>
    ustep E w (w\<lparr>cw_db := (cw_db w)\<lparr>tbl := (tbl (cw_db w))
        \<lparr>tasks := updated_tasks (ux_task u) c now (tasks (tbl (cw_db w))),
         task_history := sort_key h_id (task_history (tbl (cw_db w)) @ hs)\<rparr>\<rparr>,
      cw_txs := (cw_txs w)(n := None)\<rparr>)"
| abort: "ustep E w (w\<lparr>cw_txs := (cw_txs w)(n := None)\<rparr>)"
| create: "Tasks_Create E (R :: keys redis) actorID teamID inp (cw_db w, r) = (res, s, r') \<Longrightarrow> ustep E w (w\<lparr>cw_db := s\<rparr>)"
| other: "ustep E w (w\<lparr>cw_db := run_other E op (cw_db w)\<rparr>)"

inductive ureach :: "env \<Rightarrow> cworld \<Rightarrow> bool" for E where
  init: "db_inv E s \<Longrightarrow> ureach E \<lparr>cw_db = s, cw_txs = \<lambda>_. None\<rparr>"
| step: "ureach E w \<Longrightarrow> ustep E w w' \<Longrightarrow> ureach E w'"

subsection \<open>The invariant\<close>

text \<open>What holds of an update at each of its control points, in the committed tables.\<close>

definition rows_fresh :: "tables \<Rightarrow> counters \<Rightarrow> int64 \<Rightarrow> history_row list \<Rightarrow> bool" where
  "rows_fresh T N i hs \<longleftrightarrow> sorted_wrt (<) (map h_id hs) \<and>
     (\<forall>h \<in> set hs. 1 \<le> h_id h \<and> h_id h < n_history N \<and> h_id h \<notin> h_id ` set (task_history T) \<and>
        (\<forall>x \<in> set (task_log i T). h_id x < h_id h))"

fun phase_ok :: "tables \<Rightarrow> counters \<Rightarrow> int64 \<Rightarrow> Task \<Rightarrow> tx_phase \<Rightarrow> bool" where
  "phase_ok T N a t Checked \<longleftrightarrow> True"
| "phase_ok T N a t (Locked old) \<longleftrightarrow> find (\<lambda>r. k_id r = task_ID t) (tasks T) = Some old"
| "phase_ok T N a t (Writing old c now g hs chs) \<longleftrightarrow> find (\<lambda>r. k_id r = task_ID t) (tasks T) = Some old \<and>
     task_Status t \<in> set task_status_enum \<and> length g = 32 \<and> (\<exists>w. c = completed_after old t w) \<and>
     (\<exists>done. task_changes old t = done @ chs \<and> change_rows (task_ID t) a g done hs) \<and>
     rows_fresh T N (task_ID t) hs"

definition update_ok :: "tables \<Rightarrow> counters \<Rightarrow> update_tx \<Rightarrow> bool" where
  "update_ok T N u \<longleftrightarrow> ux_actor u \<in> user_ids T \<and>
     (\<exists>k \<in> set (tasks T). k_id k = task_ID (ux_task u) \<and> k_team_id k = task_TeamID (ux_task u)) \<and>
     (\<forall>a. task_AssigneeID (ux_task u) = Some a \<longrightarrow> (task_TeamID (ux_task u), a) \<in> member_pairs T) \<and>
     phase_ok T N (ux_actor u) (ux_task u) (ux_phase u)"

fun pending_rows :: "tx_phase \<Rightarrow> history_row list" where
  "pending_rows (Writing old c now g hs chs) = hs"
| "pending_rows _ = []"

text \<open>Two updates do not get in each other's way: different rows locked, different ids drawn.\<close>

definition apart :: "update_tx \<Rightarrow> update_tx \<Rightarrow> bool" where
  "apart u v \<longleftrightarrow> (ux_phase u = Checked \<or> \<not> holds_lock v (task_ID (ux_task u))) \<and>
     h_id ` set (pending_rows (ux_phase u)) \<inter> h_id ` set (pending_rows (ux_phase v)) = {}"

definition uinv :: "env \<Rightarrow> cworld \<Rightarrow> bool" where
  "uinv E w \<longleftrightarrow> db_inv E (cw_db w) \<and>
     (\<forall>n u. cw_txs w n = Some u \<longrightarrow> update_ok (tbl (cw_db w)) (cnt (cw_db w)) u) \<and>
     (\<forall>n m u v. n \<noteq> m \<longrightarrow> cw_txs w n = Some u \<longrightarrow> cw_txs w m = Some v \<longrightarrow> apart u v)"

subsection \<open>What the other steps leave alone\<close>

definition frame :: "tables \<Rightarrow> counters \<Rightarrow> tables \<Rightarrow> bool" where
  "frame T N T' \<longleftrightarrow> set (tasks T) \<subseteq> set (tasks T') \<and>
     (\<forall>i \<in> task_ids T. find (\<lambda>r. k_id r = i) (tasks T') = find (\<lambda>r. k_id r = i) (tasks T) \<and> task_log i T' = task_log i T) \<and>
     (\<forall>h \<in> set (task_history T'). h \<in> set (task_history T) \<or> n_history N \<le> h_id h)"

lemma frame_same: "same_tasks T T' \<Longrightarrow> frame T N T'"
  by (auto simp: frame_def same_tasks_def task_log_def)

lemma frame_refl: "tbl s = T \<Longrightarrow> frame T N (tbl s)"
  by (simp add: frame_same same_tasks_def)

lemma update_ok_frame:
  assumes u: "update_ok T N u" and f: "frame T N T'" and e: "evolves T T'" and c: "cnt_le N N'"
  shows "update_ok T' N' u"
proof -
  let ?i = "task_ID (ux_task u)"
  from u have i: "?i \<in> task_ids T" by (force simp: update_ok_def task_ids_def)
  with f have t: "find (\<lambda>r. k_id r = ?i) (tasks T') = find (\<lambda>r. k_id r = ?i) (tasks T)" "task_log ?i T' = task_log ?i T"
    by (simp_all add: frame_def)
  have "rows_fresh T' N' ?i hs" if "rows_fresh T N ?i hs" for hs
    using that f c t by (fastforce simp: rows_fresh_def frame_def cnt_le_def)
  then have "phase_ok T' N' (ux_actor u) (ux_task u) (ux_phase u)"
    using u t by (cases "ux_phase u") (auto simp: update_ok_def)
  moreover have "set (tasks T) \<subseteq> set (tasks T')" using f by (simp add: frame_def)
  moreover have "user_ids T \<subseteq> user_ids T'" using e by (simp add: evolves_def)
  moreover have "\<forall>a. task_AssigneeID (ux_task u) = Some a \<longrightarrow> (task_TeamID (ux_task u), a) \<in> member_pairs T'"
    using u by (auto simp: update_ok_def intro: evolves_member [OF e])
  ultimately show ?thesis using u unfolding update_ok_def by blast
qed

lemma find_append_old: "x \<in> set xs \<Longrightarrow> P x \<Longrightarrow> find P (xs @ ys) = find P xs"
  by (induction xs) auto

lemma create_task_tx_frame:
  assumes I: "db_inv E s" and tx: "create_task_tx E t s = (Inr u, s')"
  shows "frame (tbl s) (cnt s) (tbl s')"
  using tx
proof (rule create_task_tx_Inr)
  fix s1 i assume c: "TaskRepo_Create E t s = (Inr i, s1)" and s': "tbl s' = tbl s1"
  from I have fresh: "n_tasks (cnt s) \<notin> task_ids (tbl s)"
    using tab_ok_fresh by (auto simp: inv_def tasks_ok_def task_ids_def)
  from c show ?thesis
    by (rule TaskRepo_Create_Inr)
      (use fresh in \<open>auto simp: s' frame_def task_log_def task_ids_def find_append_old\<close>)
qed

lemma Tasks_Create_effect:
  assumes I: "db_inv E s" and c: "Tasks_Create E R a i inp (s, r) = (res, s', r')"
  shows "db_inv E s'" and "frame (tbl s) (cnt s) (tbl s')" and "evolves (tbl s) (tbl s')" and "cnt_le (cnt s) (cnt s')"
proof -
  show "db_inv E s'" using Tasks_Create_keeps [of E R a i inp] I c unfolding svc_keeps_def by (metis fst_conv snd_conv)
  show "evolves (tbl s) (tbl s')"
    using svc_evolves_Tasks(1) [of E R a i inp] c unfolding svc_evolves_def by (metis fst_conv snd_conv)
  obtain x1 s1 where role: "RequireTeamRole E a i TeamRoleMember s = (x1, s1)" by fastforce
  obtain x2 s2 where asg: "requireAssigneeIsMember E i (ti_AssigneeID inp) s1 = (x2, s2)" by fastforce
  obtain x3 s3 where tx: "tx_do E (create_task_tx E (new_task a i inp)) s2 = (x3, s3)" by fastforce
  have ro: "tbl s1 = tbl s" "cnt s1 = cnt s" "tbl s2 = tbl s" "cnt s2 = cnt s"
    using read_onlyD [OF RequireTeamRole_ro role] read_onlyD [OF requireAssigneeIsMember_ro asg] by simp_all
  have s': "s' \<in> {s1, s2, s3}"
    using c role asg tx
    by (auto simp: Tasks_Create_def go_try_def on_db_def on_cache_def ret_def split: sum.splits prod.splits)
  have "frame (tbl s) (cnt s) (tbl s3)"
    using tx_do_atomic [OF tx] create_task_tx_frame [of E "s2\<lparr>stmt := Suc (stmt s2)\<rparr>" "new_task a i inp"] I ro
    by (auto intro: frame_refl)
  then show "frame (tbl s) (cnt s) (tbl s')" using s' ro by (auto intro: frame_refl)
  have "cnt_le (cnt s) (cnt s3)"
    using cnt_growsD [OF grow_tx [OF create_task_tx_grows] tx] ro by simp
  then show "cnt_le (cnt s) (cnt s')" using s' ro by auto
qed

subsection \<open>Commit\<close>

text \<open>The rows of a finished update, merged into the table by id, come last among their task's.\<close>

lemma sort_key_strict: "distinct (map f xs) \<Longrightarrow> sorted_wrt (<) (map f (sort_key f xs))"
  by (simp add: strict_sorted_iff distinct_map)

lemma rows_fresh_merge:
  assumes tab: "tab_ok h_id n H" and i: "\<forall>h \<in> set hs. h_task_id h = i"
    and fresh: "sorted_wrt (<) (map h_id hs)"
      "\<forall>h \<in> set hs. 1 \<le> h_id h \<and> h_id h < n \<and> h_id h \<notin> h_id ` set H \<and> (\<forall>x \<in> set (filter (\<lambda>h. h_task_id h = i) H). h_id x < h_id h)"
  shows "tab_ok h_id n (sort_key h_id (H @ hs))"
    and "filter (\<lambda>h. h_task_id h = i) (sort_key h_id (H @ hs)) = filter (\<lambda>h. h_task_id h = i) H @ hs"
    and "j \<noteq> i \<Longrightarrow> filter (\<lambda>h. h_task_id h = j) (sort_key h_id (H @ hs)) = filter (\<lambda>h. h_task_id h = j) H"
proof -
  have "distinct (map h_id hs)" using fresh(1) by (simp only: strict_sorted_iff)
  moreover have "h_id ` set H \<inter> h_id ` set hs = {}"
  proof (intro equals0I)
    fix y assume "y \<in> h_id ` set H \<inter> h_id ` set hs"
    then obtain h where "h \<in> set hs" "y = h_id h" "y \<in> h_id ` set H" by (elim IntE imageE) simp
    with fresh(2) show False by simp
  qed
  ultimately have "distinct (map h_id (H @ hs))" using tab_ok_distinct [OF tab] by simp
  then have "sorted_wrt (<) (map h_id (sort_key h_id (H @ hs)))"
    by (rule sort_key_strict)
  then show "tab_ok h_id n (sort_key h_id (H @ hs))"
    using tab fresh(2) by (auto simp: tab_ok_def)
  let ?P = "\<lambda>j h. h_task_id h = j"
  have sorted: "sort_key h_id (filter (?P j) H) = filter (?P j) H" for j
    by (rule tab_ok_sorted [OF tab])
  have "sorted (map h_id (filter (?P i) H @ hs))"
    using tab_ok_filter [OF tab, of "?P i"] fresh
    by (auto simp: tab_ok_def sorted_append sorted_wrt_append dest: strict_sorted_imp_sorted less_imp_le)
  then have "sort_key h_id (filter (?P i) H @ hs) = filter (?P i) H @ hs"
    by (rule sort_key_id_if_sorted)
  moreover have "filter (?P i) hs = hs" using i by simp
  ultimately show "filter (?P i) (sort_key h_id (H @ hs)) = filter (?P i) H @ hs"
    by (simp add: filter_sort)
  show "filter (?P j) (sort_key h_id (H @ hs)) = filter (?P j) H" if "j \<noteq> i"
  proof -
    have "filter (?P j) hs = []" using i that by (auto simp: filter_empty_conv)
    then show ?thesis using sorted [of j] by (simp add: filter_sort)
  qed
qed

text \<open>The committed tables after an update.\<close>

definition committed :: "update_tx \<Rightarrow> int option \<Rightarrow> int \<Rightarrow> history_row list \<Rightarrow> tables \<Rightarrow> tables" where
  "committed u c now hs T = T\<lparr>tasks := updated_tasks (ux_task u) c now (tasks T),
     task_history := sort_key h_id (task_history T @ hs)\<rparr>"

lemma commit_log:
  assumes I: "inv E T N" and u: "update_ok T N u" and ph: "ux_phase u = Writing old c now g hs []"
  shows "tab_ok h_id (n_history N) (task_history (committed u c now hs T))"
    and "task_log (task_ID (ux_task u)) (committed u c now hs T) = task_log (task_ID (ux_task u)) T @ hs"
    and "j \<noteq> task_ID (ux_task u) \<Longrightarrow> task_log j (committed u c now hs T) = task_log j T"
proof -
  let ?i = "task_ID (ux_task u)"
  from u ph have R: "change_rows ?i (ux_actor u) g (task_changes old (ux_task u)) hs" and f: "rows_fresh T N ?i hs"
    by (auto simp: update_ok_def)
  have "\<forall>h \<in> set hs. h_task_id h = ?i" using change_rows_set [OF R] by blast
  note merge = rows_fresh_merge [OF _ this, of "n_history N" "task_history T"]
  from I have "tab_ok h_id (n_history N) (task_history T)" by (simp add: inv_def history_ok_def)
  from merge [OF this] f
  show "tab_ok h_id (n_history N) (task_history (committed u c now hs T))"
    "task_log ?i (committed u c now hs T) = task_log ?i T @ hs"
    "j \<noteq> ?i \<Longrightarrow> task_log j (committed u c now hs T) = task_log j T"
    by (simp_all add: committed_def task_log_def rows_fresh_def)
qed

lemma commit_inv:
  assumes I: "inv E T N" and u: "update_ok T N u" and ph: "ux_phase u = Writing old c now g hs []"
  shows "inv E (committed u c now hs T) N"
proof -
  let ?t = "ux_task u"
  from u ph obtain wt where old: "find (\<lambda>r. k_id r = task_ID ?t) (tasks T) = Some old"
    and st: "task_Status ?t \<in> set task_status_enum" and g: "length g = 32" and c: "c = completed_after old ?t wt"
    and R: "change_rows (task_ID ?t) (ux_actor u) g (task_changes old ?t) hs"
    by (auto simp: update_ok_def)
  from u obtain k where k: "k \<in> set (tasks T)" "k_id k = task_ID ?t" "k_team_id k = task_TeamID ?t"
    by (auto simp: update_ok_def)
  with inv_find_task [OF I k(1)] old have "k_team_id old = task_TeamID ?t" by simp
  then have asg: "\<forall>a. task_AssigneeID ?t = Some a \<longrightarrow> (k_team_id old, a) \<in> member_pairs T"
    using u by (simp add: update_ok_def)
  have "inv E (committed u c now hs T) (N\<lparr>n_history := n_history N\<rparr>)"
    unfolding committed_def c
    by (rule inv_update_log [OF I old st asg R g])
      (use u commit_log [OF I u ph] in \<open>auto simp: update_ok_def committed_def task_log_def\<close>)
  then show ?thesis by simp
qed

lemma find_upd_other:
  assumes "\<And>x. k_id (f x) = k_id x" and "\<And>x. k_id x = i \<Longrightarrow> f x = x"
  shows "find (\<lambda>r. k_id r = i) (map f xs) = find (\<lambda>r. k_id r = i) xs"
  using assms by (induction xs) auto

lemma commit_others:
  assumes I: "inv E T N" and u: "update_ok T N u" and ph: "ux_phase u = Writing old c now g hs []"
    and v: "update_ok T N v" and lock: "\<not> holds_lock v (task_ID (ux_task u))"
    and ids: "h_id ` set hs \<inter> h_id ` set (pending_rows (ux_phase v)) = {}"
  shows "update_ok (committed u c now hs T) N v"
proof -
  let ?T = "committed u c now hs T" and ?i = "task_ID (ux_task v)"
  let ?f = "\<lambda>r. if k_id r = task_ID (ux_task u) then set_task_row (ux_task u) c now r else r"
  have rows: "tasks ?T = map ?f (tasks T)" by (simp add: committed_def updated_tasks_def)
  from v obtain k where "k \<in> set (tasks T)" "k_id k = ?i" "k_team_id k = task_TeamID (ux_task v)"
    by (auto simp: update_ok_def)
  then have "?f k \<in> set (tasks ?T)" "k_id (?f k) = ?i" "k_team_id (?f k) = task_TeamID (ux_task v)"
    by (simp_all add: rows)
  moreover have "phase_ok ?T N (ux_actor v) (ux_task v) (ux_phase v)"
  proof (cases "ux_phase v = Checked")
    case False
    with lock have i: "?i \<noteq> task_ID (ux_task u)" by (simp add: holds_lock_def)
    then have find: "find (\<lambda>r. k_id r = ?i) (tasks ?T) = find (\<lambda>r. k_id r = ?i) (tasks T)"
      unfolding rows by (intro find_upd_other) auto
    have "rows_fresh ?T N ?i (pending_rows (ux_phase v))" if "rows_fresh T N ?i (pending_rows (ux_phase v))"
      using that ids commit_log(3) [OF I u ph i] by (auto simp: rows_fresh_def committed_def)
    with v find show ?thesis by (cases "ux_phase v") (auto simp: update_ok_def)
  qed simp
  ultimately show ?thesis
    using v by (auto simp: update_ok_def committed_def id_set_defs intro!: bexI [of _ "?f k"])
qed

subsection \<open>Preservation\<close>

text \<open>A step that replaces, adds or drops one update, with the others' facts carried over.\<close>

lemma apart_sym: "apart u v \<Longrightarrow> apart v u"
  by (auto simp: apart_def holds_lock_def)

lemma uinv_upd:
  assumes I: "uinv E w" and db: "db_inv E s"
    and others: "\<And>m v. m \<noteq> n \<Longrightarrow> cw_txs w m = Some v \<Longrightarrow> update_ok (tbl s) (cnt s) v"
    and own: "\<And>u. x = Some u \<Longrightarrow> update_ok (tbl s) (cnt s) u"
    and apart: "\<And>u m v. x = Some u \<Longrightarrow> m \<noteq> n \<Longrightarrow> cw_txs w m = Some v \<Longrightarrow> apart u v"
  shows "uinv E (w\<lparr>cw_db := s, cw_txs := (cw_txs w)(n := x)\<rparr>)"
proof -
  let ?x = "(cw_txs w)(n := x)"
  have "update_ok (tbl s) (cnt s) v" if "?x m = Some v" for m v
    using others own that by (cases "m = n") auto
  moreover have "apart u v" if "a \<noteq> b" "?x a = Some u" "?x b = Some v" for a b u v
  proof -
    consider "a = n" | "b = n" | "a \<noteq> n" "b \<noteq> n" by blast
    then show ?thesis
    proof cases
      case 3
      with I that show ?thesis by (simp add: uinv_def)
    next
      case 1
      with that apart [of u b v] show ?thesis by auto
    next
      case 2
      with that apart_sym [OF apart [of v a u]] show ?thesis by auto
    qed
  qed
  ultimately show ?thesis using db unfolding uinv_def by simp
qed

lemma uinv_db:
  assumes I: "uinv E w" and db: "db_inv E s" and f: "frame (tbl (cw_db w)) (cnt (cw_db w)) (tbl s)"
    and e: "evolves (tbl (cw_db w)) (tbl s)" and c: "cnt_le (cnt (cw_db w)) (cnt s)"
  shows "uinv E (w\<lparr>cw_db := s\<rparr>)"
proof -
  have "update_ok (tbl s) (cnt s) u" if "cw_txs w n = Some u" for n u
    using I that update_ok_frame [OF _ f e c] by (simp add: uinv_def)
  with I db show ?thesis by (simp add: uinv_def)
qed

lemma uinvD:
  assumes "uinv E w" and "cw_txs w n = Some u"
  shows "update_ok (tbl (cw_db w)) (cnt (cw_db w)) u"
    and "m \<noteq> n \<Longrightarrow> cw_txs w m = Some v \<Longrightarrow> apart u v"
  using assms unfolding uinv_def by (blast, metis)

lemma uinv_txs:
  assumes I: "uinv E w" and own: "\<And>u. x = Some u \<Longrightarrow> update_ok (tbl (cw_db w)) (cnt (cw_db w)) u"
    and apart: "\<And>u m v. x = Some u \<Longrightarrow> m \<noteq> n \<Longrightarrow> cw_txs w m = Some v \<Longrightarrow> apart u v"
  shows "uinv E (w\<lparr>cw_txs := (cw_txs w)(n := x)\<rparr>)"
proof -
  have "uinv E (w\<lparr>cw_db := cw_db w, cw_txs := (cw_txs w)(n := x)\<rparr>)"
    by (rule uinv_upd [OF I]) (use I in \<open>auto simp: uinv_def intro: own apart\<close>)
  then show ?thesis by simp
qed

lemma uinv_check:
  assumes I: "uinv E w" and s: "tbl s = tbl (cw_db w)" "cnt s = cnt (cw_db w)"
    and ld: "TaskRepo_ByID E taskID s = (Inr current, s1)"
    and role: "RequireTeamRole E actorID (task_TeamID current) TeamRoleMember s1 = (Inr (), s2)"
    and asg: "requireAssigneeIsMember E (task_TeamID current) (ti_AssigneeID inp) s2 = (Inr (), s3)"
  shows "uinv E (w\<lparr>cw_txs := (cw_txs w)(n \<mapsto>
      \<lparr>ux_actor = actorID, ux_task = apply_input current inp, ux_phase = Checked\<rparr>)\<rparr>)"
proof (rule uinv_txs [OF I])
  let ?T = "tbl (cw_db w)" and ?u = "\<lparr>ux_actor = actorID, ux_task = apply_input current inp, ux_phase = Checked\<rparr>"
  from I have D: "db_inv E (cw_db w)" by (simp add: uinv_def)
  from ld s obtain r where r: "find (\<lambda>r. k_id r = taskID) (tasks ?T) = Some r" "current = scan_task r"
    and s1: "tbl s1 = ?T" "cnt s1 = cnt (cw_db w)" by (auto simp: TaskRepo_ByID_Inr)
  have s2: "tbl s2 = ?T" using read_onlyD [OF RequireTeamRole_ro role] s1 by simp
  have "may_act ?T actorID (task_TeamID current) TeamRoleMember"
    using RequireTeamRole_Inr [OF _ role] D s1 by simp
  then have act: "actorID \<in> user_ids ?T" by (simp add: may_act_def)
  have mem: "(task_TeamID current, x) \<in> member_pairs ?T" if "ti_AssigneeID inp = Some x" for x
    using requireAssigneeIsMember_Inr [OF asg that] s2 by simp
  have team: "task_TeamID current = k_team_id r" by (simp add: r(2) scan_task_def)
  from find_Some_iff_mem [OF r(1)] have "r \<in> set (tasks ?T)" "k_id r = taskID" by simp_all
  then have "update_ok ?T (cnt (cw_db w)) ?u" using act mem r(2) team by (auto simp: update_ok_def)
  then show "update_ok ?T (cnt (cw_db w)) u" if "Some ?u = Some u" for u
    using that by auto
  show "apart u v" if "Some ?u = Some u" for u v
    using that by (auto simp: apart_def)
qed

lemma update_ok_phase:
  "update_ok T N u \<Longrightarrow> phase_ok T N (ux_actor u) (ux_task u) p \<Longrightarrow> update_ok T N (u\<lparr>ux_phase := p\<rparr>)"
  by (simp add: update_ok_def)

lemma update_ok_cnt: "update_ok T N u \<Longrightarrow> cnt_le N N' \<Longrightarrow> update_ok T N' u"
  by (erule update_ok_frame [OF _ frame_same evolves_refl]) (simp_all add: same_tasks_def)

lemma uinv_insert:
  assumes I: "uinv E w" and n: "cw_txs w n = Some u" and ph: "ux_phase u = Writing old c now g hs (ch # chs)"
  shows "uinv E (w\<lparr>cw_db := (cw_db w)\<lparr>cnt := (cnt (cw_db w))\<lparr>n_history := n_history (cnt (cw_db w)) + 1\<rparr>\<rparr>,
      cw_txs := (cw_txs w)(n \<mapsto> u\<lparr>ux_phase :=
        Writing old c now g (hs @ [history_entry (n_history (cnt (cw_db w))) u g ch now']) chs\<rparr>)\<rparr>)"
proof (rule uinv_upd [OF I])
  let ?T = "tbl (cw_db w)" and ?N = "cnt (cw_db w)" and ?i = "task_ID (ux_task u)"
  let ?s = "(cw_db w)\<lparr>cnt := ?N\<lparr>n_history := n_history ?N + 1\<rparr>\<rparr>" and ?h = "history_entry (n_history ?N) u g ch now'"
  let ?u = "u\<lparr>ux_phase := Writing old c now g (hs @ [?h]) chs\<rparr>"
  have le: "cnt_le ?N (cnt ?s)" by (simp add: cnt_le_def)
  from I have D: "db_inv E (cw_db w)" by (simp add: uinv_def)
  with inv_cnt_mono [OF D le] show "db_inv E ?s" by simp
  show "update_ok (tbl ?s) (cnt ?s) v" if "cw_txs w m = Some v" for m v
    using update_ok_cnt [OF uinvD(1) [OF I that] le] by simp
  from D have tab: "tab_ok h_id (n_history ?N) (task_history ?T)" by (simp add: inv_def history_ok_def)
  note uok = uinvD(1) [OF I n]
  with ph obtain done' where p: "find (\<lambda>r. k_id r = ?i) (tasks ?T) = Some old" "task_Status (ux_task u) \<in> set task_status_enum"
    "length g = 32" "\<exists>w. c = completed_after old (ux_task u) w" "task_changes old (ux_task u) = done' @ ch # chs"
    "change_rows ?i (ux_actor u) g done' hs" "rows_fresh ?T ?N ?i hs"
    by (auto simp: update_ok_def)
  have "change_rows ?i (ux_actor u) g (done' @ [ch]) (hs @ [?h])"
    using p(6) by (simp add: change_rows_def history_entry_def list_all2_appendI)
  moreover have "rows_fresh ?T (cnt ?s) ?i (hs @ [?h])"
    using p(7) tab by (fastforce simp: rows_fresh_def history_entry_def sorted_wrt_append tab_ok_def task_log_def)
  ultimately have ok: "update_ok (tbl ?s) (cnt ?s) ?u"
    using update_ok_phase [OF update_ok_cnt [OF uok le], of "Writing old c now g (hs @ [?h]) chs"] p
    by (auto intro!: exI [of _ "done' @ [ch]"])
  show "update_ok (tbl ?s) (cnt ?s) x" if "Some ?u = Some x" for x
    using that ok by simp
  show "apart x v" if x: "Some ?u = Some x" and m: "m \<noteq> n" "cw_txs w m = Some v" for x m v
  proof -
    have "h_id r < n_history ?N" if "r \<in> set (pending_rows (ux_phase v))" for r
      using uinvD(1) [OF I m(2)] that by (cases "ux_phase v") (auto simp: update_ok_def rows_fresh_def)
    then have "n_history ?N \<notin> h_id ` set (pending_rows (ux_phase v))" by fastforce
    moreover have "apart u v" by (rule uinvD(2) [OF I n m])
    moreover from x have "x = ?u" by simp
    ultimately show ?thesis using ph by (simp add: apart_def history_entry_def)
  qed
qed

lemma uinv_lock:
  assumes I: "uinv E w" and n: "cw_txs w n = Some u"
    and free: "\<forall>m v. cw_txs w m = Some v \<longrightarrow> \<not> holds_lock v (task_ID (ux_task u))"
    and old: "find (\<lambda>r. k_id r = task_ID (ux_task u)) (tasks (tbl (cw_db w))) = Some old"
  shows "uinv E (w\<lparr>cw_txs := (cw_txs w)(n \<mapsto> u\<lparr>ux_phase := Locked old\<rparr>)\<rparr>)"
proof -
  have "update_ok (tbl (cw_db w)) (cnt (cw_db w)) (u\<lparr>ux_phase := Locked old\<rparr>)"
    using old by (intro update_ok_phase uinvD(1) [OF I n]) simp
  moreover have "apart (u\<lparr>ux_phase := Locked old\<rparr>) v" if "cw_txs w m = Some v" for m v
    using free that by (auto simp: apart_def)
  ultimately show ?thesis by (intro uinv_txs [OF I]) auto
qed

lemma uinv_write:
  assumes I: "uinv E w" and n: "cw_txs w n = Some u" and ph: "ux_phase u = Locked old"
    and st: "task_Status (ux_task u) \<in> set task_status_enum" and g: "length g = 32"
  shows "uinv E (w\<lparr>cw_txs := (cw_txs w)(n \<mapsto> u\<lparr>ux_phase :=
      Writing old (completed_after old (ux_task u) wt) now g [] (task_changes old (ux_task u))\<rparr>)\<rparr>)"
proof -
  let ?p = "Writing old (completed_after old (ux_task u) wt) now g [] (task_changes old (ux_task u))"
  have "find (\<lambda>r. k_id r = task_ID (ux_task u)) (tasks (tbl (cw_db w))) = Some old"
    using uinvD(1) [OF I n] ph by (simp add: update_ok_def)
  then have "update_ok (tbl (cw_db w)) (cnt (cw_db w)) (u\<lparr>ux_phase := ?p\<rparr>)"
    using st g by (intro update_ok_phase uinvD(1) [OF I n]) (auto simp: rows_fresh_def change_rows_def)
  moreover have "apart (u\<lparr>ux_phase := ?p\<rparr>) v" if "m \<noteq> n" "cw_txs w m = Some v" for m v
    using uinvD(2) [OF I n that] ph by (auto simp: apart_def)
  ultimately show ?thesis by (intro uinv_txs [OF I]) auto
qed

lemma uinv_commit:
  assumes I: "uinv E w" and n: "cw_txs w n = Some u" and ph: "ux_phase u = Writing old c now g hs []"
  shows "uinv E (w\<lparr>cw_db := (cw_db w)\<lparr>tbl := committed u c now hs (tbl (cw_db w))\<rparr>, cw_txs := (cw_txs w)(n := None)\<rparr>)"
proof (rule uinv_upd [OF I])
  let ?s = "(cw_db w)\<lparr>tbl := committed u c now hs (tbl (cw_db w))\<rparr>"
  from I have D: "db_inv E (cw_db w)" by (simp add: uinv_def)
  note ok = uinvD(1) [OF I n]
  show "db_inv E ?s" using commit_inv [OF D ok ph] by simp
  show "update_ok (tbl ?s) (cnt ?s) v" if m: "m \<noteq> n" "cw_txs w m = Some v" for m v
    using commit_others [OF D ok ph uinvD(1) [OF I m(2)]] uinvD(2) [OF I n m] ph by (simp add: apart_def)
qed simp_all

lemma uinv_step:
  assumes I: "uinv E w" and st: "ustep E w w'"
  shows "uinv E w'"
  using st
proof cases
  case (check n s taskID current s1 actorID s2 inp s3)
  then show ?thesis using uinv_check [OF I check(3-7)] by simp
next
  case (lock n u old)
  then show ?thesis using uinv_lock [OF I lock(2,4,5)] by simp
next
  case (upd n u old g wt now)
  then show ?thesis using uinv_write [OF I upd(2-5)] by simp
next
  case (insert n u old c now g hs ch chs now')
  then show ?thesis using uinv_insert [OF I insert(2,3)] by simp
next
  case (commit n u old c now g hs)
  then show ?thesis using uinv_commit [OF I commit(2,3)] by (simp add: committed_def)
next
  case (abort n)
  then show ?thesis using uinv_txs [OF I, of None] by simp
next
  case (create R actorID teamID inp r res s r')
  from I have "db_inv E (cw_db w)" by (simp add: uinv_def)
  then show ?thesis using uinv_db [OF I] Tasks_Create_effect [OF _ create(2)] create(1) by simp
next
  case (other op)
  from I have "db_inv E (cw_db w)" by (simp add: uinv_def)
  then show ?thesis using uinv_db [OF I] run_other_effect frame_same other by simp
qed

lemma ureach_inv: "ureach E w \<Longrightarrow> uinv E w"
proof (induction rule: ureach.induct)
  case (init s)
  then show ?case by (simp add: uinv_def)
next
  case (step w w')
  then show ?case by (metis uinv_step)
qed

subsection \<open>An update alone\<close>

text \<open>With nobody in its way, the steps of an update do what the transaction of \<open>Tasks.Update\<close> does.\<close>

lemma insert_changes_steps:
  assumes "insert_changes E i a g chs s = (Inr u', s')" and "cw_txs w n = Some u"
    and "ux_phase u = Writing old c now g hs chs" and "ux_actor u = a" and "task_ID (ux_task u) = i"
    and "cnt (cw_db w) = cnt s"
  shows "\<exists>hs'. tbl s' = (tbl s)\<lparr>task_history := task_history (tbl s) @ hs'\<rparr> \<and>
    (ustep E)\<^sup>*\<^sup>* w (w\<lparr>cw_db := (cw_db w)\<lparr>cnt := cnt s'\<rparr>,
      cw_txs := (cw_txs w)(n \<mapsto> u\<lparr>ux_phase := Writing old c now g (hs @ hs') []\<rparr>)\<rparr>)"
  using assms
proof (induction chs arbitrary: s w u hs)
  case Nil
  then have alone: "w\<lparr>cw_db := (cw_db w)\<lparr>cnt := cnt s'\<rparr>, cw_txs := (cw_txs w)(n \<mapsto> u\<lparr>ux_phase := Writing old c now g (hs @ []) []\<rparr>)\<rparr> = w"
    by (cases u) (simp add: ret_def fun_upd_idem)
  show ?case
    by (rule exI [of _ "[]"]) (unfold alone, use Nil in \<open>simp add: ret_def\<close>)
next
  case (Cons ch chs)
  let ?h = "history_entry (n_history (cnt (cw_db w))) u g ch (clock E (stmt s))"
  let ?u = "u\<lparr>ux_phase := Writing old c now g (hs @ [?h]) chs\<rparr>"
  let ?w = "w\<lparr>cw_db := (cw_db w)\<lparr>cnt := (cnt (cw_db w))\<lparr>n_history := n_history (cnt (cw_db w)) + 1\<rparr>\<rparr>, cw_txs := (cw_txs w)(n \<mapsto> ?u)\<rparr>"
  from Cons.prems(1) obtain x s1 where h: "sql_insert_history E i a g (fc_Field ch) (Some (fc_OldValue ch))
      (Some (fc_NewValue ch)) s = (Inr x, s1)" and rest: "insert_changes E i a g chs s1 = (Inr u', s')"
    by (auto simp: go_try_Inr)
  note h' = sql_insert_history_Inr [OF h]
  have step: "ustep E w ?w" by (rule ustep.insert [OF Cons.prems(2,3)])
  have "\<exists>hs'. tbl s' = (tbl s1)\<lparr>task_history := task_history (tbl s1) @ hs'\<rparr> \<and>
    (ustep E)\<^sup>*\<^sup>* ?w (?w\<lparr>cw_db := (cw_db ?w)\<lparr>cnt := cnt s'\<rparr>,
      cw_txs := (cw_txs ?w)(n \<mapsto> ?u\<lparr>ux_phase := Writing old c now g ((hs @ [?h]) @ hs') []\<rparr>)\<rparr>)"
    using rest h' Cons.prems by (intro Cons.IH) simp_all
  then obtain hs' where T: "tbl s' = (tbl s1)\<lparr>task_history := task_history (tbl s1) @ hs'\<rparr>"
    and run: "(ustep E)\<^sup>*\<^sup>* ?w (?w\<lparr>cw_db := (cw_db ?w)\<lparr>cnt := cnt s'\<rparr>,
      cw_txs := (cw_txs ?w)(n \<mapsto> ?u\<lparr>ux_phase := Writing old c now g ((hs @ [?h]) @ hs') []\<rparr>)\<rparr>)" by blast
  have "tbl s' = (tbl s)\<lparr>task_history := task_history (tbl s) @ ?h # hs'\<rparr>"
    using T h' Cons.prems(4-6) by (simp add: history_entry_def)
  moreover have "(ustep E)\<^sup>*\<^sup>* w (w\<lparr>cw_db := (cw_db w)\<lparr>cnt := cnt s'\<rparr>,
      cw_txs := (cw_txs w)(n \<mapsto> u\<lparr>ux_phase := Writing old c now g (hs @ ?h # hs') []\<rparr>)\<rparr>)"
    using converse_rtranclp_into_rtranclp [OF step run] by (simp del: fun_upd_apply)
  ultimately show ?case by blast
qed

lemma insert_changes_sorted:
  assumes ch: "insert_changes E i a g chs s = (Inr u, s')" and tab: "tab_ok h_id (n_history (cnt s)) (task_history (tbl s))"
  shows "sort_key h_id (task_history (tbl s')) = task_history (tbl s')"
proof -
  from insert_changes_Inr [OF ch] obtain hs where "history_rows (n_history (cnt s)) i a g chs hs"
    and T: "tbl s' = (tbl s)\<lparr>task_history := task_history (tbl s) @ hs\<rparr>" by blast
  from tab_ok_sorted [OF tab_ok_history_rows [OF tab this(1)], of "\<lambda>_. True"] T show ?thesis by simp
qed

lemma TaskRepo_Update_steps:
  assumes D: "db_inv E (cw_db w)" and s: "tbl s = tbl (cw_db w)" "cnt s = cnt (cw_db w)"
    and n: "cw_txs w n = Some u" "ux_phase u = Locked old"
    and old: "find (\<lambda>r. k_id r = task_ID (ux_task u)) (tasks (tbl (cw_db w))) = Some old"
    and tx: "TaskRepo_Update E (ux_actor u) (ux_task u) s = (Inr t, s')"
  shows "(ustep E)\<^sup>*\<^sup>* w (w\<lparr>cw_db := (cw_db w)\<lparr>cnt := cnt s', tbl := tbl s'\<rparr>, cw_txs := (cw_txs w)(n := None)\<rparr>)"
proof -
  let ?t = "ux_task u" and ?T = "tbl (cw_db w)" and ?s1 = "s\<lparr>stmt := Suc (stmt s)\<rparr>"
  let ?c = "completed_after old ?t (wall E (Suc (stmt s)))" and ?now = "clock E (Suc (stmt s))"
  from tx old s obtain c s1 s2 s4 where c: "new_completed_at E old ?t ?s1 = (Inr c, s1)"
    and upd: "sql_update_task E ?t c s1 = (Inr (), s2)"
    and ch: "insert_changes E (task_ID ?t) (ux_actor u) (EncodeToString (map (rnd E (stmt s2)) [0..<16]))
      (task_changes old ?t) s2 = (Inr (), s4)" and s': "tbl s' = tbl s4" "cnt s' = cnt s4"
    by (auto simp: TaskRepo_Update_def go_try_Inr query_Inr ret_def fail_def split: option.splits)
  let ?g = "EncodeToString (map (rnd E (stmt s2)) [0..<16])"
  from new_completed_at_Inr [OF c] have c': "c = ?c" "s1 = ?s1" by simp_all
  have st: "task_Status ?t \<in> set task_status_enum" and s2: "cnt s2 = cnt s"
      "tbl s2 = ?T\<lparr>tasks := updated_tasks ?t ?c ?now (tasks ?T)\<rparr>"
    using sql_update_task_Inr [OF upd] find_task_ids [OF old] s unfolding c' by simp_all
  let ?u = "u\<lparr>ux_phase := Writing old ?c ?now ?g [] (task_changes old ?t)\<rparr>"
  let ?w = "w\<lparr>cw_txs := (cw_txs w)(n \<mapsto> ?u)\<rparr>"
  have "ustep E w ?w" by (rule ustep.upd [OF n st]) (simp add: length_EncodeToString)
  moreover from insert_changes_steps [OF ch, of ?w n ?u old ?c ?now "[]"] s2 s obtain hs where
    T: "tbl s4 = (tbl s2)\<lparr>task_history := task_history (tbl s2) @ hs\<rparr>"
    and run: "(ustep E)\<^sup>*\<^sup>* ?w (?w\<lparr>cw_db := (cw_db w)\<lparr>cnt := cnt s4\<rparr>,
      cw_txs := (cw_txs ?w)(n \<mapsto> ?u\<lparr>ux_phase := Writing old ?c ?now ?g hs []\<rparr>)\<rparr>)"
    by (auto simp del: fun_upd_apply simp: fun_upd_same)
  moreover have "ustep E (?w\<lparr>cw_db := (cw_db w)\<lparr>cnt := cnt s4\<rparr>,
      cw_txs := (cw_txs ?w)(n \<mapsto> ?u\<lparr>ux_phase := Writing old ?c ?now ?g hs []\<rparr>)\<rparr>)
    (w\<lparr>cw_db := (cw_db w)\<lparr>cnt := cnt s', tbl := tbl s'\<rparr>, cw_txs := (cw_txs w)(n := None)\<rparr>)"
  proof -
    have "sort_key h_id (task_history (tbl s4)) = task_history (tbl s4)"
      by (rule insert_changes_sorted [OF ch]) (use D s s2 in \<open>simp add: inv_def history_ok_def\<close>)
    then have sorted: "sort_key h_id (task_history ?T @ hs) = task_history ?T @ hs" using T s2 by simp
    show ?thesis
      using ustep.commit [of "?w\<lparr>cw_db := (cw_db w)\<lparr>cnt := cnt s4\<rparr>,
          cw_txs := (cw_txs ?w)(n \<mapsto> ?u\<lparr>ux_phase := Writing old ?c ?now ?g hs []\<rparr>)\<rparr>" n _ old ?c ?now ?g hs E]
        sorted T s2 s' by (simp del: fun_upd_apply add: fun_upd_same)
  qed
  ultimately show ?thesis
    by (meson converse_rtranclp_into_rtranclp rtranclp.rtrancl_into_rtrancl)
qed

lemma update_task_steps:
  assumes D: "db_inv E s" and s: "tbl s = tbl (cw_db w)" "cnt s = cnt (cw_db w)"
    and n: "cw_txs w n = None" and free: "\<forall>m v. cw_txs w m = Some v \<longrightarrow> \<not> holds_lock v taskID"
    and tx: "update_task_tx E actorID taskID inp s = (Inr t, s')"
  shows "(ustep E)\<^sup>*\<^sup>* w (w\<lparr>cw_db := (cw_db w)\<lparr>cnt := cnt s', tbl := tbl s'\<rparr>\<rparr>)"
proof -
  from tx obtain current s1 s2 s3 where ld: "TaskRepo_ByID E taskID s = (Inr current, s1)"
    and role: "RequireTeamRole E actorID (task_TeamID current) TeamRoleMember s1 = (Inr (), s2)"
    and asg: "requireAssigneeIsMember E (task_TeamID current) (ti_AssigneeID inp) s2 = (Inr (), s3)"
    and upd: "TaskRepo_Update E actorID (apply_input current inp) s3 = (Inr t, s')"
    by (auto simp: update_task_tx_def go_try_Inr ret_def)
  let ?t = "apply_input current inp" and ?T = "tbl (cw_db w)"
  from ld s obtain r where r: "find (\<lambda>r. k_id r = taskID) (tasks ?T) = Some r" "current = scan_task r"
    and s1: "tbl s1 = ?T" "cnt s1 = cnt (cw_db w)" by (auto simp: TaskRepo_ByID_Inr)
  from find_Some_iff_mem [OF r(1)] r(2) have i: "task_ID ?t = taskID" by simp
  have s3: "tbl s3 = ?T" "cnt s3 = cnt (cw_db w)"
    using read_onlyD [OF RequireTeamRole_ro role] read_onlyD [OF requireAssigneeIsMember_ro asg] s1 by simp_all
  let ?u = "\<lparr>ux_actor = actorID, ux_task = ?t, ux_phase = Checked\<rparr>"
  let ?w1 = "w\<lparr>cw_txs := (cw_txs w)(n \<mapsto> ?u)\<rparr>"
  let ?w2 = "w\<lparr>cw_txs := (cw_txs w)(n \<mapsto> ?u\<lparr>ux_phase := Locked r\<rparr>)\<rparr>"
  have "ustep E w ?w1" by (rule ustep.check [OF n s ld role asg])
  moreover have "ustep E ?w1 ?w2"
    using ustep.lock [of ?w1 n ?u r E] free i r(1) by (simp add: holds_lock_def)
  moreover have "(ustep E)\<^sup>*\<^sup>* ?w2 (w\<lparr>cw_db := (cw_db w)\<lparr>cnt := cnt s', tbl := tbl s'\<rparr>\<rparr>)"
    using TaskRepo_Update_steps [of E ?w2 s3 n "?u\<lparr>ux_phase := Locked r\<rparr>" r t s'] D s s3 r(1) i upd n
    by (simp add: fun_upd_idem)
  ultimately show ?thesis by (meson converse_rtranclp_into_rtranclp)
qed

subsection \<open>Properties\<close>

fun locked_row :: "tx_phase \<Rightarrow> task_row option" where
  "locked_row Checked = None"
| "locked_row (Locked old) = Some old"
| "locked_row (Writing old c now g hs chs) = Some old"

lemma locked_row_current:
  assumes "update_ok T N u" and "holds_lock u i"
  shows "find (\<lambda>r. k_id r = i) (tasks T) = locked_row (ux_phase u)"
  using assms by (cases "ux_phase u") (auto simp: update_ok_def holds_lock_def)

text \<open>C9. However the statements of concurrent task updates interleave with each other and with the other
  requests, every task stays well formed and its history stays complete: per field, a chain of changes from the
  value at creation to the present one. At most one update holds a task's row, and the old values it computes
  the changes from are the ones committed, until it commits itself.
\<close>

theorem concurrent_updates_keep_history:
  assumes "ureach E w" and "k \<in> set (tasks (tbl (cw_db w)))"
  shows "task_ok (tbl (cw_db w)) k \<and> log_ok k (task_log (k_id k) (tbl (cw_db w))) \<and>
    (\<forall>n u. cw_txs w n = Some u \<and> holds_lock u (k_id k) \<longrightarrow> locked_row (ux_phase u) = Some k \<and>
      (\<forall>m v. cw_txs w m = Some v \<and> holds_lock v (k_id k) \<longrightarrow> m = n))"
proof (intro conjI allI impI)
  from ureach_inv [OF assms(1)] have I: "uinv E w" and D: "db_inv E (cw_db w)" by (simp_all add: uinv_def)
  from D assms(2) show "task_ok (tbl (cw_db w)) k" and "log_ok k (task_log (k_id k) (tbl (cw_db w)))"
    by (simp_all add: inv_def tasks_ok_def audit_ok_def)
  fix n u assume u: "cw_txs w n = Some u \<and> holds_lock u (k_id k)"
  show "locked_row (ux_phase u) = Some k"
    using locked_row_current [OF uinvD(1) [OF I]] inv_find_task [OF D assms(2)] u by metis
  fix m v assume v: "cw_txs w m = Some v \<and> holds_lock v (k_id k)"
  show "m = n"
    using uinvD(2) [OF I, of n u m v] u v by (auto simp: apart_def holds_lock_def)
qed

text \<open>C10. The transaction of \<open>Tasks.Update\<close>, run while no other update holds the row, is a run of these steps
  with the same tables and counters at the end, whatever else is in progress.
\<close>

theorem update_transaction_runs_as_steps:
  assumes "ureach E w" and "tbl s = tbl (cw_db w)" and "cnt s = cnt (cw_db w)" and "cw_txs w n = None"
    and "\<forall>m v. cw_txs w m = Some v \<longrightarrow> \<not> holds_lock v taskID"
    and "update_task_tx E actorID taskID inp s = (Inr t, s')"
  shows "(ustep E)\<^sup>*\<^sup>* w (w\<lparr>cw_db := (cw_db w)\<lparr>cnt := cnt s', tbl := tbl s'\<rparr>\<rparr>)"
proof -
  from ureach_inv [OF assms(1)] have "db_inv E (cw_db w)" by (simp add: uinv_def)
  then show ?thesis using assms(2-6) by (intro update_task_steps) simp_all
qed

subsection \<open>Two updates of one task\<close>

text \<open>One update has made its checks and waits for the row while another runs to its commit.\<close>

definition waiting :: update_tx where
  "waiting = \<lparr>ux_actor = 1, ux_task = apply_input (scan_task demo_task)
     \<lparr>ti_AssigneeID = None, ti_Title = ''c'', ti_Description = ''d'', ti_Status = TaskStatusTodo\<rparr>,
     ux_phase = Checked\<rparr>"

definition race_start :: cworld where
  "race_start = \<lparr>cw_db = demo_db, cw_txs = (\<lambda>_. None)(1 \<mapsto> waiting)\<rparr>"

definition overtaken :: db where
  "overtaken = snd (update_task_tx demo_env 2 1 demo_input demo_db)"

definition race_end :: cworld where
  "race_end = race_start\<lparr>cw_db := demo_db\<lparr>cnt := cnt overtaken, tbl := tbl overtaken\<rparr>,
     cw_txs := (\<lambda>_. None)(1 \<mapsto> waiting\<lparr>ux_phase := Locked (hd (tasks (tbl overtaken)))\<rparr>)\<rparr>"

lemma ureach_run: "(ustep E)\<^sup>*\<^sup>* w w' \<Longrightarrow> ureach E w \<Longrightarrow> ureach E w'"
  by (induction rule: rtranclp_induct) (auto intro: ureach.step)

lemma race_start_reach: "ureach demo_env race_start"
proof -
  let ?w = "\<lparr>cw_db = demo_db, cw_txs = \<lambda>_. None\<rparr>" and ?s1 = "demo_db\<lparr>stmt := 1\<rparr>"
  have team: "task_TeamID (scan_task demo_task) = 1" by (simp add: scan_task_def demo_task_def)
  have ld: "TaskRepo_ByID demo_env 1 demo_db = (Inr (scan_task demo_task), ?s1)"
    by (simp add: TaskRepo_ByID_Inr demo_env_def demo_db_def demo_tables_def demo_task_def)
  have "\<not> isl (fst (RequireTeamRole demo_env 1 1 TeamRoleMember ?s1))" by code_simp
  then obtain s2 where role: "RequireTeamRole demo_env 1 (task_TeamID (scan_task demo_task)) TeamRoleMember ?s1 = (Inr (), s2)"
    unfolding team by (metis isl_def old.unit.exhaust prod.exhaust_sel sum.exhaust_sel)
  have asg: "requireAssigneeIsMember demo_env (task_TeamID (scan_task demo_task)) None s2 = (Inr (), s2)"
    by (simp add: requireAssigneeIsMember_def ret_def)
  have "ureach demo_env ?w" by (rule ureach.init [OF demo_inv])
  moreover have "ustep demo_env ?w race_start"
    using ustep.check [of ?w 1 demo_db demo_env 1 "scan_task demo_task" ?s1 1 s2
        "\<lparr>ti_AssigneeID = None, ti_Title = ''c'', ti_Description = ''d'', ti_Status = TaskStatusTodo\<rparr>" s2] ld role asg
    by (simp add: race_start_def waiting_def)
  ultimately show ?thesis by (rule ureach.step)
qed

lemma overtaking:
  obtains t where "update_task_tx demo_env 2 1 demo_input demo_db = (Inr t, overtaken)"
proof -
  have "\<not> isl (fst (update_task_tx demo_env 2 1 demo_input demo_db))" by code_simp
  then show ?thesis
    using that unfolding overtaken_def by (metis isl_def prod.exhaust_sel sum.exhaust_sel)
qed

lemma race_free: "\<forall>m v. cw_txs race_start m = Some v \<longrightarrow> \<not> holds_lock v 1"
  by (simp add: race_start_def waiting_def holds_lock_def)

lemma race_end_reach: "ureach demo_env race_end"
proof -
  let ?w = "race_start\<lparr>cw_db := demo_db\<lparr>cnt := cnt overtaken, tbl := tbl overtaken\<rparr>\<rparr>"
  let ?k = "hd (tasks (tbl overtaken))"
  obtain t where tx: "update_task_tx demo_env 2 1 demo_input demo_db = (Inr t, overtaken)" by (rule overtaking)
  have "(ustep demo_env)\<^sup>*\<^sup>* race_start ?w"
    using update_task_steps [OF demo_inv _ _ _ race_free tx, of 0] by (simp add: race_start_def)
  then have "ureach demo_env ?w" by (rule ureach_run [OF _ race_start_reach])
  moreover have "find (\<lambda>r. k_id r = 1) (tasks (tbl overtaken)) = Some ?k" by code_simp
  then have "ustep demo_env ?w race_end"
    using ustep.lock [of ?w 1 waiting ?k demo_env] race_free
    by (simp add: race_start_def race_end_def waiting_def holds_lock_def scan_task_def apply_input_def demo_task_def)
  ultimately show ?thesis by (rule ureach.step)
qed

theorem concurrent_updates_keep_history_witness:
  "let k = hd (tasks (tbl overtaken)) in
     log_ok k (task_log 1 (tbl (cw_db race_end))) \<and> length (task_log 1 (tbl (cw_db race_end))) = 4 \<and>
     k_title k = ''b'' \<and> cw_txs race_end 1 = Some (waiting\<lparr>ux_phase := Locked k\<rparr>)"
proof -
  let ?k = "hd (tasks (tbl overtaken))"
  have k: "k_id ?k = 1" "k_title ?k = ''b''" "length (task_log 1 (tbl overtaken)) = 4" by code_simp+
  have "tasks (tbl overtaken) \<noteq> []" by code_simp
  then have "?k \<in> set (tasks (tbl (cw_db race_end)))" by (simp add: race_end_def)
  from concurrent_updates_keep_history [OF race_end_reach this] k show ?thesis
    by (simp add: Let_def race_end_def)
qed

theorem update_transaction_runs_as_steps_witness:
  "(ustep demo_env)\<^sup>*\<^sup>* race_start (race_start\<lparr>cw_db := demo_db\<lparr>cnt := cnt overtaken, tbl := tbl overtaken\<rparr>\<rparr>)"
proof -
  obtain t where "update_task_tx demo_env 2 1 demo_input demo_db = (Inr t, overtaken)" by (rule overtaking)
  from update_transaction_runs_as_steps [OF race_start_reach _ _ _ race_free this, of 0] show ?thesis
    by (simp add: race_start_def)
qed

end
