(* ===== verification/Snapshot_Reads.thy ===== *)
theory Snapshot_Reads
  imports Tasks_Service Scenario
begin

text \<open>
  Two updates under MySQL's default isolation, REPEATABLE READ, which the program does not change. Plain reads of a
  transaction come from the snapshot its first read takes, overlaid with its own changes; \<open>UPDATE\<close>, \<open>DELETE\<close> and
  \<open>SELECT ... FOR UPDATE\<close> work on the latest committed rows and lock the ones they match. Both \<open>Comments.Update\<close> and
  \<open>Tasks.Update\<close> read, write and read again; \<open>update_comment_rr\<close> and \<open>update_task_rr\<close> are their transactions with the
  snapshot and the committed state apart, and coincide with the ones of the services when the two are the same.
  The properties say what their answers are worth when other transactions have committed in between.
\<close>

subsection \<open>What a transaction sees\<close>

text \<open>
  The row with id \<open>i\<close> as a plain \<open>SELECT\<close> in the transaction sees it: its own version when the transaction has
  changed the row, else the snapshot's. \<open>before\<close> and \<open>after\<close> are the committed rows its \<open>UPDATE\<close> found and left; an
  \<open>UPDATE\<close> that matches no row or sets a row to the values it has makes no version.
\<close>

definition rr_view :: "('r \<Rightarrow> int64) \<Rightarrow> int64 \<Rightarrow> 'r list \<Rightarrow> 'r list \<Rightarrow> 'r list \<Rightarrow> 'r option" where
  "rr_view key i snap before after =
     (if find (\<lambda>r. key r = i) after = find (\<lambda>r. key r = i) before then find (\<lambda>r. key r = i) snap
      else find (\<lambda>r. key r = i) after)"

lemma rr_view_alone: "rr_view key i before before after = find (\<lambda>r. key r = i) after"
  by (simp add: rr_view_def)

lemma go_try_query: "go_try (query E sel) f k s = go_try (driver_call E (sel (clock E (stmt s)) (tbl s))) f k s"
  by (simp add: go_try_def query_def driver_call_def exec_def ret_def Let_def split: fault.splits)

subsection \<open>Comments.Update\<close>

text \<open>The checks read the snapshot \<open>snap\<close>, taken with the first of them; the \<open>UPDATE\<close> works on what is committed when
  it runs, \<open>s\<close>; the row it matches stays locked until the commit.\<close>

definition update_comment_rr :: "env \<Rightarrow> int64 \<Rightarrow> int64 \<Rightarrow> string \<Rightarrow> db \<Rightarrow> TaskComment prog" where
  "update_comment_rr E actorID commentID body snap s =
     (case fst (requireCanModify E actorID commentID snap) of
        Inl e \<Rightarrow> (Inl e, s)
      | Inr _ \<Rightarrow>
          go_try (go_try (sql_update_comment E commentID body) (Wrap ''update comment'')
              (\<lambda>_ s'. go_try (driver_call E (rr_view c_id commentID (task_comments (tbl snap))
                    (task_comments (tbl s)) (task_comments (tbl s')))) (Wrap ''scan updated comment'')
                  (\<lambda>row. case row of None \<Rightarrow> fail ErrNotFound | Some r \<Rightarrow> ret (scan_comment r)) s'))
            (Wrap ''update comment'') ret s)"

text \<open>With nobody else around it is the transaction of \<open>Comments.Update\<close>.\<close>

lemma update_comment_rr_alone:
  "update_comment_rr E actorID commentID body s (snd (requireCanModify E actorID commentID s)) =
     update_comment_tx E actorID commentID body s"
proof -
  obtain x s1 where c: "requireCanModify E actorID commentID s = (x, s1)" by fastforce
  have t: "tbl s1 = tbl s" using read_onlyD [OF requireCanModify_ro c] by simp
  show ?thesis
  proof (cases x)
    case (Inl e)
    with c show ?thesis by (simp add: update_comment_rr_def update_comment_tx_def go_try_def)
  next
    case (Inr u)
    have "CommentRepo_Update E commentID body = go_try (sql_update_comment E commentID body) (Wrap ''update comment'')
      (\<lambda>_ s'. go_try (driver_call E (find (\<lambda>r. c_id r = commentID) (task_comments (tbl s')))) (Wrap ''scan updated comment'')
        (\<lambda>row. case row of None \<Rightarrow> fail ErrNotFound | Some r \<Rightarrow> ret (scan_comment r)) s')"
      by (simp add: CommentRepo_Update_def go_try_query [abs_def])
    with c Inr t show ?thesis
      by (simp add: update_comment_rr_def rr_view_alone update_comment_tx_def go_try_def [of "requireCanModify E actorID commentID"])
  qed
qed

lemma find_updated:
  assumes "distinct (map key xs)" and "\<And>x. key (f x) = key x"
  shows "find (\<lambda>r. key r = i) (map (\<lambda>r. if key r = i then f r else r) xs) = map_option f (find (\<lambda>r. key r = i) xs)"
  using assms by (induction xs) auto

lemma update_comment_rr_Inr:
  assumes "update_comment_rr E actorID commentID body snap s = (Inr c, s')"
  obtains row now where "fst (requireCanModify E actorID commentID snap) = Inr ()"
    and "tbl s' = (tbl s)\<lparr>task_comments := map (\<lambda>r. if c_id r = commentID then set_comment_row body now r else r)
      (task_comments (tbl s))\<rparr>"
    and "rr_view c_id commentID (task_comments (tbl snap)) (task_comments (tbl s)) (task_comments (tbl s')) = Some row"
    and "c = scan_comment row"
  using assms
  by (auto simp: update_comment_rr_def go_try_Inr driver_call_Inr sql_update_comment_def exec_Inr ret_def fail_def
      split: sum.splits option.splits)

text \<open>C11. What an acknowledged comment update means when other transactions run beside it. If at the time of its
  \<open>UPDATE\<close> the comment exists with another body, the answer is the updated row. If not, because the comment was
  deleted meanwhile or has that body already, nothing is written and the answer is the row of the transaction's
  snapshot, in its old state: an update that lost to a deletion is still reported as a success.\<close>

theorem comment_update_under_snapshot:
  assumes I: "db_inv E s" and upd: "update_comment_rr E actorID commentID body snap s = (Inr c, s')"
  shows "co_ID c = commentID \<and>
    (if \<exists>r \<in> set (task_comments (tbl s)). c_id r = commentID \<and> c_body r \<noteq> body
     then co_Body c = body \<and> (\<exists>r \<in> set (task_comments (tbl s')). c = scan_comment r)
     else tbl s' = tbl s \<and> (\<exists>r \<in> set (task_comments (tbl snap)). c = scan_comment r))"
  using upd
proof (rule update_comment_rr_Inr)
  fix row now
  let ?C = "task_comments (tbl s)" and ?find = "find (\<lambda>r. c_id r = commentID)"
  assume s': "tbl s' = (tbl s)\<lparr>task_comments := map (\<lambda>r. if c_id r = commentID then set_comment_row body now r else r) ?C\<rparr>"
    and row: "rr_view c_id commentID (task_comments (tbl snap)) ?C (task_comments (tbl s')) = Some row" and c: "c = scan_comment row"
  from I have d: "distinct (map c_id ?C)" using tab_ok_distinct by (auto simp: inv_def comments_ok_def)
  have after: "?find (task_comments (tbl s')) = map_option (set_comment_row body now) (?find ?C)"
    unfolding s' using find_updated [OF d, of "set_comment_row body now" commentID] by simp
  show ?thesis
  proof (cases "\<exists>r \<in> set ?C. c_id r = commentID \<and> c_body r \<noteq> body")
    case True
    then obtain r where r: "r \<in> set ?C" "c_id r = commentID" "c_body r \<noteq> body" by blast
    then have "?find ?C = Some r" using find_key_unique [OF d r(1)] by simp
    moreover have "set_comment_row body now r \<noteq> r" using r(3) set_comment_row_fields(2) by metis
    ultimately have "row = set_comment_row body now r" "?find (task_comments (tbl s')) = Some row"
      using row after by (simp_all add: rr_view_def)
    with r True c show ?thesis by (auto simp: scan_comment_def dest!: find_Some_iff_mem)
  next
    case False
    then have same: "map (\<lambda>r. if c_id r = commentID then set_comment_row body now r else r) ?C = ?C"
      by (intro map_idI) (auto simp: set_comment_row_def)
    with s' row have "?find (task_comments (tbl snap)) = Some row" by (simp add: rr_view_def)
    with False same s' c show ?thesis by (auto simp: scan_comment_def dest!: find_Some_iff_mem)
  qed
qed

text \<open>The author changes the comment to \<open>new\<close> while an admin deletes it: both are told that they succeeded.\<close>

theorem comment_update_under_snapshot_witness:
  "let s = demo_db\<lparr>tbl := tbl (snd (Comments_Delete demo_env 3 1 demo_db))\<rparr> in
     \<exists>c s'. update_comment_rr demo_env 2 1 ''new'' demo_db s = (Inr c, s') \<and> fst (Comments_Delete demo_env 3 1 demo_db) = Inr () \<and>
       co_Body c = ''hi'' \<and> task_comments (tbl s') = []"
proof -
  let ?s = "demo_db\<lparr>tbl := tbl (snd (Comments_Delete demo_env 3 1 demo_db))\<rparr>"
  have del: "fst (Comments_Delete demo_env 3 1 demo_db) = Inr ()" "task_comments (tbl ?s) = []"
    "cnt (snd (Comments_Delete demo_env 3 1 demo_db)) = cnt demo_db" by code_simp+
  have "db_inv demo_env (snd (Comments_Delete demo_env 3 1 demo_db))"
    using Comments_Delete_inv [of demo_env 3 1] demo_inv unfolding keeps_inv_def by blast
  with del(3) have I: "db_inv demo_env ?s" by simp
  have "\<not> isl (fst (update_comment_rr demo_env 2 1 ''new'' demo_db ?s))" by code_simp
  then obtain c s' where u: "update_comment_rr demo_env 2 1 ''new'' demo_db ?s = (Inr c, s')"
    by (metis isl_def prod.exhaust_sel sum.exhaust_sel)
  from comment_update_under_snapshot [OF I u] del(2)
  have "tbl s' = tbl ?s" "\<exists>r \<in> set (task_comments (tbl demo_db)). c = scan_comment r" by simp_all
  then have "co_Body c = ''hi''" "task_comments (tbl s') = []"
    using del(2) by (auto simp: demo_db_def demo_tables_def scan_comment_def)
  with u del(1) show ?thesis unfolding Let_def by blast
qed

subsection \<open>Tasks.Update\<close>

definition update_checks :: "env \<Rightarrow> int64 \<Rightarrow> int64 \<Rightarrow> TaskInput \<Rightarrow> Task prog" where
  "update_checks E actorID taskID inp =
     go_try (TaskRepo_ByID E taskID) (not_found_or ''load task'')
       (\<lambda>current.
     go_try (RequireTeamRole E actorID (task_TeamID current) TeamRoleMember) id
       (\<lambda>_.
     go_try (requireAssigneeIsMember E (task_TeamID current) (ti_AssigneeID inp)) id
       (\<lambda>_. ret (apply_input current inp))))"

definition TaskRepo_Update_rr :: "env \<Rightarrow> int64 \<Rightarrow> Task \<Rightarrow> db \<Rightarrow> Task prog" where
  "TaskRepo_Update_rr E actorID t snap s =
     go_try (query E (\<lambda>_ T. find (\<lambda>r. k_id r = task_ID t) (tasks T))) (Wrap ''lock task'')
       (\<lambda>row. case row of
          None \<Rightarrow> fail ErrNotFound
        | Some old \<Rightarrow>
     go_try (new_completed_at E old t) id
       (\<lambda>completedAt.
     go_try (sql_update_task E t completedAt) (Wrap ''update task'')
       (\<lambda>_.
     go_try (newChangeGroupID E) id
       (\<lambda>groupID.
     go_try (insert_changes E (task_ID t) actorID groupID (task_changes old t)) id
       (\<lambda>_ s'.
     go_try (driver_call E (rr_view k_id (task_ID t) (tasks (tbl snap)) (tasks (tbl s)) (tasks (tbl s')))) (Wrap ''scan updated task'')
       (\<lambda>row'. case row' of
          None \<Rightarrow> fail (Wrap ''scan updated task'' (OtherErr ''sql: no rows in result set''))
        | Some r \<Rightarrow> ret (scan_task r)) s'))))) s"

definition update_task_rr :: "env \<Rightarrow> int64 \<Rightarrow> int64 \<Rightarrow> TaskInput \<Rightarrow> db \<Rightarrow> Task prog" where
  "update_task_rr E actorID taskID inp snap s =
     (case fst (update_checks E actorID taskID inp snap) of
        Inl e \<Rightarrow> (Inl e, s)
      | Inr t \<Rightarrow> go_try (TaskRepo_Update_rr E actorID t snap) (Wrap ''update task'') ret s)"

lemma update_checks_ro [ro_intros]: "read_only (update_checks E actorID taskID inp)"
  unfolding update_checks_def by (intro ro_intros)

lemma TaskRepo_Update_rr_alone:
  assumes "tasks (tbl snap) = tasks (tbl s)"
  shows "TaskRepo_Update_rr E actorID t snap s = TaskRepo_Update E actorID t s"
  unfolding TaskRepo_Update_rr_def TaskRepo_Update_def assms rr_view_alone
  by (simp add: go_try_query [of E _ "Wrap ''scan updated task''", abs_def])

lemma update_task_rr_alone:
  "update_task_rr E actorID taskID inp s (snd (update_checks E actorID taskID inp s)) = update_task_tx E actorID taskID inp s"
proof -
  obtain x s1 where c: "update_checks E actorID taskID inp s = (x, s1)" by fastforce
  have t: "tbl s1 = tbl s" using read_onlyD [OF update_checks_ro c] by simp
  have "update_task_tx E actorID taskID inp s =
    go_try (update_checks E actorID taskID inp) id (\<lambda>t. go_try (TaskRepo_Update E actorID t) (Wrap ''update task'') ret) s"
    by (auto simp: update_task_tx_def update_checks_def go_try_def ret_def split: prod.splits sum.splits)
  then show ?thesis
    using c t by (cases x) (simp_all add: update_task_rr_def go_try_def [of "update_checks E actorID taskID inp"]
        go_try_def [of "TaskRepo_Update_rr E actorID _ s"] go_try_def [of "TaskRepo_Update E actorID _"] TaskRepo_Update_rr_alone)
qed

lemma TaskRepo_Update_rr_Inr:
  assumes D: "distinct (map k_id (tasks (tbl s)))" and upd: "TaskRepo_Update_rr E actorID t snap s = (Inr u, s')"
  obtains old row c now where "find (\<lambda>r. k_id r = task_ID t) (tasks (tbl s)) = Some old"
    and "tasks (tbl s') = updated_tasks t c now (tasks (tbl s))"
    and "rr_view k_id (task_ID t) (tasks (tbl snap)) (tasks (tbl s)) (tasks (tbl s')) = Some row" and "u = scan_task row"
proof -
  let ?s1 = "s\<lparr>stmt := Suc (stmt s)\<rparr>"
  from upd obtain old c s1 s2 s4 row where old: "find (\<lambda>r. k_id r = task_ID t) (tasks (tbl s)) = Some old"
    and c: "new_completed_at E old t ?s1 = (Inr c, s1)"
    and w: "sql_update_task E t c s1 = (Inr (), s2)"
    and ch: "insert_changes E (task_ID t) actorID (EncodeToString (map (rnd E (stmt s2)) [0..<16])) (task_changes old t) s2 = (Inr (), s4)"
    and row: "rr_view k_id (task_ID t) (tasks (tbl snap)) (tasks (tbl s)) (tasks (tbl s4)) = Some row" "u = scan_task row"
      "s' = s4\<lparr>stmt := Suc (stmt s4)\<rparr>"
    by (auto simp: TaskRepo_Update_rr_def go_try_Inr query_Inr driver_call_Inr ret_def fail_def split: option.splits)
  from new_completed_at_Inr [OF c] have s1: "tbl s1 = tbl s" by simp
  have "tasks (tbl s2) = updated_tasks t c (clock E (stmt s1)) (tasks (tbl s))"
    using sql_update_task_Inr [OF w] find_task_ids [OF old] s1 by simp
  moreover from insert_changes_Inr [OF ch] have "tasks (tbl s4) = tasks (tbl s2)" by auto
  ultimately show thesis using that [OF old] row by simp
qed

text \<open>C12. What an acknowledged task update means when other transactions run beside it: the task's row has the requested
  values, and the answer is that row, unless the row already had them when the transaction locked it: then nothing
  is written and the answer is the row of the transaction's snapshot, which may show older values.\<close>

theorem task_update_under_snapshot:
  assumes I: "db_inv E s" and upd: "update_task_rr E actorID taskID inp snap s = (Inr t, s')"
  shows "\<exists>k \<in> set (tasks (tbl s')). k_id k = taskID \<and> k_title k = ti_Title inp \<and> k_description k = Some (ti_Description inp) \<and>
    k_status k = ti_Status inp \<and> k_assignee_id k = ti_AssigneeID inp \<and>
    (if k \<in> set (tasks (tbl s)) then \<exists>k0 \<in> set (tasks (tbl snap)). k_id k0 = taskID \<and> t = scan_task k0 else t = scan_task k)"
proof -
  from upd obtain t0 where chk: "fst (update_checks E actorID taskID inp snap) = Inr t0"
    and tx: "TaskRepo_Update_rr E actorID t0 snap s = (Inr t, s')"
    by (auto simp: update_task_rr_def go_try_Inr ret_def split: sum.splits)
  from chk obtain s1 where "update_checks E actorID taskID inp snap = (Inr t0, s1)" by (metis prod.collapse)
  then obtain r0 where "find (\<lambda>r. k_id r = taskID) (tasks (tbl snap)) = Some r0" "t0 = apply_input (scan_task r0) inp"
    by (auto simp: update_checks_def go_try_Inr TaskRepo_ByID_Inr ret_def)
  then have t0: "task_ID t0 = taskID" "t0 = apply_input (scan_task r0) inp" by (auto dest!: find_Some_iff_mem)
  from I have d: "distinct (map k_id (tasks (tbl s)))" using tab_ok_distinct by (auto simp: inv_def tasks_ok_def)
  from d tx show ?thesis
  proof (rule TaskRepo_Update_rr_Inr)
    fix old row c now
    let ?k = "set_task_row t0 c now old" and ?find = "find (\<lambda>r. k_id r = taskID)"
    assume *: "find (\<lambda>r. k_id r = task_ID t0) (tasks (tbl s)) = Some old" "tasks (tbl s') = updated_tasks t0 c now (tasks (tbl s))"
      "rr_view k_id (task_ID t0) (tasks (tbl snap)) (tasks (tbl s)) (tasks (tbl s')) = Some row" "t = scan_task row"
    have after: "?find (tasks (tbl s')) = Some ?k"
      using find_updated [OF d, of "set_task_row t0 c now" taskID] * t0(1) by (simp add: updated_tasks_def)
    then have k: "?k \<in> set (tasks (tbl s'))" "k_id ?k = taskID" by (auto dest: find_Some_iff_mem)
    have own: "?k \<in> set (tasks (tbl s)) \<longleftrightarrow> ?k = old"
      using * t0(1) find_key_unique [OF d, of ?k] find_Some_iff_mem [OF *(1)] k(2) by auto
    have "if ?k \<in> set (tasks (tbl s)) then ?find (tasks (tbl snap)) = Some row else row = ?k"
      using * t0(1) after own by (simp add: rr_view_def split: if_splits)
    then have "if ?k \<in> set (tasks (tbl s)) then \<exists>k0 \<in> set (tasks (tbl snap)). k_id k0 = taskID \<and> t = scan_task k0 else t = scan_task ?k"
      using *(4) by (auto split: if_splits dest: find_Some_iff_mem)
    with k t0 show ?thesis by (intro bexI [of _ ?k]) simp_all
  qed
qed

text \<open>Two members set the task to the same values; the second is answered with the state before the first.\<close>

definition renaming :: TaskInput where
  "renaming = \<lparr>ti_AssigneeID = Some 2, ti_Title = ''b'', ti_Description = ''d'', ti_Status = TaskStatusTodo\<rparr>"

definition renamed :: db where
  "renamed = demo_db\<lparr>cnt := cnt (snd (update_task_tx demo_env 1 1 renaming demo_db)),
     tbl := tbl (snd (update_task_tx demo_env 1 1 renaming demo_db))\<rparr>"

theorem task_update_under_snapshot_witness:
  "\<exists>t s'. update_task_rr demo_env 2 1 renaming demo_db renamed = (Inr t, s') \<and> task_Title t = ''a'' \<and>
     (\<exists>k \<in> set (tasks (tbl s')). k_id k = 1 \<and> k_title k = ''b'')"
proof -
  have ok: "\<not> isl (fst (update_task_tx demo_env 1 1 renaming demo_db))" by code_simp
  then obtain u s1 where "update_task_tx demo_env 1 1 renaming demo_db = (Inr u, s1)"
    by (metis isl_def prod.exhaust_sel sum.exhaust_sel)
  from update_task_tx_inv [OF demo_inv this] this have I: "db_inv demo_env renamed" by (simp add: renamed_def)
  have "\<not> isl (fst (update_task_rr demo_env 2 1 renaming demo_db renamed))" by code_simp
  then obtain t s' where u: "update_task_rr demo_env 2 1 renaming demo_db renamed = (Inr t, s')"
    by (metis isl_def prod.exhaust_sel sum.exhaust_sel)
  then have t: "map_sum id task_Title (fst (update_task_rr demo_env 2 1 renaming demo_db renamed)) = Inr (task_Title t)" by simp
  have "map_sum id task_Title (fst (update_task_rr demo_env 2 1 renaming demo_db renamed)) = Inr ''a''" by code_simp
  with t have "task_Title t = ''a''" by simp
  moreover have "ti_Title renaming = ''b''" by (simp add: renaming_def)
  ultimately show ?thesis using u task_update_under_snapshot [OF I u] by metis
qed

end
