(* ===== verification/App_Config.thy ===== *)
theory App_Config
  imports Relay Identity Ratelimit Lifecycle Email_Client
begin

text \<open>
  \<open>internal/config.go\<close> and the \<open>Validate\<close> methods of the packages it gathers. A configuration is what the
  YAML file, the environment and the defaults have left in the structure; Process has \<open>NewConfig\<close>, which
  reads them. The lemmas say what a configuration that passed validation
  guarantees to the components, above all that a relay tick fits into a shutdown phase, and where the
  64-bit arithmetic of that check gives way.
\<close>

subsection \<open>The sections\<close>

record PersistenceConfig =
  pc_DSN :: string
  pc_ConnMaxLifetime :: duration
  pc_MaxOpenConns :: int
  pc_MaxIdleConns :: int

definition PersistenceConfig_Validate :: "PersistenceConfig \<Rightarrow> gerr option" where
  "PersistenceConfig_Validate c =
     (if pc_DSN c = [] then Some (OtherErr ''dsn is required'')
      else if pc_MaxOpenConns c \<le> 0 then Some (OtherErr ''max_open_conns must be positive'')
      else if pc_MaxIdleConns c < 0 then Some (OtherErr ''max_idle_conns must not be negative'')
      else if pc_ConnMaxLifetime c \<le> 0 then Some (OtherErr ''conn_max_lifetime must be positive'')
      else None)"

record CacheConfig =
  kc_Addr :: string
  kc_Password :: string
  kc_DB :: int
  kc_TasksTTL :: duration
  kc_DialTimeout :: duration
  kc_ReadTimeout :: duration
  kc_WriteTimeout :: duration
  kc_MaxRetries :: int
  kc_DialerRetries :: int

definition CacheConfig_Validate :: "CacheConfig \<Rightarrow> gerr option" where
  "CacheConfig_Validate c =
     (if kc_Addr c = [] then Some (OtherErr ''addr is required'')
      else if kc_DB c < 0 then Some (OtherErr ''db must not be negative'')
      else if kc_TasksTTL c \<le> 0 then Some (OtherErr ''tasks_ttl must be positive'')
      else if kc_DialTimeout c \<le> 0 then Some (OtherErr ''dial_timeout must be positive'')
      else if kc_ReadTimeout c \<le> 0 \<or> kc_WriteTimeout c \<le> 0
      then Some (OtherErr ''read_timeout and write_timeout must be positive'')
      else if kc_MaxRetries c < -1 \<or> kc_MaxRetries c = 0
      then Some (OtherErr ''max_retries must be -1 (none) or at least 1'')
      else if kc_DialerRetries c < 1 then Some (OtherErr ''dialer_retries must be positive'')
      else None)"

definition OutboxConfig_Validate :: "OutboxConfig \<Rightarrow> gerr option" where
  "OutboxConfig_Validate c =
     (if oc_Tick c \<le> 0 then Some (OtherErr ''tick must be positive'')
      else if oc_Budget c \<le> 0 then Some (OtherErr ''budget must be positive'')
      else if oc_Batch c < 1 then Some (OtherErr ''batch must be positive'')
      else if oc_Workers c < 1 then Some (OtherErr ''workers must be positive'')
      else if oc_MaxAttempts c < 1 then Some (OtherErr ''max_attempts must be positive'')
      else None)"

definition minPasswordCost :: int where "minPasswordCost = 10"
definition maxPasswordCost :: int where "maxPasswordCost = 15"

record AuthConfig =
  ac_Identity :: IdentityConfig
  ac_PasswordCost :: int

definition AuthConfig_Validate :: "AuthConfig \<Rightarrow> gerr option" where
  "AuthConfig_Validate c =
     (case IdentityConfig_Validate (ac_Identity c) of
        Some e \<Rightarrow> Some e
      | None \<Rightarrow>
          if ac_PasswordCost c < minPasswordCost \<or> ac_PasswordCost c > maxPasswordCost
          then Some (OtherErr ''password_cost must be 10..15'') else None)"

record HTTPConfig =
  hc_Addr :: string
  hc_ReadTimeout :: duration
  hc_WriteTimeout :: duration
  hc_IdleTimeout :: duration

definition HTTPConfig_Validate :: "HTTPConfig \<Rightarrow> gerr option" where
  "HTTPConfig_Validate c =
     (if hc_Addr c = [] then Some (OtherErr ''addr is required'')
      else if hc_ReadTimeout c \<le> 0 \<or> hc_WriteTimeout c \<le> 0 \<or> hc_IdleTimeout c \<le> 0
      then Some (OtherErr ''timeouts must be positive'')
      else None)"

subsection \<open>The whole\<close>

record Config =
  cf_AppName :: string
  cf_AppVersion :: string
  cf_Env :: string
  cf_Auth :: AuthConfig
  cf_MySQL :: PersistenceConfig
  cf_RateLimitPublic :: RatelimitConfig
  cf_RateLimit :: RatelimitConfig
  cf_HTTP :: HTTPConfig
  cf_Redis :: CacheConfig
  cf_Outbox :: OutboxConfig
  cf_Email :: EmailConfig
  cf_Shutdown :: CloserConfig
  cf_Startup :: duration
  cf_Health :: duration

definition ValidateField :: "string \<Rightarrow> gerr option \<Rightarrow> gerr option" where
  "ValidateField name err = map_option (Wrap name) err"

text \<open>\<open>if err := ...; err != nil { return err }\<close>, one after the other: the first error.\<close>

fun first_error :: "gerr option list \<Rightarrow> gerr option" where
  "first_error [] = None"
| "first_error (Some e # es) = Some e"
| "first_error (None # es) = first_error es"

definition Config_Validate :: "(string \<Rightarrow> gerr + 'net) \<Rightarrow> Config \<Rightarrow> gerr option" where
  "Config_Validate ParseCIDR c = first_error
     [ValidateField ''startup'' (StarterConfig_Validate (cf_Startup c)),
      ValidateField ''http'' (HTTPConfig_Validate (cf_HTTP c)),
      ValidateField ''mysql'' (PersistenceConfig_Validate (cf_MySQL c)),
      ValidateField ''redis'' (CacheConfig_Validate (cf_Redis c)),
      ValidateField ''shutdown'' (CloserConfig_Validate (cf_Shutdown c)),
      ValidateField ''health'' (HealthConfig_Validate (cf_Health c)),
      ValidateField ''auth'' (AuthConfig_Validate (cf_Auth c)),
      ValidateField ''email'' (EmailConfig_Validate (cf_Email c)),
      ValidateField ''rate_limit'' (RatelimitConfig_Validate ParseCIDR (cf_RateLimit c)),
      ValidateField ''rate_limit_public'' (RatelimitConfig_Validate ParseCIDR (cf_RateLimitPublic c)),
      ValidateField ''outbox'' (OutboxConfig_Validate (cf_Outbox c)),
      if SettleWindow (cf_Outbox c) > cc_Phase (cf_Shutdown c)
      then Some (OtherErr ''outbox: a tick may hold its transaction longer than the shutdown phase'')
      else None]"

subsection \<open>Lemmas\<close>

lemma first_error_None: "first_error es = None \<longleftrightarrow> (\<forall>e \<in> set es. e = None)"
  by (induction es rule: first_error.induct) auto

lemma ValidateField_None [simp]: "ValidateField name err = None \<longleftrightarrow> err = None"
  by (simp add: ValidateField_def)

text \<open>An accepted configuration passed every section and the check across sections.\<close>

lemma Config_Validate_None:
  "Config_Validate P c = None \<longleftrightarrow>
     StarterConfig_Validate (cf_Startup c) = None \<and> HTTPConfig_Validate (cf_HTTP c) = None \<and>
     PersistenceConfig_Validate (cf_MySQL c) = None \<and> CacheConfig_Validate (cf_Redis c) = None \<and>
     CloserConfig_Validate (cf_Shutdown c) = None \<and> HealthConfig_Validate (cf_Health c) = None \<and>
     AuthConfig_Validate (cf_Auth c) = None \<and> EmailConfig_Validate (cf_Email c) = None \<and>
     RatelimitConfig_Validate P (cf_RateLimit c) = None \<and>
     RatelimitConfig_Validate P (cf_RateLimitPublic c) = None \<and> OutboxConfig_Validate (cf_Outbox c) = None \<and>
     SettleWindow (cf_Outbox c) \<le> cc_Phase (cf_Shutdown c)"
  unfolding Config_Validate_def first_error_None by auto

lemma SettleWindow_exact:
  "0 < oc_Budget c \<Longrightarrow> in_int64 (oc_Budget c + 6 * Second) \<Longrightarrow> SettleWindow c = oc_Budget c + 6 * Second"
  by (simp add: SettleWindow_def dedupGrace_def settleGrace_def Second_def wrap64_id in_int64_def)

definition demo_config :: Config where
  "demo_config =
     \<lparr>cf_AppName = ''task-tracker'', cf_AppVersion = ''dev'', cf_Env = ''local'',
      cf_Auth = \<lparr>ac_Identity = \<lparr>ic_Secret = demo_secret, ic_TTL = 24 * 3600 * Second\<rparr>, ac_PasswordCost = 10\<rparr>,
      cf_MySQL = \<lparr>pc_DSN = ''dsn'', pc_ConnMaxLifetime = 300 * Second, pc_MaxOpenConns = 25, pc_MaxIdleConns = 25\<rparr>,
      cf_RateLimitPublic = \<lparr>rl_TrustedCIDRs = [], rl_Requests = 100, rl_Window = 60 * Second\<rparr>,
      cf_RateLimit = \<lparr>rl_TrustedCIDRs = [], rl_Requests = 100, rl_Window = 60 * Second\<rparr>,
      cf_HTTP = \<lparr>hc_Addr = '':8080'', hc_ReadTimeout = 10 * Second, hc_WriteTimeout = 15 * Second,
        hc_IdleTimeout = 60 * Second\<rparr>,
      cf_Redis = \<lparr>kc_Addr = ''localhost:6379'', kc_Password = [], kc_DB = 0, kc_TasksTTL = 300 * Second,
        kc_DialTimeout = Second, kc_ReadTimeout = Second, kc_WriteTimeout = Second, kc_MaxRetries = 1,
        kc_DialerRetries = 1\<rparr>,
      cf_Outbox = \<lparr>oc_Tick = Second, oc_Budget = 5 * Second, oc_DedupTTL = 3600 * Second, oc_Batch = 100,
        oc_Workers = 4, oc_MaxAttempts = 8\<rparr>,
      cf_Email = \<lparr>em_MaxFailures = 3, em_OpenFor = 30 * Second, em_Timeout = 3 * Second\<rparr>,
      cf_Shutdown = \<lparr>cc_Total = 30 * Second, cc_Phase = 15 * Second\<rparr>, cf_Startup = 15 * Second,
      cf_Health = 2 * Second\<rparr>"

lemmas validate_defs = StarterConfig_Validate_def HTTPConfig_Validate_def PersistenceConfig_Validate_def
  CacheConfig_Validate_def CloserConfig_Validate_def HealthConfig_Validate_def AuthConfig_Validate_def
  IdentityConfig_Validate_def EmailConfig_Validate_def RatelimitConfig_Validate_def OutboxConfig_Validate_def

lemma wrap64_small [simp]: "- 9223372036854775808 \<le> x \<Longrightarrow> x < 9223372036854775808 \<Longrightarrow> wrap64 x = x"
  by (rule wrap64_id) (simp add: in_int64_def)

lemma demo_config_valid:
  "0 < b \<Longrightarrow> SettleWindow (cf_Outbox demo_config\<lparr>oc_Budget := b\<rparr>) \<le> 15 * Second \<Longrightarrow>
     Config_Validate (\<lambda>_. Inr ()) (demo_config\<lparr>cf_Outbox := cf_Outbox demo_config\<lparr>oc_Budget := b\<rparr>\<rparr>) = None"
  unfolding Config_Validate_None
  by (simp add: demo_config_def validate_defs demo_secret_def minSecretLen_def minPasswordCost_def
      maxPasswordCost_def Second_def)

lemma demo_config_accepted: "Config_Validate (\<lambda>_. Inr ()) demo_config = None"
proof -
  have "demo_config\<lparr>cf_Outbox := cf_Outbox demo_config\<lparr>oc_Budget := 5 * Second\<rparr>\<rparr> = demo_config"
    by (simp add: demo_config_def)
  with demo_config_valid [of "5 * Second"] show ?thesis
    by (simp add: demo_config_def SettleWindow_def dedupGrace_def settleGrace_def Second_def)
qed

subsection \<open>Properties\<close>



text \<open>Where the check gives way: with the largest budget a duration can hold, the sum in \<open>SettleWindow\<close> wraps
  around to a negative window, and a configuration with such a budget passes validation although its
  tick could hold the transaction for centuries.\<close>

theorem settle_window_wraps:
  "\<exists>c. Config_Validate (\<lambda>_. Inr ()) c = None \<and> SettleWindow (cf_Outbox c) < 0 \<and>
     oc_Budget (cf_Outbox c) = 2 ^ 63 - 1 \<and> cc_Phase (cf_Shutdown c) < oc_Budget (cf_Outbox c)"
proof -
  let ?b = "2 ^ 63 - 1 :: int"
  let ?c = "demo_config\<lparr>cf_Outbox := cf_Outbox demo_config\<lparr>oc_Budget := ?b\<rparr>\<rparr>"
  have w: "SettleWindow (cf_Outbox demo_config\<lparr>oc_Budget := ?b\<rparr>) < 0"
    by (simp add: SettleWindow_def dedupGrace_def settleGrace_def Second_def wrap64_def)
  have "SettleWindow (cf_Outbox demo_config\<lparr>oc_Budget := ?b\<rparr>) \<le> 15 * Second"
    using w by (rule order.trans [OF less_imp_le]) (simp add: Second_def)
  then have "Config_Validate (\<lambda>_. Inr ()) ?c = None" by (intro demo_config_valid) simp_all
  with w show ?thesis by (intro exI [of _ ?c]) (simp add: demo_config_def Second_def)
qed

end
