(* ===== verification/Process.thy ===== *)
theory Process
  imports App_Config Auth_Service Scenario
begin

text \<open>
  The processes: \<open>cmd/api/main.go\<close> with \<open>App.Run\<close>, \<open>cmd/cli/main.go\<close>, and \<open>NewConfig\<close>, \<open>NewMySQL\<close> and
  \<open>NewRedis\<close>, which both start from. The operating system, the YAML decoder, the environment reader and
  the SQL driver are parameters; the standard library's \<open>flag\<close> package is modelled as far as the command uses
  it. The properties say with which code a process ends and that whatever it opened is released on every path.
\<close>

subsection \<open>Reading the configuration\<close>

record os =
  os_Getenv :: "string \<Rightarrow> string"
  os_Open :: "string \<Rightarrow> gerr + string" \<comment> \<open>the file's bytes\<close>
  yaml_Decode :: "string \<Rightarrow> gerr + Config" \<comment> \<open>with \<open>KnownFields(true)\<close>\<close>
  cleanenv_ReadEnv :: "Config \<Rightarrow> gerr + Config"

definition config_path :: "os \<Rightarrow> string" where
  "config_path sys = (let path = os_Getenv sys ''CONFIG_PATH'' in if path = [] then ''config.yaml'' else path)"

definition NewConfig :: "os \<Rightarrow> gerr + Config" where
  "NewConfig sys = (let path = config_path sys in
     case os_Open sys path of
       Inl err \<Rightarrow> Inl (Wrap (''open config '' @ path) err)
     | Inr f \<Rightarrow>
         (case yaml_Decode sys f of
            Inl err \<Rightarrow> Inl (Wrap (''read config '' @ path) err)
          | Inr cfg \<Rightarrow>
              (case cleanenv_ReadEnv sys cfg of
                 Inl err \<Rightarrow> Inl (Wrap ''read env'' err)
               | Inr cfg' \<Rightarrow> Inr cfg')))"

subsection \<open>Connections\<close>

record sql_DB =
  db_DSN :: string
  db_MaxOpenConns :: int
  db_MaxIdleConns :: int
  db_ConnMaxLifetime :: duration

definition NewMySQL :: "(string \<Rightarrow> gerr option) \<Rightarrow> PersistenceConfig \<Rightarrow> gerr + sql_DB" where
  "NewMySQL sql_Open cfg =
     (case sql_Open (pc_DSN cfg) of
        Some err \<Rightarrow> Inl (Wrap ''open mysql'' err)
      | None \<Rightarrow> Inr \<lparr>db_DSN = pc_DSN cfg, db_MaxOpenConns = pc_MaxOpenConns cfg,
          db_MaxIdleConns = pc_MaxIdleConns cfg, db_ConnMaxLifetime = pc_ConnMaxLifetime cfg\<rparr>)"

record redis_Options =
  ro_Addr :: string
  ro_Password :: string
  ro_DB :: int
  ro_DialTimeout :: duration
  ro_ReadTimeout :: duration
  ro_WriteTimeout :: duration
  ro_MaxRetries :: int
  ro_DialerRetries :: int
  ro_ContextTimeoutEnabled :: bool

definition NewRedis :: "CacheConfig \<Rightarrow> redis_Options" where
  "NewRedis cfg =
     \<lparr>ro_Addr = kc_Addr cfg, ro_Password = kc_Password cfg, ro_DB = kc_DB cfg, ro_DialTimeout = kc_DialTimeout cfg,
      ro_ReadTimeout = kc_ReadTimeout cfg, ro_WriteTimeout = kc_WriteTimeout cfg,
      ro_MaxRetries = kc_MaxRetries cfg, ro_DialerRetries = kc_DialerRetries cfg, ro_ContextTimeoutEnabled = True\<rparr>"

subsection \<open>The api process\<close>

definition ErrServerClosed :: gerr where
  "ErrServerClosed = OtherErr ''http: Server closed''"

text \<open>What \<open>App.Run\<close> waits for, in the order its \<open>select\<close> takes it: the signal, or the server's return.\<close>

datatype app_event = AppCtxDone | ServerReturned "gerr option"

fun run_select :: "app_event list \<Rightarrow> gerr option option" where
  "run_select [] = None"
| "run_select (AppCtxDone # evs) = Some None"
| "run_select (ServerReturned None # evs) = run_select evs"
| "run_select (ServerReturned (Some err) # evs) =
     (if errors_is err ErrServerClosed then run_select evs else Some (Some (Wrap ''http server'' err)))"

definition App_Run :: "app_event list \<Rightarrow> 'w Health \<Rightarrow> gerr option option \<times> 'w Health" where
  "App_Run evs h = (run_select evs, SetReady h)"

record proc_end =
  pe_code :: int
  pe_stderr :: "(string \<times> gerr) list"
  pe_log :: "(string \<times> gerr option) list"
  pe_started :: "(phase \<times> resource) list" \<comment> \<open>the functions the shutdown started\<close>

definition open_error :: "gerr + 'a \<Rightarrow> gerr option" where
  "open_error r = (case r of Inl e \<Rightarrow> Some e | Inr _ \<Rightarrow> None)"

text \<open>\<open>None\<close>: the process is still serving.\<close>

definition api_main :: "os \<Rightarrow> (string \<Rightarrow> gerr + 'net) \<Rightarrow> (string \<Rightarrow> gerr option) \<Rightarrow> gerr option \<Rightarrow> gerr option \<Rightarrow>
    app_event list \<Rightarrow> proc_end option" where
  "api_main sys ParseCIDR sql_Open mysqlPing redisPing evs =
     (case NewConfig sys of
        Inl err \<Rightarrow> Some \<lparr>pe_code = 1, pe_stderr = [(''config:'', err)], pe_log = [], pe_started = []\<rparr>
      | Inr cfg \<Rightarrow>
     (case Config_Validate ParseCIDR cfg of
        Some err \<Rightarrow> Some \<lparr>pe_code = 1, pe_stderr = [(''config validate:'', err)], pe_log = [], pe_started = []\<rparr>
      | None \<Rightarrow>
     (case NewApp (open_error (NewMySQL sql_Open (cf_MySQL cfg))) mysqlPing redisPing NewCloser of
        (Inl err, c) \<Rightarrow> Some \<lparr>pe_code = 1, pe_stderr = [], pe_log = [(''startup failed'', Some err)],
          pe_started = fst (Closer_ShutDown c)\<rparr>
      | (Inr h, c) \<Rightarrow>
     (case App_Run evs h of
        (None, h1) \<Rightarrow> None
      | (Some err, h1) \<Rightarrow>
          let started = fst (snd (App_ShutDown h1 c))
          in case err of
               Some e \<Rightarrow>
                 if \<not> errors_is e Canceled
                 then Some \<lparr>pe_code = 1, pe_stderr = [], pe_log = [(''fatal'', Some e)], pe_started = started\<rparr>
                 else Some \<lparr>pe_code = 0, pe_stderr = [], pe_log = [(''app gracefully stopped'', None)], pe_started = started\<rparr>
             | None \<Rightarrow> Some \<lparr>pe_code = 0, pe_stderr = [], pe_log = [(''app gracefully stopped'', None)],
                 pe_started = started\<rparr>))))"

subsection \<open>Command-line flags\<close>

text \<open>
  \<open>FlagSet.Parse\<close> of the standard library with the one string flag \<open>email\<close> and \<open>ExitOnError\<close>: the
  parsed value, or how the package ends the process (0 for a request of help, 2 for any other error).
\<close>

datatype flag_end = FlagsParsed string | FlagsHelp | FlagsBad string

definition split_value :: "string \<Rightarrow> string \<times> string option" where
  "split_value name = (let k = Suc (length (takeWhile (\<lambda>c. c \<noteq> CHR ''='') (tl name)))
     in if k < length name then (take k name, Some (drop (Suc k) name)) else (name, None))"

function (sequential) parse_flags :: "string \<Rightarrow> string list \<Rightarrow> flag_end" where
  "parse_flags email [] = FlagsParsed email"
| "parse_flags email (s # args) =
     (if length s < 2 \<or> hd s \<noteq> CHR ''-'' then FlagsParsed email
      else if s = ''--'' then FlagsParsed email
      else let name = drop (if s ! 1 = CHR ''-'' then 2 else 1) s
      in if name = [] \<or> hd name = CHR ''-'' \<or> hd name = CHR ''='' then FlagsBad ''bad flag syntax''
      else case split_value name of (flag, val) \<Rightarrow>
        if flag \<noteq> ''email''
        then if flag = ''help'' \<or> flag = ''h'' then FlagsHelp else FlagsBad ''flag provided but not defined''
        else case val of
               Some v \<Rightarrow> parse_flags v args
             | None \<Rightarrow> (case args of [] \<Rightarrow> FlagsBad ''flag needs an argument'' | v # rest \<Rightarrow> parse_flags v rest))"
  by pat_completeness auto

termination
  by (relation "measure (\<lambda>(_, args). length args)") auto

subsection \<open>The cli process\<close>

datatype db_event = DBOpened | DBClosed

text \<open>The service, given by the connection pool and the password cost it is built with.\<close>

definition buildAuthService :: "os \<Rightarrow> (string \<Rightarrow> gerr + 'net) \<Rightarrow> (string \<Rightarrow> gerr option) \<Rightarrow> gerr + sql_DB \<times> int" where
  "buildAuthService sys ParseCIDR sql_Open =
     (case NewConfig sys of
        Inl err \<Rightarrow> Inl (Wrap ''config'' err)
      | Inr cfg \<Rightarrow>
     (case Config_Validate ParseCIDR cfg of
        Some err \<Rightarrow> Inl (Wrap ''config validate'' err)
      | None \<Rightarrow>
     (case NewMySQL sql_Open (cf_MySQL cfg) of
        Inl err \<Rightarrow> Inl (Wrap ''mysql'' err)
      | Inr db \<Rightarrow> Inr (db, ac_PasswordCost (cf_Auth cfg)))))"

datatype cli_end = FlagExit int | Returned_err "gerr option" "db_event list"

definition grantAdmin :: "os \<Rightarrow> (string \<Rightarrow> gerr + 'net) \<Rightarrow> (string \<Rightarrow> gerr option) \<Rightarrow> env \<Rightarrow> string list \<Rightarrow> db \<Rightarrow> cli_end \<times> db" where
  "grantAdmin sys ParseCIDR sql_Open E args s =
     (case parse_flags [] args of
        FlagsHelp \<Rightarrow> (FlagExit 0, s)
      | FlagsBad msg \<Rightarrow> (FlagExit 2, s)
      | FlagsParsed email \<Rightarrow>
          if email = [] then (Returned_err (Some (OtherErr ''--email is required'')) [], s)
          else (case buildAuthService sys ParseCIDR sql_Open of
                  Inl err \<Rightarrow> (Returned_err (Some err) [], s)
                | Inr svc \<Rightarrow>
                    (case Auth_GrantAdmin E email s of
                       (Inl err, s') \<Rightarrow> (Returned_err (Some err) [DBOpened, DBClosed], s')
                     | (Inr (), s') \<Rightarrow> (Returned_err None [DBOpened, DBClosed], s'))))"

definition cli_main :: "os \<Rightarrow> (string \<Rightarrow> gerr + 'net) \<Rightarrow> (string \<Rightarrow> gerr option) \<Rightarrow> env \<Rightarrow> string list \<Rightarrow> db \<Rightarrow>
    int \<times> db_event list \<times> db" where
  "cli_main sys ParseCIDR sql_Open E argv s =
     (if length argv < 2 then (2, [], s)
      else if argv ! 1 = ''grant-admin''
      then (case grantAdmin sys ParseCIDR sql_Open E (drop 2 argv) s of
              (FlagExit code, s') \<Rightarrow> (code, [], s')
            | (Returned_err (Some err) evs, s') \<Rightarrow> (1, evs, s')
            | (Returned_err None evs, s') \<Rightarrow> (0, evs, s'))
      else (2, [], s))"

subsection \<open>The api process\<close>

lemma run_select_ends: "AppCtxDone \<in> set evs \<Longrightarrow> run_select evs \<noteq> None"
  by (induction evs rule: run_select.induct) auto

lemma NewApp_registers:
  assumes "NewApp mysqlOpen mysqlPing redisPing NewCloser = (res, c)"
  shows "isl res \<longleftrightarrow> mysqlOpen \<noteq> None \<or> mysqlPing \<noteq> None"
    and "fst (Closer_ShutDown c) =
      (if isl res then [] else [(Drain, RelayDrain), (Drain, ServerShutdown)]) @
      (if mysqlOpen = None then [(Release, MySQLClose), (Release, RedisClose)] else []) @
      (if isl res then [] else [(Release, ServerClose)])"
  using assms
  by (cases mysqlOpen; cases mysqlPing;
      auto simp: NewApp_def NewCloser_def closer_defs Starter_Start_def AddPing_def app_ping_def)+

definition usable_config :: "os \<Rightarrow> (string \<Rightarrow> gerr + 'net) \<Rightarrow> Config \<Rightarrow> bool" where
  "usable_config sys ParseCIDR cfg \<longleftrightarrow> NewConfig sys = Inr cfg \<and> Config_Validate ParseCIDR cfg = None"

text \<open>The ways the process runs: no usable configuration, a failed start, an end of the serving.\<close>

lemma api_main_cases:
  assumes "api_main sys P sql_Open mysqlPing redisPing evs = Some r"
  obtains (config) "\<forall>cfg. \<not> usable_config sys P cfg" "pe_code r = 1" "pe_started r = []"
  | (startup) cfg where "usable_config sys P cfg" "sql_Open (pc_DSN (cf_MySQL cfg)) \<noteq> None \<or> mysqlPing \<noteq> None"
      "pe_code r = 1" "pe_started r =
         (if sql_Open (pc_DSN (cf_MySQL cfg)) = None then [(Release, MySQLClose), (Release, RedisClose)] else [])"
  | (served) cfg err where "usable_config sys P cfg" "sql_Open (pc_DSN (cf_MySQL cfg)) = None" "mysqlPing = None"
      "run_select evs = Some err" "pe_code r = (if \<exists>e. err = Some e \<and> \<not> errors_is e Canceled then 1 else 0)"
      "pe_started r = [(Drain, RelayDrain), (Drain, ServerShutdown), (Release, MySQLClose), (Release, RedisClose),
         (Release, ServerClose)]"
proof -
  consider (a) "\<forall>cfg. \<not> usable_config sys P cfg" | (b) cfg where "usable_config sys P cfg" by blast
  then show thesis
  proof cases
    case a
    then show thesis using assms
      by (intro config) (auto simp: api_main_def usable_config_def split: sum.splits option.splits)
  next
    case (b cfg)
    let ?m = "open_error (NewMySQL sql_Open (cf_MySQL cfg))"
    have m: "?m = None \<longleftrightarrow> sql_Open (pc_DSN (cf_MySQL cfg)) = None"
      by (simp add: open_error_def NewMySQL_def split: option.splits)
    obtain res c where app: "NewApp ?m mysqlPing redisPing NewCloser = (res, c)" by fastforce
    note reg = NewApp_registers [OF app]
    show thesis
    proof (cases res)
      case (Inl e)
      with assms b app reg m show thesis
        by (intro startup [OF b]) (auto simp: api_main_def usable_config_def)
    next
      case (Inr h)
      with assms b app reg m show thesis
        by (auto simp: api_main_def usable_config_def App_Run_def App_ShutDown_def Let_def
            split: option.splits if_splits intro!: served [OF b])
    qed
  qed
qed


subsection \<open>The cli process\<close>

definition promoted :: "env \<Rightarrow> string \<Rightarrow> tables \<Rightarrow> tables" where
  "promoted E email T = T\<lparr>users := map (\<lambda>r. if collate E (u_email r) = collate E email then r\<lparr>u_role := RoleAdmin\<rparr> else r) (users T)\<rparr>"

lemma sql_grant_admin_effect:
  assumes "sql_grant_admin E email s = (res, s')"
  shows "tbl s' = tbl s \<or> tbl s' = promoted E email (tbl s)"
    and "res = Inr n \<Longrightarrow> tbl s' = promoted E email (tbl s) \<and>
      n = length (filter (\<lambda>r. collate E (u_email r) = collate E email \<and> u_role r \<noteq> RoleAdmin) (users (tbl s)))"
  using assms
  by (auto simp: sql_grant_admin_def exec_def Let_def promoted_def split: fault.splits prod.splits)

lemma go_try_then_ro:
  assumes "\<And>x. read_only (k x)" and "go_try m f k s = (res, s')"
  obtains y s1 where "m s = (y, s1)" and "tbl s' = tbl s1"
  using assms(2) read_onlyD [OF assms(1)] by (cases "m s"; cases "fst (m s)") (auto simp: go_try_def)

lemma promoted_user:
  assumes "r \<in> set (users (promoted E email T))" and "collate E (u_email r) = collate E email"
  obtains r' where "r' \<in> set (users T)" and "collate E (u_email r') = collate E email"
  using assms by (auto simp: promoted_def split: if_splits)

text \<open>A grant that is reported as done reached a user; one that is not may still have been carried out.\<close>

lemma Auth_GrantAdmin_effect:
  assumes "Auth_GrantAdmin E email s = (res, s')"
  shows "tbl s' = tbl s \<or> tbl s' = promoted E email (tbl s)"
proof -
  have ro: "read_only (go_try (driver_call E n) (Wrap ''rows affected'')
      (\<lambda>affected. if affected = 0 then go_try (UserRepo_ByEmail E email) id (\<lambda>_. ret ()) else ret ()))" for n :: nat
    by (intro ro_intros)
  from assms obtain y s1 where "UserRepo_GrantAdmin E email s = (y, s1)" "tbl s' = tbl s1"
    unfolding Auth_GrantAdmin_def by (rule go_try_then_ro [OF ro_ret])
  moreover from this(1) obtain z s2 where "sql_grant_admin E email s = (z, s2)" "tbl s1 = tbl s2"
    unfolding UserRepo_GrantAdmin_def by (rule go_try_then_ro [OF ro])
  ultimately show ?thesis using sql_grant_admin_effect(1) by metis
qed

lemma Auth_GrantAdmin_done:
  assumes "Auth_GrantAdmin E email s = (Inr u, s')"
  shows "tbl s' = promoted E email (tbl s) \<and> (\<exists>r \<in> set (users (tbl s)). collate E (u_email r) = collate E email)"
proof -
  from assms obtain n s1 where g: "sql_grant_admin E email s = (Inr n, s1)" and s': "tbl s' = tbl s1"
    and n: "n = 0 \<Longrightarrow> \<exists>r. find (\<lambda>r. collate E (u_email r) = collate E email) (users (tbl s1)) = Some r"
    by (auto simp: Auth_GrantAdmin_def UserRepo_GrantAdmin_def go_try_Inr driver_call_Inr UserRepo_ByEmail_Inr ret_def
        split: if_splits)
  note eff = sql_grant_admin_effect(2) [OF g refl]
  have "\<exists>r \<in> set (users (tbl s)). collate E (u_email r) = collate E email"
  proof (cases "n = 0")
    case True
    with n eff obtain r where "find (\<lambda>r. collate E (u_email r) = collate E email) (users (promoted E email (tbl s))) = Some r"
      by auto
    with find_Some_iff_mem [OF this] show ?thesis by (meson promoted_user)
  next
    case False
    with eff have "filter (\<lambda>r. collate E (u_email r) = collate E email \<and> u_role r \<noteq> RoleAdmin) (users (tbl s)) \<noteq> []" by auto
    then show ?thesis by (auto simp: filter_empty_conv)
  qed
  with eff s' show ?thesis by simp
qed


text \<open>The spellings of the flag: one or two dashes, the value after an equals sign or as the next argument.\<close>

lemma split_value_eq: "split_value (''email='' @ v) = (''email'', Some v)"
  by (simp add: split_value_def)

lemma split_value_plain: "split_value ''email'' = (''email'', None)"
  by (simp add: split_value_def)

lemma parse_flags_spellings:
  "parse_flags e [''-email'', v] = FlagsParsed v" "parse_flags e [''--email'', v] = FlagsParsed v"
  "parse_flags e [''-email='' @ v] = FlagsParsed v" "parse_flags e [''--email='' @ v] = FlagsParsed v"
  using split_value_eq [of v] by (simp_all add: Let_def split_value_plain)

subsection \<open>A machine where everything answers\<close>

definition demo_os :: os where
  "demo_os = \<lparr>os_Getenv = \<lambda>_. [], os_Open = \<lambda>_. Inr [], yaml_Decode = \<lambda>_. Inr demo_config, cleanenv_ReadEnv = Inr\<rparr>"

lemma demo_usable: "usable_config demo_os (\<lambda>_. Inr ()) demo_config"
  by (simp add: usable_config_def demo_config_accepted NewConfig_def demo_os_def)



end
