(* ===== verification/Wire.thy ===== *)
theory Wire
  imports Router
begin

text \<open>
  The edge of the HTTP server: the route tables of \<open>router.go\<close> and the packages' \<open>Routes\<close>, and the limit on request
  bodies (\<open>middleware.LimitBody\<close> with \<open>maxRequestBody\<close>) against what a client may spell in JSON. \<open>unquote\<close> is how
  the standard library's decoder reads a string; the lemma on it bounds every spelling of a value.
\<close>

subsection \<open>JSON strings\<close>

text \<open>
  The bytes between the quotes of a JSON string, read as \<open>encoding/json\<close> reads them: escapes of one letter, \<open>\u\<close>
  escapes with surrogate pairs, invalid surrogates and invalid UTF-8 replaced by U+FFFD; nothing for a quote
  or a control character.
\<close>

definition hex_val :: "char \<Rightarrow> nat option" where
  "hex_val c = (let b = byte c
     in if 48 \<le> b \<and> b \<le> 57 then Some (b - 48)
        else if 97 \<le> b \<and> b \<le> 102 then Some (b - 87)
        else if 65 \<le> b \<and> b \<le> 70 then Some (b - 55) else None)"

fun getu4 :: "string \<Rightarrow> nat option" where
  "getu4 (a # b # c # d # rest) =
     (case (hex_val a, hex_val b, hex_val c, hex_val d) of
        (Some i, Some j, Some k, Some l) \<Rightarrow> Some (4096 * i + 256 * j + 16 * k + l)
      | _ \<Rightarrow> None)"
| "getu4 _ = None"

definition encode_rune :: "nat \<Rightarrow> string" where
  "encode_rune r = map char_of
     (if r < 128 then [r]
      else if r < 2048 then [192 + r div 64, 128 + r mod 64]
      else if 55296 \<le> r \<and> r < 57344 \<or> 1114111 < r then [239, 191, 189]
      else if r < 65536 then [224 + r div 4096, 128 + r div 64 mod 64, 128 + r mod 64]
      else [240 + r div 262144, 128 + r div 4096 mod 64, 128 + r div 64 mod 64, 128 + r mod 64])"

text \<open>The code point a high surrogate and the escape after it stand for.\<close>

definition surrogate_pair :: "nat \<Rightarrow> string \<Rightarrow> nat option" where
  "surrogate_pair r1 rest =
     (if take 2 rest = [CHR 0x5C, CHR ''u''] then
        (case getu4 (drop 2 rest) of
           None \<Rightarrow> None
         | Some r2 \<Rightarrow> if 55296 \<le> r1 \<and> r1 < 56320 \<and> 56320 \<le> r2 \<and> r2 < 57344
             then Some ((r1 - 55296) * 1024 + (r2 - 56320) + 65536) else None)
      else None)"

definition escape_char :: "char \<Rightarrow> char option" where
  "escape_char e = map_of (zip ([CHR 0x22, CHR 0x5C] @ ''/bfnrt'') (map char_of [34, 92, 47, 8, 12, 10, 13, 9 :: nat])) e"

definition prepend :: "string \<Rightarrow> string option \<Rightarrow> string option" where
  "prepend s = map_option (\<lambda>t. s @ t)"

function (sequential) unquote :: "string \<Rightarrow> string option" where
  "unquote [] = Some []"
| "unquote (c # cs) =
     (if c = CHR 0x5C then
        (case cs of
           [] \<Rightarrow> None
         | e # es \<Rightarrow>
             if e = CHR ''u'' then
               (case getu4 es of
                  None \<Rightarrow> None
                | Some r \<Rightarrow>
                    if 55296 \<le> r \<and> r < 57344 then
                      (case surrogate_pair r (drop 4 es) of
                         Some d \<Rightarrow> prepend (encode_rune d) (unquote (drop 10 es))
                       | None \<Rightarrow> prepend (encode_rune 65533) (unquote (drop 4 es)))
                    else prepend (encode_rune r) (unquote (drop 4 es)))
             else (case escape_char e of None \<Rightarrow> None | Some x \<Rightarrow> prepend [x] (unquote es)))
      else if c = CHR 0x22 \<or> byte c < 32 then None
      else if rune_width (c # cs) = 0 then prepend (encode_rune 65533) (unquote cs)
      else prepend (take (rune_width (c # cs)) (c # cs)) (unquote (drop (rune_width (c # cs) - 1) cs)))"
  by pat_completeness auto

termination
  by (relation "measure length") auto

lemma prepend_Some [simp]: "prepend s o' = Some t \<longleftrightarrow> (\<exists>t'. o' = Some t' \<and> t = s @ t')"
  by (auto simp: prepend_def)

lemma encode_rune_nonempty: "1 \<le> length (encode_rune r)"
  by (simp add: encode_rune_def)

lemma surrogate_pair_wide: "surrogate_pair r rest = Some d \<Longrightarrow> length (encode_rune d) = 4"
proof -
  assume "surrogate_pair r rest = Some d"
  then have "65536 \<le> d" and "d < 1114112" by (auto simp: surrogate_pair_def split: if_splits option.splits)
  then show ?thesis by (simp add: encode_rune_def)
qed

text \<open>One unit of the spelling at a time: the bytes it takes and the bytes it stands for.\<close>

lemma unquote_escape:
  assumes "unquote (CHR 0x5C # cs) = Some t"
  obtains n w t' where "t = w @ t'" and "unquote (drop n (CHR 0x5C # cs)) = Some t'" and "0 < n" and "n \<le> 6 * length w"
proof -
  have one: "6 \<le> 6 * length (encode_rune r)" for r using encode_rune_nonempty [of r] by simp
  from assms obtain e es where cs: "cs = e # es" by (cases cs) auto
  consider (pair) r d where "e = CHR ''u''" "getu4 es = Some r" "55296 \<le> r" "r < 57344" "surrogate_pair r (drop 4 es) = Some d"
    | (rune) r where "e = CHR ''u''" "getu4 es = Some r" "\<not> (\<exists>d. 55296 \<le> r \<and> r < 57344 \<and> surrogate_pair r (drop 4 es) = Some d)"
    | (letter) "e \<noteq> CHR ''u''"
    using assms by (cases "e = CHR ''u''") (auto simp: cs split: option.splits)
  then show thesis
  proof cases
    case (pair r d)
    with assms obtain t' where "t = encode_rune d @ t'" "unquote (drop 10 es) = Some t'" by (auto simp: cs)
    then show thesis using surrogate_pair_wide [OF pair(5)] by (intro that [of "encode_rune d" t' 12]) (simp_all add: cs)
  next
    case (rune r)
    with assms obtain q t' where "t = encode_rune q @ t'" "unquote (drop 4 es) = Some t'"
      by (auto simp: cs split: if_splits option.splits)
    then show thesis using one by (intro that [of "encode_rune q" t' 6]) (simp_all add: cs)
  next
    case letter
    with assms obtain x t' where "t = [x] @ t'" "unquote es = Some t'" by (auto simp: cs split: option.splits)
    then show thesis by (intro that [of "[x]" t' 2]) (simp_all add: cs)
  qed
qed

lemma unquote_step:
  assumes "unquote (c # cs) = Some t"
  obtains n w t' where "t = w @ t'" and "unquote (drop n (c # cs)) = Some t'" and "0 < n" and "n \<le> 6 * length w"
proof -
  let ?w = "rune_width (c # cs)"
  consider (esc) "c = CHR 0x5C" | (bad) "c \<noteq> CHR 0x5C" "?w = 0" | (rune) "c \<noteq> CHR 0x5C" "?w > 0" by auto
  then show thesis
  proof cases
    case esc
    with assms that unquote_escape show thesis by blast
  next
    case bad
    with assms obtain t' where "t = encode_rune 65533 @ t'" "unquote cs = Some t'" by (auto split: if_splits)
    then show thesis
      using encode_rune_nonempty [of 65533] by (intro that [of "encode_rune 65533" t' 1]) simp_all
  next
    case rune
    with assms obtain t' where "t = take ?w (c # cs) @ t'" "unquote (drop (?w - 1) cs) = Some t'" by (auto split: if_splits)
    then show thesis
      using rune(2) rune_width_le [of "c # cs"] by (intro that [of "take ?w (c # cs)" t' ?w]) (simp_all add: drop_Cons')
  qed
qed

text \<open>No spelling of a string is longer than six bytes for each of its own.\<close>

lemma unquote_inflates: "unquote s = Some t \<Longrightarrow> length s \<le> 6 * length t"
proof (induction "length s" arbitrary: s t rule: less_induct)
  case less
  show ?case
  proof (cases s)
    case (Cons c cs)
    with less.prems obtain n w t' where t: "t = w @ t'" "unquote (drop n s) = Some t'" and n: "0 < n" "n \<le> 6 * length w"
      by (metis unquote_step)
    have "length (drop n s) < length s" using n Cons by simp
    from less.hyps [OF this t(2)] n t(1) show ?thesis by simp
  qed simp
qed

subsection \<open>Routes\<close>

text \<open>
  The tables the packages' \<open>Routes\<close> functions register and \<open>NewRouter\<close> mounts, each route with the group of
  middlewares it stands behind. How a path is matched against a pattern is the router library's work.
\<close>

datatype endpoint =
    ERegister | ELogin | EMe | ECreateTeam | EListTeams | EInvite | ECreateTask | EListTasks | EUpdateTask
  | EHistory | ECreateComment | EListComments | EUpdateComment | EDeleteComment | ETeamStats | ETopCreators | EOrphans

type_synonym routes = "(string \<times> string \<times> endpoint) list"

definition auth_Routes :: routes where
  "auth_Routes = [(''POST'', ''/register'', ERegister), (''POST'', ''/login'', ELogin)]"

definition teams_Routes :: routes where
  "teams_Routes = [(''POST'', ''/'', ECreateTeam), (''GET'', ''/'', EListTeams), (''POST'', ''/{id}/invite'', EInvite)]"

definition tasks_Routes :: routes where
  "tasks_Routes = [(''POST'', ''/'', ECreateTask), (''GET'', ''/'', EListTasks), (''PUT'', ''/{id}'', EUpdateTask),
     (''GET'', ''/{id}/history'', EHistory)]"

definition comments_Routes :: routes where
  "comments_Routes = [(''POST'', ''/'', ECreateComment), (''GET'', ''/'', EListComments), (''PUT'', ''/{id}'', EUpdateComment),
     (''DELETE'', ''/{id}'', EDeleteComment)]"

definition analytics_Routes :: routes where
  "analytics_Routes = [(''GET'', ''/teams'', ETeamStats), (''GET'', ''/top-creators'', ETopCreators),
     (''GET'', ''/orphan-assignees'', EOrphans)]"

definition mount :: "string \<Rightarrow> routes \<Rightarrow> routes" where
  "mount prefix rs = map (\<lambda>(m, p, e). (m, prefix @ p, e)) rs"

datatype route_group = PublicGroup | ProtectedGroup

definition api_routes :: "(route_group \<times> string \<times> string \<times> endpoint) list" where
  "api_routes =
     map (Pair PublicGroup) (mount ''/api/v1'' (mount [] auth_Routes)) @
     map (Pair ProtectedGroup) (mount ''/api/v1''
       ([(''GET'', ''/me'', EMe)] @ mount ''/teams'' teams_Routes @ mount ''/tasks'' tasks_Routes @
        mount ''/comments'' comments_Routes @ mount ''/analytics'' analytics_Routes))"

fun call_endpoint :: "api_call \<Rightarrow> endpoint" where
  "call_endpoint (PostRegister r) = ERegister"
| "call_endpoint (PostLogin r) = ELogin"
| "call_endpoint (GetMe r) = EMe"
| "call_endpoint (PostTeam r) = ECreateTeam"
| "call_endpoint (GetTeams r) = EListTeams"
| "call_endpoint (PostInvite r) = EInvite"
| "call_endpoint (PostTask r) = ECreateTask"
| "call_endpoint (GetTasks r) = EListTasks"
| "call_endpoint (PutTask r) = EUpdateTask"
| "call_endpoint (GetHistory r) = EHistory"
| "call_endpoint (PostComment r) = ECreateComment"
| "call_endpoint (GetComments r) = EListComments"
| "call_endpoint (PutComment r) = EUpdateComment"
| "call_endpoint (DeleteComment r) = EDeleteComment"
| "call_endpoint (GetTeamStats r) = ETeamStats"
| "call_endpoint (GetTopCreators r) = ETopCreators"
| "call_endpoint (GetOrphans r) = EOrphans"

lemmas route_defs = api_routes_def auth_Routes_def teams_Routes_def tasks_Routes_def comments_Routes_def
  analytics_Routes_def mount_def

text \<open>No two routes answer to the same method and pattern, every endpoint has exactly one route, and the routes
  a call can take without a token are those of the public group.\<close>

lemma api_routes_distinct:
  "distinct (map (\<lambda>(g, m, p, e). (m, p)) api_routes)" "distinct (map (\<lambda>(g, m, p, e). e) api_routes)"
  by (simp_all add: route_defs)

lemma api_routes_cover: "\<exists>m p. (if credentials call = None then PublicGroup else ProtectedGroup, m, p, call_endpoint call) \<in> set api_routes"
  by (cases call) (simp_all add: route_defs)

lemma public_routes_need_no_token:
  assumes "(g, m, p, call_endpoint call) \<in> set api_routes"
  shows "credentials call = None \<longleftrightarrow> g = PublicGroup"
proof -
  obtain m' p' where "(if credentials call = None then PublicGroup else ProtectedGroup, m', p', call_endpoint call) \<in> set api_routes"
    using api_routes_cover by blast
  with assms have "g = (if credentials call = None then PublicGroup else ProtectedGroup)"
    using distinct_keys_eq [OF api_routes_distinct(2)] by fastforce
  then show ?thesis by simp
qed

subsection \<open>The limit on bodies\<close>

definition maxRequestBody :: nat where
  "maxRequestBody = 64 * 2 ^ 10"

text \<open>\<open>http.MaxBytesReader\<close>: the bytes that can be read, and whether reading on then fails.\<close>

definition MaxBytesReader :: "nat \<Rightarrow> string \<Rightarrow> string \<times> bool" where
  "MaxBytesReader n body = (take n body, n < length body)"

definition LimitBody :: "nat \<Rightarrow> (string \<times> bool \<Rightarrow> 'a) \<Rightarrow> string \<Rightarrow> 'a" where
  "LimitBody n next body = next (MaxBytesReader n body)"

text \<open>
  What a handler's decoder makes of the readable bytes. The JSON scanner is a parameter: it finds a
  complete value at the front, a mistake, or the end of the bytes before the value's.
\<close>

datatype 'd scanned = Complete 'd | Malformed | Unfinished

definition decode_stream :: "(string \<Rightarrow> 'd scanned) \<Rightarrow> string \<times> bool \<Rightarrow> 'd decoded" where
  "decode_stream scan b =
     (case scan (fst b) of
        Complete v \<Rightarrow> Decoded v
      | Malformed \<Rightarrow> BadJSON
      | Unfinished \<Rightarrow> if snd b then TooLarge else BadJSON)"

text \<open>A body over the limit whose value does not end within it is answered with 413, before the handler does anything.\<close>

lemma oversized_body_rejected:
  assumes "n < length body" and "scan (take n body) = Unfinished"
  shows "DecodeJSON (r\<lparr>rq_body := LimitBody n (decode_stream scan) body\<rparr>) k w = (WriteError 413 ''request body too large'', w)"
  using assms by (simp add: LimitBody_def MaxBytesReader_def decode_stream_def DecodeJSON_def)

text \<open>The text of a request to create a task, its strings spelled as \<open>title\<close>, \<open>description\<close> and \<open>status\<close> between the quotes.\<close>

definition createTask_text :: "createTaskRequest \<Rightarrow> string \<Rightarrow> string \<Rightarrow> string \<Rightarrow> string" where
  \<open>createTask_text r title description status =
     ''{"assignee_id":'' @ (case ct_AssigneeID r of None \<Rightarrow> ''null'' | Some a \<Rightarrow> FormatInt a) @
     '',"title":"'' @ title @ ''","description":"'' @ description @ ''","status":"'' @ status @
     ''","team_id":'' @ FormatInt (ct_TeamID r) @ ''}''\<close>

lemma FormatInt_length:
  assumes "in_int64 i"
  shows "length (FormatInt i) \<le> 20"
proof -
  have "nat i < 10 ^ 19" and "nat (- i) < 10 ^ 19" using assms by (auto simp: in_int64_def nat_less_iff)
  then have "length (nat_digits (nat i)) \<le> 19" "length (nat_digits (nat (- i))) \<le> 19"
    by (simp_all only: nat_digits_length zero_less_numeral)
  then show ?thesis by (simp add: FormatInt_def)
qed

text \<open>C32. A task that passes validation never trips over the limit on bodies: however its client escapes the
  strings, the request's text fits into \<open>maxRequestBody\<close> and the limit leaves the decoder's result alone.
  The comments at \<open>maxRequestBody\<close> and \<open>LimitBody\<close> claim as much.\<close>

theorem request_body_fits:
  assumes "ozzo_ok Z email" and "Z (createTaskRequest_fields r) = None"
    and "in_int64 (ct_TeamID r)" and "\<forall>a \<in> set_option (ct_AssigneeID r). in_int64 a"
    and "unquote title = Some (ct_Title r)" and "unquote description = Some (ct_Description r)"
    and "unquote status = Some (ct_Status r)"
  shows "length (createTask_text r title description status) \<le> maxRequestBody \<and>
    LimitBody maxRequestBody (decode_stream scan) (createTask_text r title description status) =
      decode_stream scan (createTask_text r title description status, False)"
proof -
  note ok = ozzo_None [OF assms(1,2)]
  have "passes email (Length 1 500) (VStr (ct_Title r))" "passes email (Length 0 maxDescriptionLen) (VStr (ct_Description r))"
    "passes email (In validStatuses) (VStr (ct_Status r))"
    using ok [of "''title''" "VStr (ct_Title r)" "[Required, Length 1 500]" "Length 1 500"]
      ok [of "''description''" "VStr (ct_Description r)" "[Length 0 maxDescriptionLen]"]
      ok [of "''status''" "VStr (ct_Status r)" "[In validStatuses]"]
    by (simp_all add: createTaskRequest_fields_def)
  then have "length (ct_Title r) \<le> 500" "length (ct_Description r) \<le> 10000" "length (ct_Status r) \<le> 11"
    by (auto simp: maxDescriptionLen_def validStatuses_def)
  moreover have "length (case ct_AssigneeID r of None \<Rightarrow> ''null'' | Some a \<Rightarrow> FormatInt a) \<le> 20"
    using assms(4) by (cases "ct_AssigneeID r") (simp_all add: FormatInt_length)
  ultimately have "length (createTask_text r title description status) \<le> maxRequestBody"
    using assms(5-7) [THEN unquote_inflates] FormatInt_length [OF assms(3)]
    by (simp add: createTask_text_def maxRequestBody_def)
  then show ?thesis by (simp add: LimitBody_def MaxBytesReader_def)
qed

theorem request_body_fits_witness:
  "let r = \<lparr>ct_AssigneeID = None, ct_Title = ''t'', ct_Description = encode_rune 128512, ct_Status = [], ct_TeamID = 1\<rparr>
   in length (createTask_text r ''t'' (CHR 0x5C # ''uD83D'' @ CHR 0x5C # ''uDE00'') []) \<le> maxRequestBody"
proof -
  let ?r = "\<lparr>ct_AssigneeID = None, ct_Title = ''t'', ct_Description = encode_rune 128512, ct_Status = [], ct_TeamID = 1\<rparr>"
  let ?d = "CHR 0x5C # ''uD83D'' @ CHR 0x5C # ''uDE00''"
  have valid: "demo_ozzo (createTaskRequest_fields ?r) = None"
    by (simp add: demo_ozzo_def createTaskRequest_fields_def maxDescriptionLen_def encode_rune_def)
  have title: "unquote ''t'' = Some (ct_Title ?r)" by (simp add: rune_width.simps(2))
  have desc: "unquote ?d = Some (ct_Description ?r)" by (simp add: hex_val_def surrogate_pair_def)
  have "length (createTask_text ?r ''t'' ?d []) \<le> maxRequestBody"
    by (rule conjunct1 [OF request_body_fits [OF demo_ozzo_ok valid _ _ title desc]]) (simp_all add: in_int64_def)
  then show ?thesis by (simp only: Let_def)
qed

end
