(* ===== verification/Loadgen.thy ===== *)
theory Loadgen
  imports Database
begin

text \<open>
  \<open>cmd/loadgen/main.go\<close>: the client that keeps a running instance busy. The HTTP client, the JSON encoder and
  decoder are parameters; the random numbers and the readings of the clock an iteration draws are its record
  \<open>draws\<close>, any number of them. A panic (\<open>rand.Intn(0)\<close>) is \<open>None\<close>. Workers run side by side and share the
  pool and the counters; every theorem holds for any state of those between two requests. The lemmas say
  that a worker that was set up never panics, that an invitation never goes to the worker itself, and that
  in every interleaving of workers the counts \<open>main\<close> prints by status add up to the total.
\<close>

subsection \<open>State\<close>

record worker =
  wk_base :: string
  wk_email :: string
  wk_token :: string
  wk_tasks :: "int64 list"
  wk_teamID :: int64

datatype jval = JStr string | JInt int

type_synonym body_map = "(string \<times> jval) list"

text \<open>What \<open>client.Do\<close> gives: an error, or a status and what reading the body gives.\<close>

datatype reply = NoReply gerr | Reply nat "gerr + string"

record 'w http_client =
  hc_Encode :: "body_map \<Rightarrow> gerr + string"
  hc_NewRequest :: "string \<Rightarrow> string \<Rightarrow> gerr option"
  hc_Do :: "string \<Rightarrow> string \<Rightarrow> string \<Rightarrow> string option \<Rightarrow> 'w \<Rightarrow> reply \<times> 'w"

record 'w loadgen =
  lg_total :: nat
  lg_statuses :: "nat \<Rightarrow> nat"
  lg_pool :: "string list"
  lg_net :: 'w

type_synonym ('w, 'a) lg_prog = "'w loadgen \<Rightarrow> (gerr + 'a) \<times> 'w loadgen"

definition addToPool :: "string \<Rightarrow> 'w loadgen \<Rightarrow> 'w loadgen" where
  "addToPool email s = s\<lparr>lg_pool := lg_pool s @ [email]\<rparr>"

text \<open>The attempts of \<open>pickInvitee\<close>; \<open>draw i\<close> is the number behind the i-th \<open>rand.Intn\<close>.\<close>

fun pick_loop :: "nat \<Rightarrow> (nat \<Rightarrow> nat) \<Rightarrow> string list \<Rightarrow> string \<Rightarrow> string" where
  "pick_loop 0 draw pool self = []"
| "pick_loop (Suc n) draw pool self =
     (if length pool < 2 then []
      else let e = pool ! (draw n mod length pool) in if e \<noteq> self then e else pick_loop n draw pool self)"

definition pickInvitee :: "(nat \<Rightarrow> nat) \<Rightarrow> string \<Rightarrow> 'w loadgen \<Rightarrow> string" where
  "pickInvitee draw self s = pick_loop 5 draw (lg_pool s) self"

subsection \<open>Requests\<close>

definition count_reply :: "nat \<Rightarrow> 'w loadgen \<Rightarrow> 'w loadgen" where
  "count_reply status s = s\<lparr>lg_total := lg_total s + 1, lg_statuses := (lg_statuses s)(status := lg_statuses s status + 1)\<rparr>"

definition lg_request :: "'w http_client \<Rightarrow> worker \<Rightarrow> string \<Rightarrow> string \<Rightarrow> body_map option \<Rightarrow> string \<Rightarrow> ('w, string) lg_prog" where
  "lg_request C w method path payload token s =
     (case (case payload of None \<Rightarrow> Inr [] | Some m \<Rightarrow> hc_Encode C m) of
        Inl err \<Rightarrow> (Inl err, s)
      | Inr body \<Rightarrow>
     (case hc_NewRequest C method (wk_base w @ path) of
        Some err \<Rightarrow> (Inl err, s)
      | None \<Rightarrow>
     (case hc_Do C method (wk_base w @ path) body (if token \<noteq> [] then Some (''Bearer '' @ token) else None) (lg_net s) of
        (NoReply err, net) \<Rightarrow> (Inl err, s\<lparr>lg_net := net\<rparr>)
      | (Reply status content, net) \<Rightarrow>
          let s1 = count_reply status (s\<lparr>lg_net := net\<rparr>)
          in case content of
               Inl err \<Rightarrow> (Inl err, s1)
             | Inr out \<Rightarrow>
                 if status \<ge> 400 \<and> method = ''POST''
                 then (Inl (OtherErr (method @ '' '' @ path @ '': status '' @ FormatInt (int status))), s1)
                 else (Inr out, s1))))"

definition lg_post :: "'w http_client \<Rightarrow> worker \<Rightarrow> string \<Rightarrow> body_map \<Rightarrow> ('w, string) lg_prog" where
  "lg_post C w path payload = lg_request C w ''POST'' path (Some payload) (wk_token w)"

definition lg_get :: "'w http_client \<Rightarrow> worker \<Rightarrow> string \<Rightarrow> string \<Rightarrow> 'w loadgen \<Rightarrow> 'w loadgen" where
  "lg_get C w path token s = snd (lg_request C w ''GET'' path None token s)"

definition invite :: "'w http_client \<Rightarrow> (nat \<Rightarrow> nat) \<Rightarrow> worker \<Rightarrow> 'w loadgen \<Rightarrow> 'w loadgen" where
  "invite C draw w s =
     (let invitee = pickInvitee draw (wk_email w) s
      in if invitee = [] then s
         else snd (lg_request C w ''POST'' (''/api/v1/teams/'' @ FormatInt (wk_teamID w) @ ''/invite'')
           (Some [(''email'', JStr invitee)]) (wk_token w) s))"

subsection \<open>Setting a worker up\<close>

definition unmarshal_with :: "(string \<Rightarrow> gerr + 'a) \<Rightarrow> string \<Rightarrow> ('w, 'a) lg_prog" where
  "unmarshal_with dec body s = (dec body, s)"

text \<open>The loop of ten tasks, from the i-th on with \<open>n\<close> to go.\<close>

fun create_tasks :: "'w http_client \<Rightarrow> (string \<Rightarrow> gerr + int64) \<Rightarrow> nat \<Rightarrow> nat \<Rightarrow> worker \<Rightarrow> ('w, worker) lg_prog" where
  "create_tasks C decodeID i 0 w = (\<lambda>s. (Inr w, s))"
| "create_tasks C decodeID i (Suc n) w =
     go_try (lg_post C w ''/api/v1/tasks'' [(''team_id'', JInt (wk_teamID w)), (''title'', JStr (''load task '' @ FormatInt (int i)))]) id
       (\<lambda>body. go_try (unmarshal_with decodeID body) id
         (\<lambda>taskID. create_tasks C decodeID (Suc i) n (w\<lparr>wk_tasks := wk_tasks w @ [taskID]\<rparr>)))"

definition setupWorker :: "'w http_client \<Rightarrow> (string \<Rightarrow> gerr + string) \<Rightarrow> (string \<Rightarrow> gerr + int64) \<Rightarrow> string \<Rightarrow> nat \<Rightarrow>
    int \<Rightarrow> int \<Rightarrow> ('w, worker) lg_prog" where
  "setupWorker C decodeToken decodeID base n nowNano nowUnix =
     (let w = \<lparr>wk_base = base, wk_email = [], wk_token = [], wk_tasks = [], wk_teamID = 0\<rparr>;
          email = ''load-'' @ FormatInt nowNano @ ''-'' @ FormatInt (int n) @ ''@loadgen.io''
      in go_try (lg_post C w ''/api/v1/register'' [(''email'', JStr email), (''name'', JStr (''loadgen-'' @ FormatInt (int n))),
             (''password'', JStr ''password123'')]) id
         (\<lambda>_. go_try (lg_post C w ''/api/v1/login'' [(''email'', JStr email), (''password'', JStr ''password123'')]) id
         (\<lambda>body. go_try (unmarshal_with decodeToken body) id
         (\<lambda>token s.
           let w1 = w\<lparr>wk_token := token, wk_email := email\<rparr>
           in go_try (lg_post C w1 ''/api/v1/teams'' [(''name'', JStr (''loadgen-team-'' @ FormatInt (int n) @ ''-'' @ FormatInt nowUnix))]) id
             (\<lambda>body. go_try (unmarshal_with decodeID body) id
             (\<lambda>teamID. create_tasks C decodeID 0 10 (w1\<lparr>wk_teamID := teamID\<rparr>))) (addToPool email s)))))"

subsection \<open>Running\<close>

record draws =
  dr_now :: int
  dr_invite :: nat
  dr_case :: nat
  dr_task :: nat
  dr_status :: nat
  dr_pick :: "nat \<Rightarrow> nat"

definition Intn :: "nat \<Rightarrow> nat \<Rightarrow> nat option" where
  "Intn draw n = (if n = 0 then None else Some (draw mod n))"

definition statusesList :: "string list" where
  "statusesList = [''todo'', ''in_progress'', ''done'']"

definition run_case :: "'w http_client \<Rightarrow> draws \<Rightarrow> worker \<Rightarrow> 'w loadgen \<Rightarrow> 'w loadgen option" where
  "run_case C d w s =
     (let k = dr_case d mod 10; team = ''/api/v1/tasks?team_id='' @ FormatInt (wk_teamID w)
      in if k \<le> 2 then Some (lg_get C w team (wk_token w) s)
         else if k = 3 then Some (lg_get C w (team @ ''&status=todo'') (wk_token w) s)
         else if k \<le> 5 then Some (lg_get C w ''/api/v1/me'' (wk_token w) s)
         else if k = 6 then Some (lg_get C w ''/api/v1/teams'' (wk_token w) s)
         else if k = 7 then
           (case (Intn (dr_task d) (length (wk_tasks w)), Intn (dr_status d) (length statusesList)) of
              (Some i, Some j) \<Rightarrow> Some (snd (lg_request C w ''PUT'' (''/api/v1/tasks/'' @ FormatInt (wk_tasks w ! i))
                (Some [(''title'', JStr ''load task''), (''status'', JStr (statusesList ! j))]) (wk_token w) s))
            | _ \<Rightarrow> None)
         else if k = 8 then Some (lg_get C w ''/api/v1/me'' ''garbage-token'' s)
         else Some (lg_get C w ''/api/v1/tasks/999999999/history'' (wk_token w) s))"

text \<open>The loop over the iterations the clock is read for; it ends at the first reading not before the deadline.\<close>

fun worker_run :: "'w http_client \<Rightarrow> int \<Rightarrow> draws list \<Rightarrow> worker \<Rightarrow> 'w loadgen \<Rightarrow> 'w loadgen option" where
  "worker_run C deadline [] w s = Some s"
| "worker_run C deadline (d # ds) w s =
     (if \<not> dr_now d < deadline then Some s
      else if dr_invite d mod 50 = 0 then worker_run C deadline ds w (invite C (dr_pick d) w s)
      else case run_case C d w s of None \<Rightarrow> None | Some s' \<Rightarrow> worker_run C deadline ds w s')"

subsection \<open>The program\<close>

record lg_flags =
  fg_url :: string
  fg_users :: int
  fg_duration :: int
  fg_pause :: int

definition millisecond :: int where "millisecond = 1000000"

definition lg_defaults :: lg_flags where
  "lg_defaults = \<lparr>fg_url = ''http://localhost:8080'', fg_users = 600, fg_duration = 3 * 60 * 1000 * millisecond,
     fg_pause = 650 * millisecond\<rparr>"

text \<open>The body of one worker's goroutine: the error it prints if it could not be set up, and the state.\<close>

definition worker_goroutine :: "'w http_client \<Rightarrow> (string \<Rightarrow> gerr + string) \<Rightarrow> (string \<Rightarrow> gerr + int64) \<Rightarrow> lg_flags \<Rightarrow> int \<Rightarrow>
    nat \<Rightarrow> int \<Rightarrow> int \<Rightarrow> draws list \<Rightarrow> 'w loadgen \<Rightarrow> (gerr option \<times> 'w loadgen) option" where
  "worker_goroutine C decodeToken decodeID flags deadline n nowNano nowUnix ds s =
     (case setupWorker C decodeToken decodeID (fg_url flags) n nowNano nowUnix s of
        (Inl err, s1) \<Rightarrow> Some (Some err, s1)
      | (Inr w, s1) \<Rightarrow> (case worker_run C deadline ds w s1 of None \<Rightarrow> None | Some s2 \<Rightarrow> Some (None, s2)))"

text \<open>What the \<open>select\<close> of \<open>reportLoop\<close> receives: the workers are done, or the ticker fired at a state whose total is
  the number. The result is the printed lines and whether the loop has returned.\<close>

datatype report_event = WorkersDone | ReportTick nat

fun reportLoop :: "report_event list \<Rightarrow> string list \<times> bool" where
  "reportLoop [] = ([], False)"
| "reportLoop (WorkersDone # es) = ([], True)"
| "reportLoop (ReportTick n # es) =
     (let (ls, returned) = reportLoop es in ((''  requests so far: '' @ FormatInt (int n)) # ls, returned))"

text \<open>The final lines. \<open>statuses.Range\<close> visits the keys in some order \<open>ks\<close>.\<close>

definition final_report :: "nat list \<Rightarrow> 'w loadgen \<Rightarrow> string list" where
  "final_report ks s =
     [] # (''total requests: '' @ FormatInt (int (lg_total s))) #
     map (\<lambda>k. ''  '' @ FormatInt (int k) @ '': '' @ FormatInt (int (lg_statuses s k))) ks"

definition range_keys :: "nat list \<Rightarrow> 'w loadgen \<Rightarrow> bool" where
  "range_keys ks s \<longleftrightarrow> distinct ks \<and> set ks = {st. lg_statuses s st \<noteq> 0}"

text \<open>\<open>main\<close>, from the events its report loop receives and the state \<open>s\<close> the workers leave; \<open>dtext\<close> prints a duration.
  Nothing after the report loop runs while it has not returned.\<close>

definition loadgen_main :: "(int \<Rightarrow> string) \<Rightarrow> lg_flags \<Rightarrow> report_event list \<Rightarrow> nat list \<Rightarrow> 'w loadgen \<Rightarrow> string list" where
  "loadgen_main dtext flags events ks s =
     (let hello = ''loadgen: '' @ FormatInt (fg_users flags) @ '' users against '' @ fg_url flags @ '' for '' @ dtext (fg_duration flags);
          (ls, returned) = reportLoop events
      in hello # ls @ (if returned then final_report ks s else []))"

text \<open>The workers interleave: between two requests of one, others send theirs. The states that any number of
  workers can reach together.\<close>

inductive lg_reach :: "'w http_client \<Rightarrow> 'w \<Rightarrow> 'w loadgen \<Rightarrow> bool" for C net where
  start: "lg_reach C net \<lparr>lg_total = 0, lg_statuses = \<lambda>_. 0, lg_pool = [], lg_net = net\<rparr>"
| request: "lg_reach C net s \<Longrightarrow> lg_reach C net (snd (lg_request C w method path payload token s))"
| pool: "lg_reach C net s \<Longrightarrow> lg_reach C net (addToPool email s)"

subsection \<open>Lemmas\<close>

lemma pick_loop_other: "pick_loop n draw pool self \<noteq> [] \<Longrightarrow> pick_loop n draw pool self \<in> set pool \<and> pick_loop n draw pool self \<noteq> self"
proof (induction n)
  case (Suc n)
  show ?case
  proof (cases "length pool < 2")
    case False
    then have "draw n mod length pool < length pool" by (intro mod_less_divisor) auto
    then have "pool ! (draw n mod length pool) \<in> set pool" by (rule nth_mem)
    with Suc False show ?thesis by (auto simp: Let_def split: if_splits)
  qed (use Suc.prems in simp)
qed simp

text \<open>An invitation goes to an account of the pool other than the worker's own.\<close>

lemma pickInvitee_other: "pickInvitee draw self s \<noteq> [] \<Longrightarrow> pickInvitee draw self s \<in> set (lg_pool s) - {self}"
  using pick_loop_other unfolding pickInvitee_def by fast

lemma create_tasks_length:
  "create_tasks C dec i n w s = (Inr w', s') \<Longrightarrow>
     length (wk_tasks w') = length (wk_tasks w) + n \<and> wk_email w' = wk_email w \<and> wk_token w' = wk_token w"
proof (induction n arbitrary: i w s)
  case (Suc n)
  then obtain taskID s1 where "create_tasks C dec (Suc i) n (w\<lparr>wk_tasks := wk_tasks w @ [taskID]\<rparr>) s1 = (Inr w', s')"
    by (auto simp: go_try_Inr)
  from Suc.IH [OF this] show ?case by simp
qed simp

lemma setupWorker_tasks:
  assumes "setupWorker C decodeToken decodeID base n nowNano nowUnix s = (Inr w, s')"
  shows "length (wk_tasks w) = 10"
proof -
  from assms obtain w1 i s1 where "create_tasks C decodeID 0 10 w1 s1 = (Inr w, s')" "wk_tasks w1 = []"
    by (auto simp: setupWorker_def Let_def go_try_Inr)
  from create_tasks_length [OF this(1)] this(2) show ?thesis by simp
qed

lemma worker_run_ends: "wk_tasks w \<noteq> [] \<Longrightarrow> worker_run C deadline ds w s \<noteq> None"
proof (induction ds arbitrary: s)
  case (Cons d ds)
  have "run_case C d w s \<noteq> None"
    using Cons.prems by (simp add: run_case_def Let_def Intn_def statusesList_def)
  with Cons show ?case by auto
qed simp

text \<open>A worker that was set up draws from a list of ten tasks and never panics, however long it runs.\<close>

lemma loadgen_never_panics:
  assumes "setupWorker C decodeToken decodeID base n nowNano nowUnix s = (Inr w, s')"
  shows "worker_run C deadline ds w s'' \<noteq> None"
  using setupWorker_tasks [OF assms] by (intro worker_run_ends) auto

text \<open>Every answered request is counted once in the total and once under its status.\<close>

definition counted :: "'w loadgen \<Rightarrow> bool" where
  "counted s \<longleftrightarrow> finite {st. lg_statuses s st \<noteq> 0} \<and> lg_total s = sum (lg_statuses s) {st. lg_statuses s st \<noteq> 0}"

lemma sum_support_upd:
  fixes f :: "nat \<Rightarrow> nat"
  assumes "finite {x. f x \<noteq> 0}"
  shows "finite {x. (f(a := f a + 1)) x \<noteq> 0}" and "sum (f(a := f a + 1)) {x. (f(a := f a + 1)) x \<noteq> 0} = sum f {x. f x \<noteq> 0} + 1"
proof -
  let ?S = "{x. f x \<noteq> 0}"
  have supp: "{x. (f(a := f a + 1)) x \<noteq> 0} = insert a ?S" by auto
  show "finite {x. (f(a := f a + 1)) x \<noteq> 0}" unfolding supp using assms by simp
  have "sum (f(a := f a + 1)) (?S - {a}) = sum f (?S - {a})" by (rule sum.cong) auto
  moreover have "sum f ?S = f a + sum f (?S - {a})"
    using assms by (cases "f a = 0") (simp_all add: sum.remove)
  ultimately show "sum (f(a := f a + 1)) {x. (f(a := f a + 1)) x \<noteq> 0} = sum f ?S + 1"
    unfolding supp using assms by (simp add: sum.insert_remove)
qed

lemma count_reply_counted: "counted s \<Longrightarrow> counted (count_reply status s)"
  using sum_support_upd [of "lg_statuses s" status] unfolding counted_def count_reply_def by simp

lemma lg_request_counted:
  assumes s: "counted s"
  shows "counted (snd (lg_request C w method path payload token s))"
proof -
  let ?url = "wk_base w @ path" and ?auth = "if token \<noteq> [] then Some (''Bearer '' @ token) else None"
  have net: "counted (s\<lparr>lg_net := net\<rparr>)" for net using s by (simp add: counted_def)
  obtain enc where enc: "(case payload of None \<Rightarrow> Inr [] | Some m \<Rightarrow> hc_Encode C m) = enc" by blast
  show ?thesis
  proof (cases "isl enc \<or> hc_NewRequest C method ?url \<noteq> None")
    case True
    then show ?thesis using s enc by (cases enc) (auto simp: lg_request_def)
  next
    case False
    then obtain body where body: "enc = Inr body" "hc_NewRequest C method ?url = None" by (cases enc) auto
    obtain r n where r: "hc_Do C method ?url body ?auth (lg_net s) = (r, n)" by fastforce
    show ?thesis
    proof (cases r)
      case (NoReply e)
      then show ?thesis using enc body r net by (simp add: lg_request_def)
    next
      case (Reply st content)
      then have "snd (lg_request C w method path payload token s) = count_reply st (s\<lparr>lg_net := n\<rparr>)"
        using enc body r by (cases content) (simp_all add: lg_request_def Let_def)
      with count_reply_counted [OF net] show ?thesis by simp
    qed
  qed
qed

lemma invite_counted: "counted s \<Longrightarrow> counted (invite C draw w s)"
  by (simp add: invite_def Let_def lg_request_counted)

lemma run_case_counted: "counted s \<Longrightarrow> run_case C d w s = Some s' \<Longrightarrow> counted s'"
  by (auto simp: run_case_def Let_def lg_get_def intro: lg_request_counted split: if_splits option.splits)

lemma worker_run_counted: "counted s \<Longrightarrow> worker_run C deadline ds w s = Some s' \<Longrightarrow> counted s'"
  by (induction ds arbitrary: s) (auto split: if_splits option.splits intro: invite_counted run_case_counted)

subsection \<open>Interleaved workers\<close>

definition reach_kept :: "'w http_client \<Rightarrow> 'w \<Rightarrow> ('w, 'a) lg_prog \<Rightarrow> bool" where
  "reach_kept C net m \<longleftrightarrow> (\<forall>s. lg_reach C net s \<longrightarrow> lg_reach C net (snd (m s)))"

lemma reach_kept_try:
  assumes "reach_kept C net m" and "\<And>a. reach_kept C net (k a)"
  shows "reach_kept C net (go_try m h k)"
  using assms unfolding reach_kept_def go_try_def by (fastforce split: prod.splits sum.splits)

lemma reach_kept_post: "reach_kept C net (lg_post C w path payload)"
  by (simp add: reach_kept_def lg_post_def lg_reach.request)

lemma reach_kept_unmarshal: "reach_kept C net (unmarshal_with dec body)"
  by (simp add: reach_kept_def unmarshal_with_def)

lemma reach_kept_pool: "reach_kept C net m \<Longrightarrow> reach_kept C net (\<lambda>s. m (addToPool email s))"
  by (simp add: reach_kept_def lg_reach.pool)

lemma reach_kept_create: "reach_kept C net (create_tasks C dec i n w)"
proof (induction n arbitrary: i w)
  case 0
  then show ?case by (simp add: reach_kept_def)
next
  case (Suc n)
  then show ?case unfolding create_tasks.simps by (intro reach_kept_try reach_kept_post reach_kept_unmarshal)
qed

lemma reach_kept_setup: "reach_kept C net (setupWorker C decodeToken decodeID base n nowNano nowUnix)"
  unfolding setupWorker_def Let_def
  by (intro reach_kept_try reach_kept_post reach_kept_unmarshal reach_kept_pool reach_kept_create)

lemma reach_invite: "lg_reach C net s \<Longrightarrow> lg_reach C net (invite C draw w s)"
  by (simp add: invite_def Let_def lg_reach.request)

lemma reach_run_case: "lg_reach C net s \<Longrightarrow> run_case C d w s = Some s' \<Longrightarrow> lg_reach C net s'"
  by (auto simp: run_case_def Let_def lg_get_def intro: lg_reach.request split: if_splits option.splits)

lemma reach_run: "lg_reach C net s \<Longrightarrow> worker_run C deadline ds w s = Some s' \<Longrightarrow> lg_reach C net s'"
  by (induction ds arbitrary: s) (auto split: if_splits option.splits intro: reach_invite reach_run_case)

text \<open>A worker's goroutine only takes steps of the interleaving, and it never panics.\<close>

lemma worker_goroutine_reach:
  assumes "lg_reach C net s"
  shows "\<exists>e s'. worker_goroutine C decodeToken decodeID flags deadline n nowNano nowUnix ds s = Some (e, s') \<and> lg_reach C net s'"
proof -
  obtain r s1 where st: "setupWorker C decodeToken decodeID (fg_url flags) n nowNano nowUnix s = (r, s1)" by fastforce
  have s1: "lg_reach C net s1"
    using reach_kept_setup [of C net decodeToken decodeID "fg_url flags" n nowNano nowUnix] assms st
    unfolding reach_kept_def by (metis snd_conv)
  show ?thesis
  proof (cases r)
    case (Inr w)
    with st obtain s2 where "worker_run C deadline ds w s1 = Some s2" using loadgen_never_panics by blast
    with st Inr reach_run [OF s1] show ?thesis by (simp add: worker_goroutine_def)
  qed (use st s1 in \<open>simp add: worker_goroutine_def\<close>)
qed

lemma reach_counted: "lg_reach C net s \<Longrightarrow> counted s"
proof (induction rule: lg_reach.induct)
  case start
  then show ?case by (simp add: counted_def)
next
  case (request s w verb path payload token)
  from request.IH show ?case by (rule lg_request_counted)
next
  case (pool s email)
  then show ?case by (simp add: counted_def addToPool_def)
qed

text \<open>Whatever the interleaving, the counts by status that \<open>main\<close> prints add up to the total it prints.\<close>

lemma final_report_adds_up:
  assumes "lg_reach C net s" and "range_keys ks s"
  shows "lg_total s = sum_list (map (lg_statuses s) ks)"
  using reach_counted [OF assms(1)] assms(2) by (simp add: counted_def range_keys_def sum_list_distinct_conv_sum_set)

text \<open>The final report comes last and exactly once the workers are done.\<close>

lemma reportLoop_returns: "snd (reportLoop es) \<longleftrightarrow> WorkersDone \<in> set es"
  by (induction es rule: reportLoop.induct) (simp_all add: split_beta)

end
