(* ===== verification/Relay_Metrics.thy ===== *)
theory Relay_Metrics
  imports Relay_Settlement "HOL-Library.Multiset"
begin

text \<open>
  \<open>internal/infrastructure/outbox/metrics.go\<close> and the parts of \<open>relay.go\<close> that feed it: the counters and the gauge of the
  relay, the label under which a shard counts a failed send, the tick with its counters, and the recovery of a
  tick that panicked. Prometheus counters are natural numbers here (they are floats that count exactly up to
  \<open>2^53\<close>); the gauge is a real. The tick with counters erases to the tick of \<open>Relay\<close>. The theorems say what the
  counters tell about the outbox, and where a recovered panic makes one of them count too much.
\<close>

subsection \<open>Counters\<close>

record relay_metrics =
  sentTotal :: nat
  failedTotal :: nat
  oldestPendingSeconds :: real
  sendErrorsTotal :: "string \<Rightarrow> nat"
  tickErrorsTotal :: nat

text \<open>\<open>Duration.Seconds\<close>: the quotient and the remainder truncate towards zero; \<open>fl\<close> rounds to a float64.\<close>

definition Seconds :: "(real \<Rightarrow> real) \<Rightarrow> duration \<Rightarrow> real" where
  "Seconds fl d =
     (let sec = sgn d * (\<bar>d\<bar> div Second); nsec = sgn d * (\<bar>d\<bar> mod Second)
      in fl (real_of_int sec + fl (real_of_int nsec / 1000000000)))"

definition observeOldestPending :: "(real \<Rightarrow> real) \<Rightarrow> env \<Rightarrow> relay_metrics \<Rightarrow> db \<Rightarrow> relay_metrics \<times> db" where
  "observeOldestPending fl E m s =
     (case OutboxRepo_OldestPendingAge E s of
        (Inl err, s1) \<Rightarrow> (m, s1)
      | (Inr age, s1) \<Rightarrow> (m\<lparr>oldestPendingSeconds := Seconds fl age\<rparr>, s1))"

subsection \<open>The label a shard counts a failed send under\<close>

definition send_error_reason :: "shard_obs \<Rightarrow> gerr \<Rightarrow> string" where
  "send_error_reason ob e =
     (if ob_cause_paused ob then ''paused''
      else if errors_is e Canceled then ''shutdown''
      else if errors_is e DeadlineExceeded then ''budget''
      else ''provider'')"

definition shard_send_error :: "shard_obs \<Rightarrow> Claimed list \<Rightarrow> string option" where
  "shard_send_error ob shard =
     (if ob_ctx_done ob then None
      else case check_loop ob shard [] [] of
        (Some p, sent, pending) \<Rightarrow> None
      | (None, sent, pending) \<Rightarrow>
          if pending = [] then None
          else (case ob_send ob (map cl_Message pending) of
                  Inl p \<Rightarrow> None
                | Inr (Inl e) \<Rightarrow> Some (send_error_reason ob e)
                | Inr (Inr results) \<Rightarrow> if length results \<noteq> length pending then Some ''mismatch'' else None))"

definition dispatch_send_errors :: "OutboxConfig \<Rightarrow> (nat \<Rightarrow> shard_obs) \<Rightarrow> Claimed list \<Rightarrow> string list" where
  "dispatch_send_errors cfg obs claimed =
     (let shards = shardBy claimed (oc_Workers cfg)
      in List.map_filter (\<lambda>(i, shard). shard_send_error (obs i) shard) (zip [0..<length shards] shards))"

definition count_send_errors :: "string list \<Rightarrow> relay_metrics \<Rightarrow> relay_metrics" where
  "count_send_errors reasons m = m\<lparr>sendErrorsTotal := \<lambda>r. sendErrorsTotal m r + count_list reasons r\<rparr>"

subsection \<open>A tick with its counters\<close>

text \<open>The rows the closure of \<open>tick\<close> has claimed when it calls \<open>dispatch\<close>; none when the transaction did not
  begin or the claim failed, and \<open>dispatch\<close> is not called then.\<close>

definition tick_claimed :: "env \<Rightarrow> OutboxConfig \<Rightarrow> db \<Rightarrow> Claimed list" where
  "tick_claimed E cfg s =
     (if fault E (stmt s) = NoFault
      then (case OutboxRepo_Claim E (oc_Batch cfg) (s\<lparr>stmt := Suc (stmt s)\<rparr>) of
              (Inl err, s1) \<Rightarrow> [] | (Inr claimed, s1) \<Rightarrow> claimed)
      else [])"

definition tick_settlement :: "env \<Rightarrow> OutboxConfig \<Rightarrow> (Claimed list \<Rightarrow> settlement) \<Rightarrow> db \<Rightarrow> settlement" where
  "tick_settlement E cfg dsp s =
     (if fault E (stmt s) = NoFault then fst (tick_body E cfg dsp (s\<lparr>stmt := Suc (stmt s)\<rparr>)) else empty_settlement)"

definition observed_tick :: "env \<Rightarrow> OutboxConfig \<Rightarrow> (real \<Rightarrow> real) \<Rightarrow> (Claimed list \<Rightarrow> settlement) \<Rightarrow>
    (Claimed list \<Rightarrow> string list) \<Rightarrow> int \<Rightarrow> int \<Rightarrow> int \<times> relay_metrics \<times> db \<Rightarrow> int \<times> relay_metrics \<times> db" where
  "observed_tick E cfg fl dsp reasons now now2 pms =
     (let (paused, m, s) = pms
      in if now < paused then (paused, m, s)
         else let (m1, s1) = observeOldestPending fl E m s;
                  st = tick_settlement E cfg dsp s1;
                  m2 = count_send_errors (reasons (tick_claimed E cfg s1)) m1;
                  (r, s2) = tx_do E (\<lambda>s. snd (tick_body E cfg dsp s)) s1;
                  paused' = (if st_paused st then pause_until now2 (st_pause st) else paused)
              in case r of
                   Inl err \<Rightarrow> (paused', m2\<lparr>tickErrorsTotal := tickErrorsTotal m2 + 1\<rparr>, s2)
                 | Inr _ \<Rightarrow> (paused', m2\<lparr>sentTotal := sentTotal m2 + st_delivered st,
                     failedTotal := failedTotal m2 + length (st_fail st)\<rparr>, s2))"

text \<open>
  The deferred recovery of \<open>tick\<close>. A panic may come out of the reading of the age, out of the claim, or out of
  the statements after \<open>dispatch\<close> (whose own shards recover by themselves). The transaction manager rolls back
  before it passes a panic on, from whatever state \<open>sx\<close> the closure had reached.
\<close>

datatype panic_point = InObserve | InClaim | InSettle

definition panicked_tick :: "env \<Rightarrow> OutboxConfig \<Rightarrow> (real \<Rightarrow> real) \<Rightarrow> (Claimed list \<Rightarrow> string list) \<Rightarrow>
    panic_point \<Rightarrow> db \<Rightarrow> int \<Rightarrow> int \<Rightarrow> int \<times> relay_metrics \<times> db \<Rightarrow> int \<times> relay_metrics \<times> db" where
  "panicked_tick E cfg fl reasons pp sx now now2 pms =
     (let (paused, m, s) = pms
      in if now < paused then (paused, m, s)
         else let (m1, s1) = observeOldestPending fl E m s;
                  (m2, s2) = (case pp of
                      InObserve \<Rightarrow> (m, s)
                    | InClaim \<Rightarrow> (m1, rollback_to s1 sx)
                    | InSettle \<Rightarrow> (count_send_errors (reasons (tick_claimed E cfg s1)) m1, rollback_to s1 sx))
              in (pause_until now2 defaultPause, m2\<lparr>tickErrorsTotal := tickErrorsTotal m2 + 1\<rparr>, s2))"

subsection \<open>The counters change nothing\<close>

lemma observeOldestPending_db: "snd (observeOldestPending fl E m s) = snd (OutboxRepo_OldestPendingAge E s)"
  by (simp add: observeOldestPending_def split: prod.splits sum.splits)

lemma observed_tick_erase:
  "(let (paused', m', s') = observed_tick E cfg fl dsp reasons now now2 (paused, m, s) in (paused', s')) =
     snd (relay_tick E cfg dsp now now2 (paused, s))"
  using observeOldestPending_db [of fl E m s]
  by (auto simp: observed_tick_def relay_tick_def tick_settlement_def Let_def split: prod.splits sum.splits)

subsection \<open>One shard settles a message at most once unless a call panicked\<close>

abbreviation retry_ids :: "shardOutcome \<Rightarrow> int64 list" where
  "retry_ids out \<equiv> map (\<lambda>it. cl_ID (ri_claimed it)) (so_retry out)"

definition panic_free :: "shard_obs \<Rightarrow> bool" where
  "panic_free ob \<longleftrightarrow> (\<forall>i. \<not> isl (ob_was_sent ob i)) \<and> (\<forall>msgs. \<not> isl (ob_send ob msgs)) \<and> (\<forall>i. ob_mark ob i = None)"

lemma check_loop_mset:
  "check_loop ob cs sent pending = (p, sent', pending') \<Longrightarrow>
     mset sent' + mset (map cl_ID pending') \<subseteq># mset sent + mset (map cl_ID pending) + mset (map cl_ID cs)"
  by (induction cs arbitrary: sent pending)
    (fastforce split: sum.splits bool.splits intro: subset_mset.order_trans mset_subset_eq_add_left)+

lemma mark_loop_mset:
  "mark_loop etext ob crs out = (p, out') \<Longrightarrow>
     mset (so_sent out') + mset (retry_ids out') \<subseteq>#
       mset (so_sent out) + mset (retry_ids out) + mset (map (\<lambda>cr. cl_ID (fst cr)) crs) \<and>
     so_delivered out' + length (so_sent out) = so_delivered out + length (so_sent out')"
proof (induction crs arbitrary: out)
  case (Cons cr crs)
  obtain c res where "cr = (c, res)" by fastforce
  with Cons show ?case by (fastforce split: option.splits intro: mset_subset_eq_add_left)
qed simp

lemma check_loop_panic_free: "panic_free ob \<Longrightarrow> fst (check_loop ob cs sent pending) = None"
  by (induction cs arbitrary: sent pending)
    (auto simp: panic_free_def isl_def split: sum.splits bool.splits)

lemma mark_loop_panic_free: "panic_free ob \<Longrightarrow> fst (mark_loop etext ob crs out) = None"
  by (simp add: panic_free_def mark_loop_no_panic)

text \<open>A shard whose batch got no complete answer: a panic was recovered, or nothing is put up for retry.\<close>

lemma processShard_unmarked:
  assumes "\<not> ob_ctx_done ob" and c: "check_loop ob shard [] [] = (q, sent, pending)"
    and no: "\<nexists>results. q = None \<and> pending \<noteq> [] \<and> ob_send ob (map cl_Message pending) = Inr (Inr results) \<and>
      length results = length pending"
  obtains (recovered) p where "\<not> panic_free ob"
      and "fst (processShard etext ob shard) = recover_shard pending p (empty_outcome\<lparr>so_sent := sent\<rparr>)"
    | (kept) "so_sent (fst (processShard etext ob shard)) = sent" and "so_retry (fst (processShard etext ob shard)) = []"
      and "so_delivered (fst (processShard etext ob shard)) = 0"
proof (cases "(\<exists>p. q = Some p) \<or> (pending \<noteq> [] \<and> isl (ob_send ob (map cl_Message pending)))")
  case True
  have "panic_free ob \<Longrightarrow> q = None" using check_loop_panic_free [of ob shard "[]" "[]"] c by simp
  with True have "\<not> panic_free ob" unfolding panic_free_def by blast
  moreover have "fst (processShard etext ob shard) = recover_shard pending
      (if q = None then projl (ob_send ob (map cl_Message pending)) else the q) (empty_outcome\<lparr>so_sent := sent\<rparr>)"
    using True assms(1) c by (auto simp: processShard_def Let_def isl_def)
  ultimately show ?thesis by (rule recovered)
next
  case False
  then show ?thesis using assms(1) c no
    by (intro kept) (auto simp: processShard_def Let_def send_failed_def empty_outcome_def split: sum.splits option.splits)
qed

text \<open>The outcome of a shard: what its code leaves, and whether a recovered panic has added to it.\<close>

lemma processShard_mset:
  obtains out pending p where "fst (processShard etext ob shard) = out \<or>
      \<not> panic_free ob \<and> fst (processShard etext ob shard) = recover_shard pending p out"
    and "mset (so_sent out) + mset (retry_ids out) \<subseteq># mset (map cl_ID shard)"
    and "so_delivered out \<le> length (so_sent out)"
proof (cases "ob_ctx_done ob")
  case True
  then show ?thesis by (intro that [of empty_outcome]) (simp_all add: processShard_def empty_outcome_def)
next
  case False
  obtain q sent pending where c: "check_loop ob shard [] [] = (q, sent, pending)"
    by (cases "check_loop ob shard [] []")
  let ?out = "empty_outcome\<lparr>so_sent := sent\<rparr>"
  from check_loop_mset [OF c] have le: "mset sent + mset (map cl_ID pending) \<subseteq># mset (map cl_ID shard)" by simp
  then have sent: "mset sent \<subseteq># mset (map cl_ID shard)" by (rule subset_mset.order_trans [OF mset_subset_eq_add_left])
  show ?thesis
  proof (cases "\<exists>results. q = None \<and> pending \<noteq> [] \<and> ob_send ob (map cl_Message pending) = Inr (Inr results) \<and>
      length results = length pending")
    case True
    then obtain results where r: "q = None" "pending \<noteq> []" "length results = length pending"
      "ob_send ob (map cl_Message pending) = Inr (Inr results)" by blast
    obtain p out where m: "mark_loop etext ob (zip pending results) ?out = (p, out)" by fastforce
    have "map (\<lambda>cr. cl_ID (fst cr)) (zip pending results) = map cl_ID pending"
      using map_map [of cl_ID fst "zip pending results"] r(3) by (simp add: comp_def)
    with mark_loop_mset [OF m] le have "mset (so_sent out) + mset (retry_ids out) \<subseteq># mset (map cl_ID shard)"
      "so_delivered out \<le> length (so_sent out)"
      by (auto simp: empty_outcome_def intro: subset_mset.order_trans)
    moreover have "fst (processShard etext ob shard) = (case p of None \<Rightarrow> out | Some p' \<Rightarrow> recover_shard pending p' out)"
      using False c r m by (simp add: processShard_def Let_def split: option.splits)
    moreover have "panic_free ob \<Longrightarrow> p = None" using mark_loop_panic_free [of ob etext "zip pending results" ?out] m by simp
    ultimately show ?thesis by (cases p) (auto intro: that [of out])
  next
    case no: False
    show ?thesis
    proof (rule processShard_unmarked [OF False c no, of etext])
      fix p assume "\<not> panic_free ob" "fst (processShard etext ob shard) = recover_shard pending p ?out"
      then show ?thesis using sent by (intro that [of ?out pending]) (auto simp: empty_outcome_def)
    next
      assume "so_sent (fst (processShard etext ob shard)) = sent" "so_retry (fst (processShard etext ob shard)) = []"
        "so_delivered (fst (processShard etext ob shard)) = 0"
      then show ?thesis using sent by (intro that [of "fst (processShard etext ob shard)"]) simp_all
    qed
  qed
qed

lemma processShard_sent_mset: "mset (so_sent (fst (processShard etext ob shard))) \<subseteq># mset (map cl_ID shard)"
  by (rule processShard_mset [of etext ob shard])
    (auto simp: recover_shard_def intro: subset_mset.order_trans [OF mset_subset_eq_add_left])

lemma processShard_delivered: "so_delivered (fst (processShard etext ob shard)) \<le> length (so_sent (fst (processShard etext ob shard)))"
  by (rule processShard_mset [of etext ob shard]) (auto simp: recover_shard_def)

lemma processShard_once:
  "panic_free ob \<Longrightarrow> mset (so_sent (fst (processShard etext ob shard))) + mset (retry_ids (fst (processShard etext ob shard)))
     \<subseteq># mset (map cl_ID shard)"
  by (rule processShard_mset [of etext ob shard]) auto

subsection \<open>Send errors and the gauge\<close>

lemma shard_send_error_labels:
  "shard_send_error ob shard = Some r \<Longrightarrow> r \<in> {''provider'', ''budget'', ''shutdown'', ''paused'', ''mismatch''}"
  by (auto simp: shard_send_error_def send_error_reason_def split: if_splits prod.splits option.splits sum.splits)

text \<open>A shard pauses the relay exactly when it counts a send error other than a shutdown.\<close>

lemma shard_paused_iff_counted:
  "so_paused (fst (processShard etext ob shard)) \<longleftrightarrow>
     (\<exists>r. shard_send_error ob shard = Some r \<and> r \<noteq> ''shutdown'')"
proof (cases "ob_ctx_done ob")
  case False
  obtain p sent pending where c: "check_loop ob shard [] [] = (p, sent, pending)"
    by (cases "check_loop ob shard [] []")
  have marks: "so_paused out1 = False"
    if "mark_loop etext ob crs (empty_outcome\<lparr>so_sent := sent\<rparr>) = (q, out1)" for crs q out1
    using mark_loop_split [OF that] by (auto simp: empty_outcome_def)
  show ?thesis
  proof (cases "p = None \<and> pending \<noteq> []")
    case True
    with False c marks show ?thesis
      by (cases "ob_send ob (map cl_Message pending)")
        (auto simp: processShard_def shard_send_error_def Let_def send_failed_def send_error_reason_def
          recover_shard_def empty_outcome_def split: sum.splits option.splits prod.splits)
  qed (use False c in \<open>auto simp: processShard_def shard_send_error_def Let_def recover_shard_def empty_outcome_def
      split: option.splits\<close>)
qed (simp add: processShard_def shard_send_error_def empty_outcome_def)

lemma oldest_pending_empty:
  assumes "fl 0 = 0" and "\<forall>r \<in> set (email_outbox (tbl s)). o_status r \<noteq> status_pending"
    and "OutboxRepo_OldestPendingAge E s = (Inr age, s1)"
  shows "oldestPendingSeconds (fst (observeOldestPending fl E m s)) = 0"
proof -
  from assms(2) have "filter (\<lambda>r. o_status r = status_pending) (email_outbox (tbl s)) = []" by (simp add: filter_empty_conv)
  with assms(3) have "age = 0"
    by (auto simp: OutboxRepo_OldestPendingAge_def go_try_Inr query_Inr ret_def split: option.splits)
  with assms(1,3) show ?thesis by (simp add: observeOldestPending_def Seconds_def)
qed

subsection \<open>The settlement\<close>

abbreviation reschedule_ids :: "settlement \<Rightarrow> int64 list" where
  "reschedule_ids st \<equiv> map rt_ID (st_reschedule st)"

abbreviation fail_ids :: "settlement \<Rightarrow> int64 list" where
  "fail_ids st \<equiv> map fl_ID (st_fail st)"

lemma mset_concat_mono: "list_all2 (\<lambda>a b. mset a \<subseteq># mset b) xss yss \<Longrightarrow> mset (concat xss) \<subseteq># mset (concat yss)"
  by (induction rule: list_all2_induct) (simp_all add: subset_mset.add_mono)

lemma shard_outcomes_mset:
  assumes "\<And>i shard. mset (f (fst (processShard etext (obs i) shard))) \<subseteq># mset (map cl_ID shard)"
  shows "mset (concat (map f (shard_outcomes etext obs (shardBy claimed w)))) \<subseteq># mset (map cl_ID claimed)"
proof -
  have "list_all2 (\<lambda>a b. mset a \<subseteq># mset b) (map f (shard_outcomes etext obs (shardBy claimed w)))
      (map (map cl_ID) (shardBy claimed w))"
    using assms by (simp add: list_all2_conv_all_nth shard_outcomes_def)
  from mset_concat_mono [OF this] show ?thesis by (simp add: shardBy_concat flip: map_concat)
qed

lemma collect_retry_delivered [simp]: "st_delivered (collect_retry cfg fl u its s) = st_delivered s"
  by (induction its arbitrary: s) (simp_all add: Let_def)

lemma collect_delivered: "st_delivered (collect cfg fl u os s) = st_delivered s + sum_list (map so_delivered os)"
  by (induction os arbitrary: s) (simp_all add: Let_def)

lemma mset_map_partition:
  "mset (map f (filter (\<lambda>x. \<not> P x) xs)) + mset (map f (filter P xs)) = mset (map f xs)"
  by (induction xs) simp_all

lemma collect_ids:
  "mset (reschedule_ids (collect cfg fl u os empty_settlement)) + mset (fail_ids (collect cfg fl u os empty_settlement)) =
     mset (concat (map retry_ids os))"
proof -
  let ?its = "concat (map so_retry os)" and ?st = "collect cfg fl u os empty_settlement"
  from collect_result [of cfg fl u os empty_settlement] obtain rs where
    fail: "st_fail ?st = map failure_of (filter (exhausted cfg) ?its)" and
    rs: "st_reschedule ?st = rs" "list_all2 (is_retry_of fl u) (filter (\<lambda>it. \<not> exhausted cfg it) ?its) rs"
    by (auto simp: empty_settlement_def)
  from rs(2) have "map rt_ID rs = map (\<lambda>it. cl_ID (ri_claimed it)) (filter (\<lambda>it. \<not> exhausted cfg it) ?its)"
    by (induction rule: list_all2_induct) (simp_all add: is_retry_of_def)
  moreover have "concat (map retry_ids os) = map (\<lambda>it. cl_ID (ri_claimed it)) ?its" by (simp add: map_concat comp_def)
  moreover have "map fl_ID (st_fail ?st) = map (\<lambda>it. cl_ID (ri_claimed it)) (filter (exhausted cfg) ?its)"
    by (simp add: fail failure_of_def)
  ultimately show ?thesis unfolding rs(1) by (simp only: mset_map_partition)
qed

lemma dispatch_sent_mset: "mset (st_sent (dispatch cfg fl u etext obs claimed)) \<subseteq># mset (map cl_ID claimed)"
  using shard_outcomes_mset [where f = so_sent, OF processShard_sent_mset]
    collect_result [of cfg fl u "shard_outcomes etext obs (shardBy claimed (oc_Workers cfg))" empty_settlement]
  by (simp add: dispatch_def empty_settlement_def)

lemma dispatch_delivered: "st_delivered (dispatch cfg fl u etext obs claimed) \<le> length (st_sent (dispatch cfg fl u etext obs claimed))"
proof -
  let ?os = "shard_outcomes etext obs (shardBy claimed (oc_Workers cfg))"
  have "sum_list (map so_delivered ?os) \<le> sum_list (map (length \<circ> so_sent) ?os)"
  proof (rule sum_list_mono)
    fix out assume "out \<in> set ?os"
    from shard_outcomes_index [OF this] processShard_delivered [of etext] show "so_delivered out \<le> (length \<circ> so_sent) out" by auto
  qed
  with collect_result [of cfg fl u ?os empty_settlement] show ?thesis
    by (simp add: dispatch_def empty_settlement_def collect_delivered length_concat comp_def)
qed

lemma dispatch_once:
  assumes "\<forall>k. panic_free (obs k)" and st_def: "st = dispatch cfg fl u etext obs claimed"
  shows "mset (st_sent st) + mset (reschedule_ids st) + mset (fail_ids st) \<subseteq># mset (map cl_ID claimed)"
proof -
  let ?os = "shard_outcomes etext obs (shardBy claimed (oc_Workers cfg))"
  have concat2: "mset (concat (map (\<lambda>out. so_sent out @ retry_ids out) os)) =
      mset (concat (map so_sent os)) + mset (concat (map retry_ids os))" for os
    by (induction os) simp_all
  have "mset (concat (map (\<lambda>out. so_sent out @ retry_ids out) ?os)) \<subseteq># mset (map cl_ID claimed)"
    by (rule shard_outcomes_mset) (use assms(1) processShard_once in simp)
  moreover have "st_sent st = concat (map so_sent ?os)"
    using collect_result [of cfg fl u ?os empty_settlement] by (simp add: st_def dispatch_def empty_settlement_def)
  moreover have "mset (reschedule_ids st) + mset (fail_ids st) = mset (concat (map retry_ids ?os))"
    unfolding st_def dispatch_def by (rule collect_ids)
  ultimately show ?thesis by (simp only: concat2 union_assoc)
qed

subsection \<open>What a settlement does to the number of rows and of dead letters\<close>

definition dead_letters :: "tables \<Rightarrow> outbox_row list" where
  "dead_letters T = filter (\<lambda>r. o_status r = status_failed) (email_outbox T)"

lemma distinct_submset:
  assumes "mset xs \<subseteq># mset ys" and "distinct ys"
  shows "distinct xs"
proof -
  from assms(1) obtain M where "mset ys = mset xs + M" by (auto simp: subset_mset.le_iff_add)
  moreover obtain zs where "mset zs = M" using ex_mset by blast
  ultimately have "mset ys = mset (xs @ zs)" by simp
  from mset_eq_imp_distinct_iff [OF this] assms(2) show ?thesis by simp
qed

lemma length_filter_key:
  "distinct (map f xs) \<Longrightarrow> length (filter (\<lambda>x. f x \<in> A) xs) = card (A \<inter> f ` set xs)"
proof (induction xs)
  case (Cons x xs)
  have "A \<inter> f ` set (x # xs) = (if f x \<in> A then insert (f x) (A \<inter> f ` set xs) else A \<inter> f ` set xs)" by auto
  with Cons show ?case by auto
qed simp

lemma settle_rows_length:
  "length (settle_rows now st rows) + length (filter (\<lambda>r. o_id r \<in> set (st_sent st)) rows) = length rows"
proof (induction rows)
  case (Cons r rows)
  have "settle_row now (verdict_of st (o_id r)) r = None \<longleftrightarrow> o_id r \<in> set (st_sent st)"
    by (auto simp: verdict_of_def split: option.splits)
  with Cons show ?case by (auto simp: settle_rows_def map_filter_def)
qed (simp add: settle_rows_def map_filter_def)

lemma settle_rows_dead:
  assumes "\<And>r. r \<in> set rows \<Longrightarrow> verdict_of st (o_id r) \<noteq> Untouched \<Longrightarrow> o_status r = status_pending"
  shows "length (filter (\<lambda>r. o_status r = status_failed) (settle_rows now st rows)) =
    length (filter (\<lambda>r. o_status r = status_failed) rows) +
    length (filter (\<lambda>r. o_id r \<in> {i. \<exists>f. verdict_of st i = Dead f}) rows)"
  using assms
proof (induction rows)
  case (Cons r rows)
  have "status_pending \<noteq> status_failed" by (simp add: outbox_status_defs)
  moreover from Cons.prems have "verdict_of st (o_id r) \<noteq> Untouched \<Longrightarrow> o_status r = status_pending" by simp
  moreover from Cons have IH: "length (filter (\<lambda>r. o_status r = status_failed) (settle_rows now st rows)) =
    length (filter (\<lambda>r. o_status r = status_failed) rows) +
    length (filter (\<lambda>r. o_id r \<in> {i. \<exists>f. verdict_of st i = Dead f}) rows)" by simp
  ultimately show ?case
    by (cases "verdict_of st (o_id r)") (auto simp: settle_rows_def map_filter_def)
qed (simp add: settle_rows_def map_filter_def)

lemma verdict_touched:
  "verdict_of st i \<noteq> Untouched \<Longrightarrow> i \<in> set (st_sent st) \<union> set (reschedule_ids st) \<union> set (fail_ids st)"
  by (cases "verdict_of st i") (auto dest!: verdict_Gone verdict_Again verdict_Dead intro: rev_image_eqI)

lemma dead_verdicts_sub: "{i. \<exists>f. verdict_of st i = Dead f} \<subseteq> set (fail_ids st)"
  by (auto dest: verdict_Dead)

lemma dead_verdicts_eq:
  assumes "distinct (st_sent st @ reschedule_ids st @ fail_ids st)"
  shows "{i. \<exists>f. verdict_of st i = Dead f} = set (fail_ids st)"
proof
  show "set (fail_ids st) \<subseteq> {i. \<exists>f. verdict_of st i = Dead f}"
  proof
    fix i assume i: "i \<in> set (fail_ids st)"
    with assms have "i \<notin> set (st_sent st)" "i \<notin> set (reschedule_ids st)" by auto
    moreover from this(2) have "find (\<lambda>r. rt_ID r = i) (st_reschedule st) = None" by (auto simp: find_None_iff)
    moreover from i have "find (\<lambda>f. fl_ID f = i) (st_fail st) \<noteq> None" by (auto simp: find_None_iff)
    ultimately show "i \<in> {i. \<exists>f. verdict_of st i = Dead f}" by (auto simp: verdict_of_def)
  qed
qed (rule dead_verdicts_sub)

text \<open>The claimed ids are ids of waiting rows of the table, each once.\<close>

lemma settle_counts:
  assumes D: "distinct (map o_id rows)" and st: "st = dispatch cfg fl u etext obs claimed"
    and C: "distinct (map cl_ID claimed)" and sub: "set (map cl_ID claimed) \<subseteq> o_id ` set rows"
    and P: "\<And>r. r \<in> set rows \<Longrightarrow> o_id r \<in> set (map cl_ID claimed) \<Longrightarrow> o_status r = status_pending"
  shows "length (settle_rows now st rows) + st_delivered st \<le> length rows"
    and "length (filter (\<lambda>r. o_status r = status_failed) (settle_rows now st rows))
      \<le> length (filter (\<lambda>r. o_status r = status_failed) rows) + length (st_fail st)"
    and "\<forall>k. panic_free (obs k) \<Longrightarrow> length (filter (\<lambda>r. o_status r = status_failed) (settle_rows now st rows))
      = length (filter (\<lambda>r. o_status r = status_failed) rows) + length (st_fail st)"
proof -
  have ids: "set (st_sent st) \<union> set (reschedule_ids st) \<union> set (fail_ids st) \<subseteq> set (map cl_ID claimed)"
    using settled_ids [OF dispatch_sound [of cfg obs claimed fl u etext]] st by simp
  have pend: "o_status r = status_pending" if r: "r \<in> set rows" and v: "verdict_of st (o_id r) \<noteq> Untouched" for r
    using verdict_touched [OF v] ids by (intro P [OF r]) blast
  note dead = settle_rows_dead [where rows = rows and st = st and now = now, OF pend]
    length_filter_key [OF D, of "{i. \<exists>f. verdict_of st i = Dead f}"]
  have "distinct (st_sent st)" using distinct_submset [OF dispatch_sent_mset C] st by simp
  moreover have "set (st_sent st) \<inter> o_id ` set rows = set (st_sent st)" using ids sub by auto
  ultimately have "length (filter (\<lambda>r. o_id r \<in> set (st_sent st)) rows) = length (st_sent st)"
    using length_filter_key [OF D, of "set (st_sent st)"] by (simp add: distinct_card)
  with settle_rows_length [of now st rows] dispatch_delivered [of cfg fl u etext obs claimed] st
  show "length (settle_rows now st rows) + st_delivered st \<le> length rows" by simp
  have "card ({i. \<exists>f. verdict_of st i = Dead f} \<inter> o_id ` set rows) \<le> card (set (fail_ids st))"
    using dead_verdicts_sub [of st] by (intro card_mono) auto
  also have "\<dots> \<le> length (st_fail st)" using card_length [of "fail_ids st"] by simp
  finally show "length (filter (\<lambda>r. o_status r = status_failed) (settle_rows now st rows))
      \<le> length (filter (\<lambda>r. o_status r = status_failed) rows) + length (st_fail st)" using dead by linarith
  assume "\<forall>k. panic_free (obs k)"
  from dispatch_once [OF this st] have "mset (st_sent st @ reschedule_ids st @ fail_ids st) \<subseteq># mset (map cl_ID claimed)"
    by (simp only: mset_append union_assoc)
  from distinct_submset [OF this C] have dist: "distinct (st_sent st @ reschedule_ids st @ fail_ids st)" .
  moreover have "set (fail_ids st) \<inter> o_id ` set rows = set (fail_ids st)" using ids sub by blast
  ultimately have "card ({i. \<exists>f. verdict_of st i = Dead f} \<inter> o_id ` set rows) = length (fail_ids st)"
    using dead_verdicts_eq [OF dist] distinct_card [of "fail_ids st"] by simp
  then show "length (filter (\<lambda>r. o_status r = status_failed) (settle_rows now st rows))
      = length (filter (\<lambda>r. o_status r = status_failed) rows) + length (st_fail st)" using dead by simp
qed

subsection \<open>The tick\<close>

lemma dispatch_Nil [simp]: "dispatch cfg fl u etext obs [] = empty_settlement"
  by (simp add: dispatch_def shard_outcomes_def shardBy_def)

lemma tick_body_settlement:
  assumes "snd (tick_body E cfg (dispatch cfg fl u etext obs) s) = (Inr v, s')"
  shows "fst (tick_body E cfg (dispatch cfg fl u etext obs) s) =
    dispatch cfg fl u etext obs (map scan_claimed (sel_claim (locked E (stmt s)) (oc_Batch cfg) (clock E (stmt s)) (tbl s)))"
proof (cases "OutboxRepo_Claim E (oc_Batch cfg) s")
  case (Pair r s1)
  with assms obtain cs where "OutboxRepo_Claim E (oc_Batch cfg) s = (Inr cs, s1)" by (cases r) (simp_all add: tick_body_def)
  with OutboxRepo_Claim_Inr [OF this] show ?thesis by (simp add: tick_body_def Let_def)
qed

text \<open>A tick whose transaction succeeded has settled exactly what \<open>dispatch\<close> returned for the claimed rows.\<close>

lemma observed_tick_counts:
  assumes I: "db_inv E s" and tx: "tx_do E (\<lambda>s. snd (tick_body E cfg (dispatch cfg fl u etext obs) s)) s = (Inr v, s')"
    and st: "st = tick_settlement E cfg (dispatch cfg fl u etext obs) s"
  shows "length (email_outbox (tbl s')) + st_delivered st \<le> length (email_outbox (tbl s))"
    and "length (dead_letters (tbl s')) \<le> length (dead_letters (tbl s)) + length (st_fail st)"
    and "\<forall>k. panic_free (obs k) \<Longrightarrow> length (dead_letters (tbl s')) = length (dead_letters (tbl s)) + length (st_fail st)"
proof -
  let ?dsp = "dispatch cfg fl u etext obs" and ?s = "s\<lparr>stmt := Suc (stmt s)\<rparr>"
  let ?rows = "email_outbox (tbl s)"
  let ?sel = "sel_claim (locked E (stmt ?s)) (oc_Batch cfg) (clock E (stmt ?s)) (tbl s)"
  let ?claimed = "map scan_claimed ?sel"
  from tx obtain s1 where f: "fault E (stmt s) = NoFault" and b: "snd (tick_body E cfg ?dsp ?s) = (Inr v, s1)"
    and s': "tbl s' = tbl s1" by (auto simp: tx_do_Inr)
  have st_eq: "st = ?dsp ?claimed" using st f tick_body_settlement [OF b] by (simp add: tick_settlement_def)
  have I': "db_inv E ?s" using I by simp
  from I' b obtain now where t: "email_outbox (tbl s') = settle_rows now st ?rows"
  proof (rule tick_body_Inr)
    fix now held clk st'
    assume "tbl s1 = (tbl ?s)\<lparr>email_outbox := settle_rows now st' (email_outbox (tbl ?s))\<rparr>"
      and "st' = ?dsp (map scan_claimed (sel_claim held (oc_Batch cfg) clk (tbl ?s))) \<or>
        sel_claim held (oc_Batch cfg) clk (tbl ?s) = [] \<and> st' = empty_settlement"
      and "held = locked E (stmt ?s)" "clk = clock E (stmt ?s)"
    then have "email_outbox (tbl s') = settle_rows now st ?rows" using st_eq s' by auto
    then show thesis by (rule that)
  qed
  have D: "distinct (map o_id ?rows)" using I by (auto simp: inv_def outbox_ok_def dest: tab_ok_distinct)
  note sel = sel_claim_rows [OF I, of "locked E (stmt ?s)" "oc_Batch cfg" "clock E (stmt ?s)"]
  have sub: "set (map cl_ID ?claimed) \<subseteq> o_id ` set ?rows" using sel(1) by (auto simp: scan_claimed_def)
  have pend: "o_status r = status_pending" if "r \<in> set ?rows" "o_id r \<in> set (map cl_ID ?claimed)" for r
  proof -
    from that(2) obtain c where c: "c \<in> set ?claimed" "o_id r = cl_ID c" unfolding set_map by blast
    from claimed_row [OF I c(1) that(1) c(2)] due_pending show ?thesis by blast
  qed
  note counts = settle_counts [OF D st_eq sel(2) sub pend, where now = now]
  from counts(1) show "length (email_outbox (tbl s')) + st_delivered st \<le> length ?rows" by (simp add: t)
  from counts(2) show "length (dead_letters (tbl s')) \<le> length (dead_letters (tbl s)) + length (st_fail st)"
    by (simp add: dead_letters_def t)
  show "length (dead_letters (tbl s')) = length (dead_letters (tbl s)) + length (st_fail st)" if "\<forall>k. panic_free (obs k)"
    using counts(3) that by (simp add: dead_letters_def t)
qed

lemma observeOldestPending_counters [simp]:
  "sentTotal (fst (observeOldestPending fl E m s)) = sentTotal m"
  "failedTotal (fst (observeOldestPending fl E m s)) = failedTotal m"
  "tickErrorsTotal (fst (observeOldestPending fl E m s)) = tickErrorsTotal m"
  by (simp_all add: observeOldestPending_def split: prod.splits sum.splits)

lemma count_send_errors_counters [simp]:
  "sentTotal (count_send_errors rs m) = sentTotal m" "failedTotal (count_send_errors rs m) = failedTotal m"
  "tickErrorsTotal (count_send_errors rs m) = tickErrorsTotal m"
  by (simp_all add: count_send_errors_def)

lemma observed_tick_no_error:
  assumes "fst (relay_tick E cfg dsp now now2 (paused, s)) = Inr v"
  shows "tickErrorsTotal (fst (snd (observed_tick E cfg fl dsp reasons now now2 (paused, m, s)))) = tickErrorsTotal m"
proof -
  obtain m1 s1 where o: "observeOldestPending fl E m s = (m1, s1)" by fastforce
  with observeOldestPending_db [of fl E m s] observeOldestPending_counters(3) [of fl E m s]
  have "s1 = snd (OutboxRepo_OldestPendingAge E s)" "tickErrorsTotal m1 = tickErrorsTotal m" by simp_all
  with assms o show ?thesis
    by (auto simp: observed_tick_def relay_tick_def Let_def split: prod.splits if_splits)
qed



text \<open>
  A recovered panic breaks the equality. With four emails at their last attempt, the first two rejected by the provider, the
  third delivered and the marking of the fourth panicking, the recovery puts the second and the third up for
  retry although the one is already there and the other is settled as sent: \<open>failedTotal\<close> grows by five, while
  the row of the third is deleted and three rows become dead letters.
\<close>

lemma recovery_overcounts:
  "let c = (\<lambda>i. \<lparr>cl_Message = \<lparr>msg_Recipient = [], msg_Subject = [], msg_Body = []\<rparr>, cl_ID = i, cl_Attempts = 7\<rparr>);
       ob = demo_obs\<lparr>ob_send := \<lambda>_. Inr (Inr [Some NumError, Some NumError, None, None]),
              ob_mark := \<lambda>i. if i = 4 then Some ''boom'' else None\<rparr>;
       st = collect demo_cfg (\<lambda>x. x) (\<lambda>_. 0) [fst (processShard (\<lambda>_. ''e'') ob [c 1, c 2, c 3, c 4])] empty_settlement
   in st_sent st = [3] \<and> st_reschedule st = [] \<and> fail_ids st = [1, 2, 2, 3, 4]"
  by (simp add: Let_def demo_obs_def demo_cfg_def processShard_def recover_shard_def empty_outcome_def empty_settlement_def)

text \<open>A tick that panics never loses a row: the rows are those before it, one tick error is counted, and the
  relay is quiet for the default pause.\<close>

lemma panicked_tick_safe:
  assumes "paused \<le> now" and "panicked_tick E cfg fl reasons pp sx now now2 (paused, m, s) = (paused', m', s')"
  shows "tbl s' = tbl s \<and> tickErrorsTotal m' = tickErrorsTotal m + 1 \<and> sentTotal m' = sentTotal m \<and>
    failedTotal m' = failedTotal m \<and> paused' = pause_until now2 defaultPause"
proof -
  obtain m1 s1 where o: "observeOldestPending fl E m s = (m1, s1)" by fastforce
  have "tbl s1 = tbl s" using observeOldestPending_db [of fl E m s] o OutboxRepo_OldestPendingAge_ro [of E]
    by (metis read_only_def snd_conv)
  with assms o observeOldestPending_counters [of fl E m s] show ?thesis
    by (cases pp) (auto simp: panicked_tick_def rollback_to_def Let_def)
qed

end
