(* ===== verification/Query_Types.thy ===== *)
theory Query_Types
  imports Comments_Http Analytics_Http
begin

text \<open>
  The query strings of the list endpoints (\<open>parseListFilter\<close> of \<open>tasks.go\<close> and \<open>comments.go\<close>, \<open>parseCursorLimit\<close> of
  \<open>analytics.go\<close>): the types of the filters they produce, that every filter has its type, and that every filter
  of the type can be asked for.
\<close>

subsection \<open>Query strings\<close>

text \<open>The types of what a list query asks for: positive 64-bit ids, a page of 1 to 100 rows, a cursor that is an id
  or 0 for the start, a status of the domain.\<close>

definition id_typed :: "int64 \<Rightarrow> bool" where
  "id_typed i \<longleftrightarrow> 1 \<le> i \<and> in_int64 i"

definition page_typed :: "int64 \<times> int \<Rightarrow> bool" where
  "page_typed p \<longleftrightarrow> (fst p = 0 \<or> id_typed (fst p)) \<and> 1 \<le> snd p \<and> snd p \<le> 100"

definition comment_filter_typed :: "CommentFilter \<Rightarrow> bool" where
  "comment_filter_typed f \<longleftrightarrow> id_typed (cf_TaskID f) \<and> page_typed (cf_AfterID f, cf_Limit f)"

definition task_filter_typed :: "TaskFilter \<Rightarrow> bool" where
  "task_filter_typed f \<longleftrightarrow> id_typed (tf_TeamID f) \<and> page_typed (tf_AfterID f, tf_Limit f) \<and>
     pred_option id_typed (tf_AssigneeID f) \<and>
     pred_option (\<lambda>s. s \<in> {TaskStatusTodo, TaskStatusInProgress, TaskStatusDone}) (tf_Status f)"

text \<open>A query string that asks for given values.\<close>

definition id_text :: "int64 \<Rightarrow> string" where
  "id_text i = (if i = 0 then [] else FormatInt i)"

definition query_of :: "(string \<times> string) list \<Rightarrow> string \<Rightarrow> string" where
  "query_of kvs k = (case map_of kvs k of None \<Rightarrow> [] | Some v \<Rightarrow> v)"

definition page_query :: "int64 \<times> int \<Rightarrow> string \<Rightarrow> string" where
  "page_query p = query_of [(''limit'', FormatInt (snd p)), (''cursor'', id_text (fst p))]"

definition comments_query :: "CommentFilter \<Rightarrow> string \<Rightarrow> string" where
  "comments_query f = query_of [(''task_id'', FormatInt (cf_TaskID f)), (''limit'', FormatInt (cf_Limit f)),
     (''cursor'', id_text (cf_AfterID f))]"

definition tasks_query :: "TaskFilter \<Rightarrow> string \<Rightarrow> string" where
  "tasks_query f = query_of [(''team_id'', FormatInt (tf_TeamID f)),
     (''status'', case tf_Status f of None \<Rightarrow> [] | Some s \<Rightarrow> s),
     (''assignee_id'', case tf_AssigneeID f of None \<Rightarrow> [] | Some i \<Rightarrow> FormatInt i),
     (''limit'', FormatInt (tf_Limit f)), (''cursor'', id_text (tf_AfterID f))]"

lemma FormatInt_nonempty [simp]: "FormatInt i \<noteq> []"
  by (simp add: FormatInt_def)

lemma required_id_text: "id_typed i \<Longrightarrow> required_id m (FormatInt i) = Inr i"
  by (simp add: id_typed_def required_id_def ParseInt_FormatInt)

lemma parse_id_text: "pred_option id_typed a \<Longrightarrow> parse_id m (case a of None \<Rightarrow> [] | Some i \<Rightarrow> FormatInt i) = Inr a"
  by (cases a) (simp_all add: id_typed_def parse_id_def ParseInt_FormatInt)

lemma parse_cursor_text: "page_typed (i, n) \<Longrightarrow> parse_cursor (id_text i) = Inr i"
  by (auto simp: page_typed_def id_typed_def parse_cursor_def parse_id_def id_text_def ParseInt_FormatInt)

lemma parse_limit_text: "page_typed (i, n) \<Longrightarrow> parse_limit (FormatInt n) = Inr n"
  by (simp add: page_typed_def parse_limit_def Atoi_def maxLimit_def ParseInt_FormatInt in_int64_def)

lemma parse_status_text:
  "pred_option (\<lambda>s. s \<in> {TaskStatusTodo, TaskStatusInProgress, TaskStatusDone}) st \<Longrightarrow>
     parse_status (case st of None \<Rightarrow> [] | Some s \<Rightarrow> s) = Inr st"
  by (cases st) (auto simp: parse_status_def TaskStatusTodo_def TaskStatusInProgress_def TaskStatusDone_def)

lemma parse_cursor_typed: "parse_cursor s = Inr i \<Longrightarrow> i = 0 \<or> id_typed i"
  by (auto simp: parse_cursor_def id_typed_def dest: parse_id_Inr split: sum.splits option.splits)

lemma parseCursorLimit_sound: "parseCursorLimit q = Inr p \<Longrightarrow> page_typed p"
  by (auto simp: parseCursorLimit_def page_typed_def split: sum.split_asm dest: parse_limit_Inr parse_cursor_typed)

lemma comments_filter_sound: "comments_parseListFilter q = Inr f \<Longrightarrow> comment_filter_typed f"
  by (auto simp: comments_parseListFilter_def comment_filter_typed_def page_typed_def id_typed_def split: sum.split_asm
      dest: parse_limit_Inr parse_cursor_typed [unfolded id_typed_def] required_id_Inr)

lemma parseCursorLimit_range: "(\<exists>q. parseCursorLimit q = Inr p) \<longleftrightarrow> page_typed p"
proof
  assume "page_typed p"
  then have "parseCursorLimit (page_query p) = Inr p"
    using parse_limit_text [of "fst p" "snd p"] parse_cursor_text [of "fst p" "snd p"]
    by (simp add: parseCursorLimit_def page_query_def query_of_def)
  then show "\<exists>q. parseCursorLimit q = Inr p" by blast
qed (use parseCursorLimit_sound in blast)

lemma comments_filter_range: "(\<exists>q. comments_parseListFilter q = Inr f) \<longleftrightarrow> comment_filter_typed f"
proof
  assume t: "comment_filter_typed f"
  then have "comments_parseListFilter (comments_query f) = Inr f"
    using parse_limit_text [of "cf_AfterID f" "cf_Limit f"] parse_cursor_text [of "cf_AfterID f" "cf_Limit f"]
    by (simp add: comments_parseListFilter_def comment_filter_typed_def comments_query_def query_of_def required_id_text)
  then show "\<exists>q. comments_parseListFilter q = Inr f" by blast
qed (use comments_filter_sound in blast)

lemma tasks_filter_sound:
  assumes "tasks_parseListFilter q = Inr f"
  shows "task_filter_typed f"
proof -
  from assms obtain teamID status assigneeID limit afterID where
    p: "required_id ''team_id is required'' (q ''team_id'') = Inr teamID" "parse_status (q ''status'') = Inr status"
    "parse_id ''invalid assignee_id'' (q ''assignee_id'') = Inr assigneeID" "parse_limit (q ''limit'') = Inr limit"
    "parse_cursor (q ''cursor'') = Inr afterID"
    and f: "f = \<lparr>tf_Status = status, tf_AssigneeID = assigneeID, tf_TeamID = teamID, tf_Limit = limit,
               tf_AfterID = afterID\<rparr>"
    by (auto simp: tasks_parseListFilter_def split: sum.splits)
  have "pred_option (\<lambda>s. s \<in> {TaskStatusTodo, TaskStatusInProgress, TaskStatusDone}) status"
    using p(2) parse_status_Inr [of "q ''status''"] by (cases status) simp_all
  moreover have "pred_option id_typed assigneeID"
    using p(3) parse_id_Inr by (cases assigneeID) (simp_all add: id_typed_def)
  ultimately show ?thesis
    using required_id_Inr [OF p(1)] parse_limit_Inr [OF p(4)] parse_cursor_typed [OF p(5)]
    by (simp add: f task_filter_typed_def page_typed_def id_typed_def)
qed

lemma tasks_filter_range: "(\<exists>q. tasks_parseListFilter q = Inr f) \<longleftrightarrow> task_filter_typed f"
proof
  assume t: "task_filter_typed f"
  then have "tasks_parseListFilter (tasks_query f) = Inr f"
    using parse_limit_text [of "tf_AfterID f" "tf_Limit f"] parse_cursor_text [of "tf_AfterID f" "tf_Limit f"]
    by (simp add: tasks_parseListFilter_def task_filter_typed_def tasks_query_def query_of_def required_id_text
        parse_id_text parse_status_text)
  then show "\<exists>q. tasks_parseListFilter q = Inr f" by blast
qed (use tasks_filter_sound in blast)

text \<open>C31. The query parsers produce exactly the well-typed filters. What a list endpoint hands to its service has positive
  64-bit ids, a known status, a page of 1 to 100 rows and a cursor that is an id or 0; and every such filter
  can be asked for by some query string.\<close>

theorem list_filters_typed:
  "((\<exists>q. tasks_parseListFilter q = Inr f) \<longleftrightarrow> task_filter_typed f) \<and>
   ((\<exists>q. comments_parseListFilter q = Inr g) \<longleftrightarrow> comment_filter_typed g) \<and>
   ((\<exists>q. parseCursorLimit q = Inr p) \<longleftrightarrow> page_typed p)"
  by (intro conjI tasks_filter_range comments_filter_range parseCursorLimit_range)

end
