(* ===== verification/Service_Log.thy ===== *)
theory Service_Log
  imports Go_Std
begin

text \<open>
  \<open>internal/infrastructure/logger/logger.go\<close>: the logger of the service and the attribute rewriting of its JSON
  handler. Of the standard library it models the calendar behind \<open>Time.Format\<close> for the one layout used,
  \<open>Level.String\<close>, and the order in which a handler of \<open>log/slog\<close> visits the attributes of a record. An
  attribute value other than a string, a time or a level is an opaque \<open>AnyValue\<close>. The lemmas say that the
  calendar is right, that a timestamp names its instant to the millisecond, and what a line holds.
\<close>

subsection \<open>Calendar of \<open>time.Time\<close>\<close>

text \<open>A \<open>time.Time\<close> is its number of nanoseconds since 1970-01-01 UTC; a date has a year, a month from 1 and a day
  from 1. Day 0 is 0001-01-01.\<close>

definition leap :: "int \<Rightarrow> bool" where
  "leap y \<longleftrightarrow> y mod 4 = 0 \<and> (y mod 100 \<noteq> 0 \<or> y mod 400 = 0)"

definition month_lengths :: "bool \<Rightarrow> int list" where
  "month_lengths l = [31, if l then 29 else 28, 31, 30, 31, 30, 31, 31, 30, 31, 30, 31]"

text \<open>The month and day of the day \<open>d\<close> of a year, from month \<open>m\<close> on.\<close>

fun month_day :: "int \<Rightarrow> int list \<Rightarrow> int \<Rightarrow> int \<times> int" where
  "month_day m [] d = (m, d + 1)"
| "month_day m (n # ns) d = (if d < n then (m, d + 1) else month_day (m + 1) ns (d - n))"

definition year_yday :: "int \<Rightarrow> int \<times> int" where
  "year_yday d =
     (let n400 = d div 146097; d1 = d mod 146097;
          n100 = min 3 (d1 div 36524); d2 = d1 - 36524 * n100;
          n4 = d2 div 1461; d3 = d2 mod 1461;
          n1 = min 3 (d3 div 365)
      in (400 * n400 + 100 * n100 + 4 * n4 + n1 + 1, d3 - 365 * n1))"

definition civil_date :: "int \<Rightarrow> int \<times> int \<times> int" where
  "civil_date d = (let (y, yday) = year_yday d; (m, dd) = month_day 1 (month_lengths (leap y)) yday in (y, m, dd))"

definition unix_day :: int where "unix_day = 719162"

subsection \<open>\<open>Time.Format\<close> and \<open>Level.String\<close>\<close>

definition appendInt :: "nat \<Rightarrow> int \<Rightarrow> string" where
  "appendInt w x =
     (let ds = nat_digits (nat \<bar>x\<bar>)
      in (if x < 0 then ''-'' else []) @ replicate (w - length ds) CHR ''0'' @ ds)"

text \<open>The layout \<open>2006-01-02T15:04:05.000Z\<close> on a time in UTC; the fraction is cut, not rounded.\<close>

definition format_utc :: "int \<Rightarrow> string" where
  "format_utc t =
     (let ms = t div 1000000; secs = ms div 1000; day = secs div 86400; sod = secs mod 86400;
          (y, m, d) = civil_date (day + unix_day)
      in appendInt 4 y @ ''-'' @ appendInt 2 m @ ''-'' @ appendInt 2 d @ ''T'' @
         appendInt 2 (sod div 3600) @ '':'' @ appendInt 2 (sod mod 3600 div 60) @ '':'' @ appendInt 2 (sod mod 60) @
         ''.'' @ appendInt 3 (ms mod 1000) @ ''Z'')"

definition LevelDebug :: int where "LevelDebug = - 4"
definition LevelInfo :: int where "LevelInfo = 0"
definition LevelWarn :: int where "LevelWarn = 4"
definition LevelError :: int where "LevelError = 8"

definition level_str :: "string \<Rightarrow> int \<Rightarrow> string" where
  "level_str base val = (if val = 0 then base else base @ (if val > 0 then ''+'' else []) @ FormatInt val)"

definition Level_String :: "int \<Rightarrow> string" where
  "Level_String l =
     (if l < LevelInfo then level_str ''DEBUG'' (l - LevelDebug)
      else if l < LevelWarn then level_str ''INFO'' (l - LevelInfo)
      else if l < LevelError then level_str ''WARN'' (l - LevelWarn)
      else level_str ''ERROR'' (l - LevelError))"

definition lower_char :: "char \<Rightarrow> char" where
  "lower_char c = (let k = (of_char c :: nat) in if 65 \<le> k \<and> k \<le> 90 then char_of (k + 32) else c)"

text \<open>\<open>strings.ToLower\<close> on ASCII, which is all \<open>Level_String\<close> produces.\<close>

definition ToLower :: "string \<Rightarrow> string" where
  "ToLower = map lower_char"

subsection \<open>Attributes and loggers\<close>

datatype slog_value = StringValue string | TimeValue int | LevelValue int | AnyValue string

record slog_attr =
  at_Key :: string
  at_Value :: slog_value

definition MessageKey :: string where "MessageKey = ''msg''"
definition TimeKey :: string where "TimeKey = ''time''"
definition LevelKey :: string where "LevelKey = ''level''"

definition replaceAttr :: "string list \<Rightarrow> slog_attr \<Rightarrow> slog_attr" where
  "replaceAttr groups a =
     (if length groups > 0 then a
      else if at_Key a = MessageKey then a\<lparr>at_Key := ''event''\<rparr>
      else if at_Key a = TimeKey then
        (let a1 = a\<lparr>at_Key := ''timestamp''\<rparr>
         in case at_Value a of TimeValue t \<Rightarrow> a1\<lparr>at_Value := StringValue (format_utc t)\<rparr> | _ \<Rightarrow> a1)
      else if at_Key a = LevelKey then
        (case at_Value a of LevelValue l \<Rightarrow> a\<lparr>at_Value := StringValue (ToLower (Level_String l))\<rparr> | _ \<Rightarrow> a)
      else a)"

datatype handler_kind = TextHandler | JSONHandler

record Logger =
  lo_kind :: handler_kind
  lo_level :: int
  lo_ReplaceAttr :: "(string list \<Rightarrow> slog_attr \<Rightarrow> slog_attr) option"
  lo_with :: "slog_attr list"

definition envLocal :: string where "envLocal = ''local''"

definition log_With :: "slog_attr list \<Rightarrow> Logger \<Rightarrow> Logger" where
  "log_With as l = l\<lparr>lo_with := lo_with l @ as\<rparr>"

definition string_attr :: "string \<Rightarrow> string \<Rightarrow> slog_attr" where
  "string_attr k v = \<lparr>at_Key = k, at_Value = StringValue v\<rparr>"

definition NewLog :: "string \<Rightarrow> string \<Rightarrow> string \<Rightarrow> Logger" where
  "NewLog env appName version =
     (let log = (if env = envLocal
                 then \<lparr>lo_kind = TextHandler, lo_level = LevelDebug, lo_ReplaceAttr = None, lo_with = []\<rparr>
                 else \<lparr>lo_kind = JSONHandler, lo_level = LevelInfo, lo_ReplaceAttr = Some replaceAttr, lo_with = []\<rparr>)
      in log_With [string_attr ''app_name'' appName, string_attr ''app_version'' version, string_attr ''env'' env] log)"

text \<open>What a call of the logger hands to its handler's writer, in order: time, level, message, the attributes of
  \<open>With\<close>, those of the call, each through \<open>ReplaceAttr\<close> with no group open; nothing below the level.\<close>

definition slog_line :: "Logger \<Rightarrow> int \<Rightarrow> int \<Rightarrow> string \<Rightarrow> slog_attr list \<Rightarrow> slog_attr list option" where
  "slog_line l now level msg as =
     (if level < lo_level l then None
      else Some (map (case lo_ReplaceAttr l of None \<Rightarrow> (\<lambda>a. a) | Some f \<Rightarrow> f [])
        ([\<lparr>at_Key = TimeKey, at_Value = TimeValue now\<rparr>, \<lparr>at_Key = LevelKey, at_Value = LevelValue level\<rparr>,
          string_attr MessageKey msg] @ lo_with l @ as)))"

subsection \<open>The calendar is right\<close>

definition days_before :: "int \<Rightarrow> int" where
  "days_before y = 365 * (y - 1) + (y - 1) div 4 - (y - 1) div 100 + (y - 1) div 400"

definition day_number :: "int \<Rightarrow> int \<Rightarrow> int \<Rightarrow> int" where
  "day_number y m d = days_before y + sum_list (take (nat (m - 1)) (month_lengths (leap y))) + d - 1"

lemma div_bounds: "0 < k \<Longrightarrow> k * (x div k) \<le> x \<and> x < k * (x div k) + k" for x k :: int
  using pos_mod_bound [of k x] pos_mod_sign [of k x] mult_div_mod_eq [of k x] by linarith

text \<open>The quotient of a century or a year, cut at 3 because the last one is a day longer.\<close>

lemma min3_div:
  fixes x k e :: int
  assumes "0 \<le> x" and "x < 4 * k + e" and "0 < k" and "0 \<le> e"
  shows "0 \<le> min 3 (x div k)" and "min 3 (x div k) \<le> 3" and "0 \<le> x - k * min 3 (x div k)"
    and "x - k * min 3 (x div k) < k + e" and "min 3 (x div k) < 3 \<Longrightarrow> x - k * min 3 (x div k) < k"
proof -
  note b = div_bounds [OF assms(3), of x]
  have q: "0 \<le> x div k" using assms by (simp add: pos_imp_zdiv_nonneg_iff)
  then show "0 \<le> min 3 (x div k)" "min 3 (x div k) \<le> 3" by simp_all
  show "0 \<le> x - k * min 3 (x div k)" "x - k * min 3 (x div k) < k + e"
  proof (atomize (full), cases "x div k \<le> 3")
    case False
    then have "k * 3 \<le> k * (x div k)" using assms(3) by simp
    then have "k * 3 \<le> x" using b by linarith
    with False assms(2) show "0 \<le> x - k * min 3 (x div k) \<and> x - k * min 3 (x div k) < k + e" by (simp add: min_def)
  qed (use b assms(4) in \<open>simp add: min_def\<close>)
  show "x - k * min 3 (x div k) < k" if "min 3 (x div k) < 3" using that b by (auto simp: min_def split: if_splits)
qed

text \<open>The fourth year of a group is a leap year unless it ends a century that does not end the cycle.\<close>

lemma fourth_year:
  fixes y a b c :: int
  assumes y: "y = 400 * a + 100 * b + 4 * c + 4" and b: "0 \<le> b" "b \<le> 3" and c: "0 \<le> c" "c \<le> 24"
  shows "leap y \<or> c = 24 \<and> b < 3"
proof -
  have "y = 4 * (100 * a + 25 * b + c + 1)" using y by simp
  then have m4: "y mod 4 = 0" by simp
  show ?thesis
  proof (cases "c = 24")
    case True
    have "leap y" if "b = 3"
    proof -
      have "y = 400 * (a + 1)" using y True that by simp
      then have "y mod 400 = 0" by simp
      with m4 show ?thesis by (simp add: leap_def)
    qed
    with True b(2) show ?thesis by fastforce
  next
    case False
    with y c have "y mod 100 = 4 * c + 4" by (intro int_mod_pos_eq [where q = "4 * a + b"]) simp_all
    with c(1) have "y mod 100 \<noteq> 0" by linarith
    with m4 show ?thesis by (simp add: leap_def)
  qed
qed

lemma year_yday_bounds:
  assumes "year_yday d = (y, yday)"
  shows "days_before y + yday = d" and "0 \<le> yday" and "yday < (if leap y then 366 else 365)"
proof -
  define n400 where "n400 = d div 146097"
  define d1 where "d1 = d mod 146097"
  define n100 where "n100 = min 3 (d1 div 36524)"
  define d2 where "d2 = d1 - 36524 * n100"
  define n4 where "n4 = d2 div 1461"
  define d3 where "d3 = d2 mod 1461"
  define n1 where "n1 = min 3 (d3 div 365)"
  have y: "y = 400 * n400 + 100 * n100 + 4 * n4 + n1 + 1" and yd: "yday = d3 - 365 * n1"
    using assms unfolding year_yday_def Let_def n400_def [symmetric] d1_def [symmetric] n100_def [symmetric]
      d2_def [symmetric] n4_def [symmetric] d3_def [symmetric] n1_def [symmetric] by simp_all
  have b1: "0 \<le> d1" "d1 < 146097" "d = 146097 * n400 + d1" by (simp_all add: d1_def n400_def)
  have b2: "0 \<le> n100" "n100 \<le> 3" "0 \<le> d2" "d2 < 36525" "n100 < 3 \<longrightarrow> d2 < 36524"
    using min3_div [OF b1(1), of 36524 1] b1(2) by (simp_all add: n100_def d2_def)
  have b3: "0 \<le> d3" "d3 < 1461" "d2 = 1461 * n4 + d3" by (simp_all add: n4_def d3_def)
  then have n4: "0 \<le> n4" "n4 \<le> 24" "n4 = 24 \<and> n100 < 3 \<longrightarrow> d3 < 1460" using b2 by linarith+
  have b4: "0 \<le> n1" "n1 \<le> 3" "0 \<le> yday" "yday < 366" "n1 < 3 \<longrightarrow> yday < 365"
    using min3_div [OF b3(1), of 365 1] b3(2) by (simp_all add: n1_def yd)
  have q4: "(y - 1) div 4 = 100 * n400 + 25 * n100 + n4" using y b4(1,2) by (intro int_div_pos_eq [where r = n1]) simp_all
  have q100: "(y - 1) div 100 = 4 * n400 + n100"
    using y b4(1,2) n4(1,2) by (intro int_div_pos_eq [where r = "4 * n4 + n1"]) simp_all
  have q400: "(y - 1) div 400 = n400"
    using y b4(1,2) n4(1,2) b2(1,2) by (intro int_div_pos_eq [where r = "100 * n100 + 4 * n4 + n1"]) simp_all
  show "days_before y + yday = d"
    unfolding days_before_def q4 q100 q400 using y yd b3(3) b1(3) by (simp add: d2_def)
  show "0 \<le> yday" by (fact b4(3))
  have "leap y \<or> yday < 365"
  proof (cases "n1 = 3")
    case True
    then have "y = 400 * n400 + 100 * n100 + 4 * n4 + 4" using y by simp
    from fourth_year [OF this b2(1,2) n4(1,2)] n4(3) yd True show ?thesis by auto
  qed (use b4 in auto)
  with b4(4) show "yday < (if leap y then 366 else 365)" by auto
qed

lemma month_day_sound:
  assumes "month_day m ns d = (m', dd)" and "0 \<le> d" and "d < sum_list ns"
  shows "m \<le> m' \<and> m' < m + int (length ns) \<and> 1 \<le> dd \<and> dd \<le> ns ! nat (m' - m) \<and>
    sum_list (take (nat (m' - m)) ns) + dd - 1 = d"
  using assms
proof (induction m ns d rule: month_day.induct)
  case (2 m n ns d)
  show ?case
  proof (cases "d < n")
    case False
    with 2 have "m + 1 \<le> m' \<and> m' < m + 1 + int (length ns) \<and> 1 \<le> dd \<and> dd \<le> ns ! nat (m' - (m + 1)) \<and>
      sum_list (take (nat (m' - (m + 1))) ns) + dd - 1 = d - n" by simp
    moreover from this have "nat (m' - m) = Suc (nat (m' - (m + 1)))" by linarith
    ultimately show ?thesis by auto
  qed (use 2 in auto)
qed simp

lemma month_lengths_sum: "sum_list (month_lengths l) = (if l then 366 else 365)"
  by (simp add: month_lengths_def)

lemma month_lengths_le: "k < 12 \<Longrightarrow> month_lengths l ! k \<le> 31"
proof -
  have "\<forall>n \<in> set (month_lengths l). n \<le> 31" by (simp add: month_lengths_def)
  moreover assume "k < 12"
  then have "k < length (month_lengths l)" by (simp add: month_lengths_def)
  ultimately show ?thesis using nth_mem by blast
qed

text \<open>The date of a day is a date of the calendar, and the day number of that date is the day.\<close>

lemma civil_date_sound:
  assumes "civil_date n = (y, m, d)"
  shows "day_number y m d = n" and "1 \<le> m" and "m \<le> 12" and "1 \<le> d" and "d \<le> month_lengths (leap y) ! nat (m - 1)" and "d \<le> 31"
proof -
  obtain yday where y: "year_yday n = (y, yday)" and md: "month_day 1 (month_lengths (leap y)) yday = (m, d)"
    using assms by (auto simp: civil_date_def Let_def split: prod.splits)
  note b = year_yday_bounds [OF y]
  from month_day_sound [OF md b(2)] b(3) have s: "1 \<le> m" "m < 1 + int (length (month_lengths (leap y)))" "1 \<le> d"
    "d \<le> month_lengths (leap y) ! nat (m - 1)"
    "sum_list (take (nat (m - 1)) (month_lengths (leap y))) + d - 1 = yday"
    by (simp_all add: month_lengths_sum)
  then show "day_number y m d = n" "1 \<le> m" "m \<le> 12" "1 \<le> d" "d \<le> month_lengths (leap y) ! nat (m - 1)"
    using b(1) by (simp_all add: day_number_def month_lengths_def)
  with month_lengths_le [of "nat (m - 1)" "leap y"] show "d \<le> 31" by linarith
qed

subsection \<open>A timestamp names its instant\<close>

lemma parse_digits_zeros: "parse_digits 0 (replicate k CHR ''0'' @ ds) = parse_digits 0 ds"
  by (induction k) (simp_all add: char_digit_def)

lemma appendInt_fixed:
  assumes "0 \<le> x" and "x < 10 ^ w" and "0 < w"
  shows "length (appendInt w x) = w" and "parse_digits 0 (appendInt w x) = Some (nat x)"
proof -
  have "nat x < 10 ^ w" using assms(1,2) by (simp add: nat_less_iff)
  from nat_digits_length [OF this assms(3)] show "length (appendInt w x) = w"
    using assms(1) by (simp add: appendInt_def Let_def)
  show "parse_digits 0 (appendInt w x) = Some (nat x)"
    using assms(1) by (simp add: appendInt_def Let_def parse_digits_zeros parse_nat_digits)
qed

definition read_num :: "nat \<Rightarrow> nat \<Rightarrow> string \<Rightarrow> int" where
  "read_num i w s = (case parse_digits 0 (take w (drop i s)) of None \<Rightarrow> 0 | Some n \<Rightarrow> int n)"

text \<open>What a reader of the log makes of a timestamp, in nanoseconds since 1970.\<close>

definition read_timestamp :: "string \<Rightarrow> int" where
  "read_timestamp s =
     ((((day_number (read_num 0 4 s) (read_num 5 2 s) (read_num 8 2 s) - unix_day) * 86400
        + read_num 11 2 s * 3600 + read_num 14 2 s * 60 + read_num 17 2 s) * 1000) + read_num 20 3 s) * 1000000"

lemma appendInt2: "0 \<le> x \<Longrightarrow> x < 100 \<Longrightarrow> length (appendInt 2 x) = 2 \<and> parse_digits 0 (appendInt 2 x) = Some (nat x)"
  using appendInt_fixed [of x 2] by simp

lemma read_num_at: "parse_digits 0 (take w (drop i s)) = Some (nat x) \<Longrightarrow> 0 \<le> x \<Longrightarrow> read_num i w s = x"
  by (simp add: read_num_def)

lemma read_nums:
  assumes "0 \<le> y" "y < 10000" "0 \<le> m" "m < 100" "0 \<le> d" "d < 100" "0 \<le> h" "h < 100" "0 \<le> mi" "mi < 100"
    "0 \<le> sc" "sc < 100" "0 \<le> f" "f < 1000"
    and s: "s = appendInt 4 y @ ''-'' @ appendInt 2 m @ ''-'' @ appendInt 2 d @ ''T'' @ appendInt 2 h @ '':'' @
      appendInt 2 mi @ '':'' @ appendInt 2 sc @ ''.'' @ appendInt 3 f @ ''Z''"
  shows "read_num 0 4 s = y" "read_num 5 2 s = m" "read_num 8 2 s = d" "read_num 11 2 s = h" "read_num 14 2 s = mi"
    "read_num 17 2 s = sc" "read_num 20 3 s = f" "length s = 24"
proof -
  note w = appendInt_fixed [of y 4] appendInt_fixed [of f 3] appendInt2 [OF assms(3,4)] appendInt2 [OF assms(5,6)]
    appendInt2 [OF assms(7,8)] appendInt2 [OF assms(9,10)] appendInt2 [OF assms(11,12)]
  have len: "length (appendInt 4 y) = 4" "length (appendInt 3 f) = 3" using w(1,3) assms(1,2,13,14) by simp_all
  have val: "parse_digits 0 (appendInt 4 y) = Some (nat y)" "parse_digits 0 (appendInt 3 f) = Some (nat f)"
    using w(2,4) assms(1,2,13,14) by simp_all
  show "read_num 0 4 s = y" "read_num 5 2 s = m" "read_num 8 2 s = d" "read_num 11 2 s = h" "read_num 14 2 s = mi"
    "read_num 17 2 s = sc" "read_num 20 3 s = f"
    unfolding s by (rule read_num_at; use len val w(5-9) assms(1,3,5,7,9,11,13) in simp)+
  show "length s = 24" unfolding s using len w(5-9) by simp
qed

lemma year_in_range:
  assumes "days_before y + yday = n" and "0 \<le> yday" "yday < 366" and "366 \<le> n" "n < 3649635"
  shows "1 \<le> y" and "y \<le> 9999"
proof -
  show "1 \<le> y"
  proof (rule ccontr)
    assume "\<not> 1 \<le> y"
    then have "(y - 1) div 4 \<le> (y - 1) div 100" by (intro zdiv_mono2_neg) simp_all
    moreover have "(y - 1) div 400 < 0" using \<open>\<not> 1 \<le> y\<close> by (simp add: div_neg_pos_less0)
    ultimately have "days_before y < 0" using \<open>\<not> 1 \<le> y\<close> by (simp add: days_before_def)
    with assms show False by linarith
  qed
  show "y \<le> 9999"
  proof (rule ccontr)
    assume y: "\<not> y \<le> 9999"
    then have "(y - 1) div 100 \<le> (y - 1) div 4" by (intro zdiv_mono2) simp_all
    moreover have "0 \<le> (y - 1) div 400" using y by (simp add: pos_imp_zdiv_nonneg_iff)
    ultimately have "365 * 9999 \<le> days_before y" using y by (simp add: days_before_def)
    with assms show False by linarith
  qed
qed

lemma civil_year_in_range:
  assumes "civil_date n = (y, m, d)" and "366 \<le> n" "n < 3649635"
  shows "1 \<le> y" and "y \<le> 9999"
proof -
  obtain yday where y: "year_yday n = (y, yday)" using assms(1) by (auto simp: civil_date_def Let_def split: prod.splits)
  note b = year_yday_bounds [OF y]
  from b(3) have "yday < 366" by (simp split: if_splits)
  from year_in_range [OF b(1,2) this assms(2,3)] show "1 \<le> y" "y \<le> 9999" .
qed

lemma format_utc_read:
  assumes "in_int64 t"
  shows "length (format_utc t) = 24 \<and> read_timestamp (format_utc t) = t div 1000000 * 1000000"
proof -
  define ms where "ms = t div 1000000"
  define secs where "secs = ms div 1000"
  define day where "day = secs div 86400"
  define sod where "sod = secs mod 86400"
  obtain y m d where c: "civil_date (day + unix_day) = (y, m, d)" by (cases "civil_date (day + unix_day)")
  note cal = civil_date_sound [OF c]
  have "366 \<le> day + unix_day" "day + unix_day < 3649635"
    using assms div_bounds [of 1000000 t] div_bounds [of 1000 ms] div_bounds [of 86400 secs]
    unfolding in_int64_def unix_day_def ms_def secs_def day_def by simp_all
  note yr = civil_year_in_range [OF c this]
  have sod: "0 \<le> sod" "sod < 86400" by (simp_all add: sod_def)
  have h: "0 \<le> sod div 3600" "sod div 3600 < 24" "0 \<le> sod mod 3600 div 60" "sod mod 3600 div 60 < 60"
    using sod div_bounds [of 3600 sod] div_bounds [of 60 "sod mod 3600"]
      pos_mod_bound [of 3600 sod] by (simp_all add: pos_imp_zdiv_nonneg_iff)
  have b: "m < 100" "d < 100" "sod div 3600 < 100" "sod mod 3600 div 60 < 100" "y < 10000" "0 \<le> m" "0 \<le> d" "0 \<le> y"
    using h yr cal by linarith+
  have f: "0 \<le> sod mod 60" "sod mod 60 < 100" "0 \<le> ms mod 1000" "ms mod 1000 < 1000"
    using pos_mod_bound [of 60 sod] by simp_all
  have "format_utc t = appendInt 4 y @ ''-'' @ appendInt 2 m @ ''-'' @ appendInt 2 d @ ''T'' @ appendInt 2 (sod div 3600) @
      '':'' @ appendInt 2 (sod mod 3600 div 60) @ '':'' @ appendInt 2 (sod mod 60) @ ''.'' @ appendInt 3 (ms mod 1000) @ ''Z''"
    using c unfolding format_utc_def Let_def ms_def [symmetric] secs_def [symmetric] day_def [symmetric] sod_def [symmetric] by simp
  note nums = read_nums [OF b(8,5,6,1,7,2) h(1) b(3) h(3) b(4) f this]
  have "sod mod 3600 mod 60 = sod mod 60" by (simp add: mod_mod_cancel)
  then have "sod div 3600 * 3600 + sod mod 3600 div 60 * 60 + sod mod 60 = sod"
    using div_mult_mod_eq [of sod 3600] div_mult_mod_eq [of "sod mod 3600" 60] by linarith
  then have "read_timestamp (format_utc t) = ((day * 86400 + sod) * 1000 + ms mod 1000) * 1000000"
    unfolding read_timestamp_def nums(1-7) cal(1) by simp
  also have "day * 86400 + sod = secs" unfolding day_def sod_def by (rule div_mult_mod_eq)
  also have "secs * 1000 + ms mod 1000 = ms" unfolding secs_def by (rule div_mult_mod_eq)
  finally show ?thesis using nums(8) by (simp add: ms_def)
qed

text \<open>C35. The timestamp of a JSON log line names its instant: the handler's time attribute becomes a string of 24
  characters under \<open>timestamp\<close>, and reading the date and the time of day back gives the instant cut to a
  millisecond, for every instant that fits the clock's 64-bit nanoseconds.\<close>

theorem timestamp_round_trip:
  assumes "in_int64 t"
  shows "\<exists>s. replaceAttr [] \<lparr>at_Key = TimeKey, at_Value = TimeValue t\<rparr> = \<lparr>at_Key = ''timestamp'', at_Value = StringValue s\<rparr> \<and>
    length s = 24 \<and> read_timestamp s = t div 1000000 * 1000000"
  using format_utc_read [OF assms] by (simp add: replaceAttr_def TimeKey_def MessageKey_def Let_def)

theorem timestamp_round_trip_witness:
  "replaceAttr [] \<lparr>at_Key = ''time'', at_Value = TimeValue 1709210096789123456\<rparr> =
     \<lparr>at_Key = ''timestamp'', at_Value = StringValue ''2024-02-29T12:34:56.789Z''\<rparr> \<and>
   read_timestamp ''2024-02-29T12:34:56.789Z'' = 1709210096789000000"
proof -
  have f: "format_utc 1709210096789123456 = ''2024-02-29T12:34:56.789Z''" by code_simp
  have "in_int64 1709210096789123456" by (simp add: in_int64_def)
  from timestamp_round_trip [OF this] f show ?thesis
    by (auto simp: replaceAttr_def TimeKey_def MessageKey_def Let_def)
qed

subsection \<open>Lines of the log\<close>

lemma replaceAttr_grouped: "groups \<noteq> [] \<Longrightarrow> replaceAttr groups a = a"
  by (simp add: replaceAttr_def)

lemma replaceAttr_other: "at_Key a \<notin> {MessageKey, TimeKey, LevelKey} \<Longrightarrow> replaceAttr groups a = a"
  by (simp add: replaceAttr_def)

lemma level_names:
  "map (\<lambda>l. ToLower (Level_String l)) [LevelDebug, LevelInfo, LevelWarn, LevelError] = [''debug'', ''info'', ''warn'', ''error'']"
  by code_simp

text \<open>Outside \<open>local\<close> a line at level info or above starts with the same six attributes under the names the
  log pipeline reads, and carries the attributes of the call unchanged unless they use a reserved key; a
  debug line is dropped.\<close>

lemma json_line:
  assumes "env \<noteq> envLocal" and "\<forall>a \<in> set as. at_Key a \<notin> {MessageKey, TimeKey, LevelKey}"
  shows "slog_line (NewLog env appName version) now level msg as =
    (if level < LevelInfo then None
     else Some ([string_attr ''timestamp'' (format_utc now), string_attr ''level'' (ToLower (Level_String level)),
       string_attr ''event'' msg, string_attr ''app_name'' appName, string_attr ''app_version'' version,
       string_attr ''env'' env] @ as))"
proof -
  have "map (replaceAttr []) as = as" using assms(2) by (intro map_idI replaceAttr_other) blast
  with assms(1) show ?thesis
    by (simp add: slog_line_def NewLog_def log_With_def string_attr_def replaceAttr_def MessageKey_def TimeKey_def LevelKey_def Let_def)
qed

lemma local_line:
  "slog_line (NewLog envLocal appName version) now level msg as \<noteq> None \<longleftrightarrow> LevelDebug \<le> level"
  by (auto simp: slog_line_def NewLog_def log_With_def Let_def)

end
