(* ===== verification/Spec2Isabelle.thy ===== *)
theory Spec2Isabelle
  imports Service_Properties Journey Concurrent_Updates Snapshot_Reads Process Wire Loadgen
    Relay_Metrics Query_Types Service_Log
begin

text \<open>
  A verification of the task tracker (\<open>task_tracker\<close>, written in Go): an HTTP API for teams, tasks and comments on
  MySQL, with a task-list cache, an email deduplication and rate limits on Redis, and a transactional
  outbox that a background relay empties into a mail provider.

  \<^bold>\<open>The parts and how they meet.\<close> A request passes the middlewares (recovery, rate limit, token) to
  a handler; the handler decodes and validates it, calls one service, and turns the result or the error
  into a response. A service asks the authorizer, opens a transaction and calls the repositories; the task
  service also reads, fills and invalidates the cache. An invitation writes an email into the outbox in
  its own transaction. The relay claims due emails, sends them in shards, records what was sent in the
  dedup, and deletes, reschedules or gives up each row in one transaction. The lifecycle code starts and
  stops all of it. The command-line tool grants the admin role on the same database; the load generator is a
  client of the API.

  \<^bold>\<open>How the model is built.\<close> Go's errors are values of the datatype \<open>gerr\<close> (\<open>Wrap\<close> for \<open>%w\<close>, \<open>errors_is\<close> for
  \<open>errors.Is\<close>), a call that may fail returns \<open>gerr + 'a\<close>, and \<open>go_try m f k\<close> is the idiom \<open>x, err := m();
  if err != nil { return f(err) }; k(x)\<close>. \<open>int64\<close> values are \<open>int\<close> with the wrap-around written out (\<open>wrap64\<close>)
  where the code can overflow. The database is a record of tables (lists of rows in the schema of
  \<open>migrations/\<close>) with the auto-increment counters and the number of calls made; the environment \<open>env\<close>
  decides for each call whether it succeeds, fails before or fails after taking effect, and what the
  clocks, the random source, the collation and other sessions' row locks say. Every theorem holds for every such
  environment unless it says otherwise. \<open>tx_do\<close> is \<open>TxManager.Do\<close>: an error of its function rolls back, a
  failing commit may or may not have taken effect.

  \<^bold>\<open>The theories, in the order of the code.\<close>
  \<^item> \<open>Prelude\<close>, \<open>Go_Std\<close>, \<open>Utf8\<close>: shared lemmas and the parts of Go's library the code relies on
    (\<open>strconv\<close>, \<open>errors\<close>, \<open>hex\<close>, \<open>unicode/utf8\<close> with \<open>truncateUTF8\<close> of \<open>persistence/outbox.go\<close>).
  \<^item> \<open>Domain\<close>: \<open>internal/domain/\<close> and \<open>outbox/message.go\<close>.
  \<^item> \<open>Database\<close>: the store, statements, transactions, the rules for programs that only read or only grow.
  \<^item> \<open>User_Repo\<close>, \<open>Team_Repo\<close>, \<open>Task_Repo\<close>, \<open>Comment_Repo\<close>, \<open>Outbox_Repo\<close>: \<open>infrastructure/persistence/\<close>, one
    definition per query and per method, with what each method leaves when it succeeds.
  \<^item> \<open>Schema\<close>: the invariant of the database and that every write keeps it.
  \<^item> \<open>Authorizer\<close>, \<open>Auth_Service\<close>, \<open>Teams_Service\<close>, \<open>Comments_Service\<close>, \<open>Tasks_Service\<close>, \<open>Analytics\<close>:
    \<open>internal/service/\<close> (with \<open>persistence/analytics.go\<close>), whole methods.
  \<^item> \<open>Cache\<close>: \<open>infrastructure/cache/\<close>; \<open>Cache_Protocol\<close>: its use by concurrent requests, as a step relation
    in which every access to Redis or MySQL is a step of its own.
  \<^item> \<open>Sharding\<close>, \<open>Relay\<close>, \<open>Relay_Settlement\<close>: \<open>infrastructure/outbox/\<close>; \<open>Email_Client\<close>: \<open>infrastructure/email/\<close> and
    the interface \<open>batch_sender\<close> between the two; \<open>Relay_Metrics\<close>: the counters of the relay (\<open>outbox/metrics.go\<close>), the tick
    that feeds them, and the recovery of a tick that panicked.
  \<^item> \<open>Identity\<close>: \<open>internal/identity/\<close>; \<open>Ratelimit\<close>: \<open>infrastructure/ratelimit/\<close>; \<open>Lifecycle\<close>:
    \<open>infrastructure/lifecycle/\<close>, \<open>infrastructure/health/\<close> and \<open>internal/app.go\<close>; \<open>App_Config\<close>: \<open>internal/config.go\<close> and
    the configurations of the parts.
  \<^item> \<open>Evolution\<close>: what no service ever takes back; \<open>Httpkit\<close>, \<open>Tasks_Http\<close>, \<open>Comments_Http\<close>,
    \<open>Analytics_Http\<close>, \<open>Accounts_Http\<close>, \<open>Router\<close>: \<open>internal/transport/http/\<close>.
  \<^item> \<open>Paging\<close>: the keyset pagination of the five lists as one locale, \<open>keyset_list\<close>, with an interpretation
    for each of them.
  \<^item> \<open>Wire\<close>: the route tables, and the limit on request bodies against what JSON can spell; \<open>Query_Types\<close>: what the query
    strings of the lists can ask for.
  \<^item> \<open>Concurrent_Updates\<close>: the statements of any number of \<open>Tasks.Update\<close> transactions interleaved with each other and
    with the other services, as a step relation with the row locks; \<open>Snapshot_Reads\<close>: the updates of tasks and comments
    with the snapshot they read and the state they write apart.
  \<^item> \<open>Process\<close>: \<open>cmd/api\<close>, \<open>cmd/cli\<close>, \<open>NewConfig\<close> and the connections; \<open>Loadgen\<close>: \<open>cmd/loadgen\<close>;
    \<open>Service_Log\<close>: \<open>infrastructure/logger/\<close>.
  \<^item> \<open>System\<close>: requests, grants and relay ticks on one database as a step relation; \<open>Journey\<close>: a concrete run.
  \<^item> \<open>Scenario\<close>: the small world the instances of the properties are evaluated in.
  \<^item> \<open>Service_Properties\<close> and this theory: properties that join components.

  \<^bold>\<open>What is shown.\<close> Of the whole: reachable states are consistent, histories explain the present values,
  checks made outside a transaction stay valid, the server never panics nor leaks an internal error. Of
  the services: who may do what, what each success has changed and that failures change nothing or
  everything; what concurrent updates of a task keep, and what their answers are worth under MySQL's isolation. Of the cache: a list is the database's answer at some
  moment of the request, once earlier writes are announced. Of the outbox: no email is lost,
  every row gets one verdict, attempts are bounded, a healthy relay drains the outbox, and its counters account for
  what happened. Of the edges: the types of list filters, log timestamps, tokens, rate limits, readiness, shutdown order, exit codes, pagination, configuration bounds, body limits, UTF-8
  truncation.

  \<^bold>\<open>Bounds and fuel.\<close> \<open>Relay.Run\<close>'s loop takes the list of its ticks, and \<open>relay_drains_outbox\<close> says how many are enough;
  the paging client \<open>follow\<close> takes fuel, and its theorems say that one page per row and one more suffice.
  All other recursions are structural or proved to end.

  \<^bold>\<open>Parameters, with what is relied on as named hypotheses:\<close> the JWT library (\<open>jwt_ok\<close>), \<open>bcrypt\<close> (\<open>bcrypt_ok\<close>), Redis
  (\<open>redis_ok\<close>), the JSON codec of the cache (\<open>codec_ok\<close>), the circuit breaker, the mail provider
  (\<open>provider_ok\<close>), the rate store, the validation library (\<open>ozzo_ok\<close>), parsing of addresses and networks.

  \<^bold>\<open>Not modelled.\<close> In \<open>System\<close> transactions and single statements are atomic steps; the interleaving of statements is modelled for
  the updates of tasks (\<open>Concurrent_Updates\<close>) and comments (\<open>Snapshot_Reads\<close>), the two that read rows they then write, and for the
  relay as rows locked by another session. Deadlocks and lock time-outs appear as failed statements. JSON decoding and
  encoding of requests and responses are taken as given (a decoded value, a failure) but for the spelling of strings,
  as are path matching by the router library, time-outs of single calls (they appear as failures), durations in log lines
  and metrics, and metric registries. Which lines the code logs is modelled for requests (\<open>Router\<close>) only; \<open>Service_Log\<close> says what
  a line looks like. The constructors that only store their arguments and the generated \<open>docs/\<close> are left out: they hold no
  logic of the service.
\<close>

section \<open>The running system\<close>

subsection \<open>Properties\<close>

text \<open>C1. Whatever requests, admin grants and relay ticks run in whatever order, and whatever the database,
  Redis or the mail provider make of them, every state the system reaches from the empty database is
  consistent: each task belongs to an existing team and creator, is assigned to nobody or to a member of
  its team, has one of the three statuses and a completion time exactly when it is done; each team is
  owned by its creator; no one is twice a member of a team; no two users share an address; and an email
  waiting in the outbox has attempts left, one that was given up has used all of them.\<close>

theorem reachable_states_consistent:
  assumes reach: "app_reach E D G cfg a" and T: "T = tbl (ap_db a)"
  shows "(\<forall>k \<in> set (tasks T). k_team_id k \<in> team_ids T \<and> k_created_by k \<in> user_ids T \<and>
      (\<forall>u. k_assignee_id k = Some u \<longrightarrow> (k_team_id k, u) \<in> member_pairs T) \<and>
      k_status k \<in> {TaskStatusTodo, TaskStatusInProgress, TaskStatusDone} \<and>
      (k_completed_at k \<noteq> None \<longleftrightarrow> k_status k = TaskStatusDone)) \<and>
    (\<forall>t \<in> set (teams T). owns T (t_id t) (t_created_by t)) \<and>
    distinct (map (\<lambda>m. (m_team_id m, m_user_id m)) (team_members T)) \<and>
    distinct (map (\<lambda>u. collate E (u_email u)) (users T)) \<and>
    (1 \<le> oc_MaxAttempts cfg \<longrightarrow> attempts_ok (oc_MaxAttempts cfg) T)"
proof -
  from app_reach_inv [OF reach] have inv: "inv E T (cnt (ap_db a))"
    and att: "1 \<le> oc_MaxAttempts cfg \<longrightarrow> attempts_ok (oc_MaxAttempts cfg) T" by (simp_all add: app_inv_def T)
  from inv have parts: "users_ok E T (cnt (ap_db a))" "teams_ok T (cnt (ap_db a))" "members_ok T" "tasks_ok T (cnt (ap_db a))"
    by (simp_all add: inv_def)
  from parts(4) have "\<forall>k \<in> set (tasks T). task_ok T k" by (simp add: tasks_ok_def)
  with parts(1-3) att show ?thesis
    by (auto simp: users_ok_def teams_ok_def members_ok_def task_ok_def task_status_enum_def)
qed

theorem reachable_states_consistent_witness:
  "\<exists>k. tasks (tbl (ap_db journey_app)) = [k] \<and> k_title k = ''u'' \<and> k_completed_at k = None \<and>
     (\<forall>u. k_assignee_id k = Some u \<longrightarrow> (k_team_id k, u) \<in> member_pairs (tbl (ap_db journey_app)))"
proof -
  from journey_task obtain k where k: "tasks (tbl (ap_db journey_app)) = [k]" "k_title k = ''u''" "k_status k = TaskStatusTodo"
    by auto
  with reachable_states_consistent [OF journey_reached refl] show ?thesis
    by (auto simp: status_defs)
qed

text \<open>C7. A check that has passed stays passed: between the checks of \<open>Tasks.Create\<close> or \<open>Teams.Invite\<close> and
  their transaction any number of other requests, grants and ticks may run, and when the transaction
  comes the actor is still permitted and the assignee still a member, because nothing in the system
  takes a role, a membership or a user back. So checking outside the transaction is safe.\<close>

theorem checks_stay_valid:
  assumes "app_reach E D G cfg a" and "c \<in> set (ap_checked a)"
  shows "still_allowed (tbl (ap_db a)) c"
  using app_reach_inv [OF assms(1)] assms(2) by (simp add: app_inv_def)

theorem checks_stay_valid_witness:
  "\<exists>a. app_reach demo_env journey_deps (demo_edge 1) demo_cfg a \<and> ap_checked a = [CheckedTask 1 1 demo_input] \<and>
     still_allowed (tbl (ap_db a)) (CheckedTask 1 1 demo_input)"
proof -
  let ?s = "ap_db journey_app"
  have r: "fst (RequireTeamRole demo_env 1 1 TeamRoleMember ?s) = Inr ()"
    unfolding journey_state by code_simp
  have m: "fst (requireAssigneeIsMember demo_env 1 (ti_AssigneeID demo_input)
      (snd (RequireTeamRole demo_env 1 1 TeamRoleMember ?s))) = Inr ()"
    unfolding journey_state by code_simp
  obtain s1 where s1: "RequireTeamRole demo_env 1 1 TeamRoleMember ?s = (Inr (), s1)" using r by (metis prod.collapse)
  obtain s2 where s2: "requireAssigneeIsMember demo_env 1 (ti_AssigneeID demo_input) s1 = (Inr (), s2)"
    using m s1 by (metis prod.collapse snd_conv)
  let ?a = "(set_db s2 journey_app)\<lparr>ap_checked := CheckedTask 1 1 demo_input # ap_checked journey_app\<rparr>"
  have reach: "app_reach demo_env journey_deps (demo_edge 1) demo_cfg ?a"
    by (rule app_reach.step [OF journey_reached app_step.check_task [OF s1 s2]])
  have c: "ap_checked ?a = [CheckedTask 1 1 demo_input]" by (simp add: journey_app_def)
  with checks_stay_valid [OF reach, of "CheckedTask 1 1 demo_input"] reach show ?thesis by (intro exI [of _ ?a]) simp
qed

text \<open>C6. The history of a task explains its present: what \<open>Tasks.History\<close> returns in a reachable state starts
  with the creation by the task's creator, contains no change from a value to itself, and for each of
  title, description, status and assignee the changes form one chain, each from where the last one
  ended, up to the value the task has now. Only someone who may act in the team gets it.\<close>

theorem history_explains_task:
  assumes reach: "app_reach E D G cfg a" and T: "T = tbl (ap_db a)"
    and h: "Tasks_History E actorID taskID (ap_db a) = (Inr changes, s')"
  shows "\<exists>k \<in> set (tasks T). k_id k = taskID \<and> may_act T actorID (k_team_id k) TeamRoleMember \<and>
    changes \<noteq> [] \<and> tc_Field (hd changes) = ChangeFieldCreated \<and> tc_ChangedBy (hd changes) = k_created_by k \<and>
    list_all (\<lambda>c. tc_OldValue c \<noteq> tc_NewValue c) (tl changes) \<and>
    (\<forall>f \<in> set tracked_fields. \<exists>v. chain v
       (map (\<lambda>c. (tc_OldValue c, tc_NewValue c)) (filter (\<lambda>c. tc_Field c = f) changes)) (Schema.field_value k f))"
proof -
  from app_reach_db_inv [OF reach] have I: "db_inv E (ap_db a)" .
  from h obtain k s1 s2 where k: "find (\<lambda>r. k_id r = taskID) (tasks T) = Some k"
    and role: "RequireTeamRole E actorID (k_team_id k) TeamRoleMember s1 = (Inr (), s2)"
    and s1: "tbl s1 = T" "cnt s1 = cnt (ap_db a)"
    and q: "TaskRepo_History E taskID s2 = (Inr changes, s')"
    by (auto simp: Tasks_History_def go_try_Inr TaskRepo_ByID_Inr ret_def scan_task_def T)
  have "tbl s2 = T" using read_onlyD [OF RequireTeamRole_ro role] s1 by simp
  with TaskRepo_History_Inr [OF q] have ch: "changes = map scan_change (sel_history taskID T)" by simp
  have mem: "k \<in> set (tasks T)" "k_id k = taskID" using find_Some_iff_mem [OF k] by simp_all
  have "history_ok T (cnt (ap_db a))" "audit_ok T" using I by (simp_all add: inv_def T)
  then have log: "sel_history taskID T = task_log taskID T" "log_ok k (task_log taskID T)"
    using mem by (auto simp: sel_history_def task_log_def history_ok_def audit_ok_def tab_ok_sorted)
  have "may_act T actorID (k_team_id k) TeamRoleMember"
    using RequireTeamRole_Inr [OF _ role] I s1 T by simp
  moreover have "map (\<lambda>c. (tc_OldValue c, tc_NewValue c)) (filter (\<lambda>c. tc_Field c = f) changes) =
      field_changes f (task_log taskID T)" for f
    by (simp add: ch log(1) field_changes_def filter_map comp_def scan_change_def)
  moreover have "list_all (\<lambda>c. tc_OldValue c \<noteq> tc_NewValue c) (tl changes)"
    using log(2) unfolding ch log(1) log_ok_def
    by (auto simp: map_tl [symmetric] list_all_iff real_change_def scan_change_def)
  ultimately show ?thesis
    using log mem unfolding ch log_ok_def by (intro bexI [of _ k]) (auto simp: hd_map scan_change_def)
qed

theorem history_explains_task_witness:
  "\<exists>changes s'. Tasks_History demo_env 1 1 (ap_db journey_app) = (Inr changes, s') \<and>
     map tc_Field changes = [ChangeFieldCreated, ''title'', ''status''] \<and>
     list_all (\<lambda>c. tc_OldValue c \<noteq> tc_NewValue c) (tl changes) \<and>
     (\<exists>k \<in> set (tasks (tbl (ap_db journey_app))). tc_ChangedBy (hd changes) = k_created_by k)"
proof -
  have f: "map_sum id (map tc_Field) (fst (Tasks_History demo_env 1 1 (ap_db journey_app))) =
      Inr [ChangeFieldCreated, ''title'', ''status'']"
    unfolding journey_state by code_simp
  then obtain changes s' where h: "Tasks_History demo_env 1 1 (ap_db journey_app) = (Inr changes, s')"
    by (cases "Tasks_History demo_env 1 1 (ap_db journey_app)"; cases "fst (Tasks_History demo_env 1 1 (ap_db journey_app))") auto
  from f h history_explains_task [OF journey_reached refl h] show ?thesis by auto
qed

text \<open>C25. The orphan report of a system that started empty is empty: in no reachable state does a task have
  an assignee outside its team, so whatever page is asked for, a report that is answered at all (to an
  admin) lists nothing. Rows in it can only come from data written past the application.\<close>

theorem orphan_report_empty:
  assumes reach: "app_reach E D G cfg a"
    and r: "Analytics_OrphanAssignees E actorID afterID limit (ap_db a) = (Inr rows, s')"
  shows "rows = [] \<and> is_global_admin (tbl (ap_db a)) actorID"
proof -
  from r obtain s1 where adm: "RequireAdmin E actorID (ap_db a) = (Inr (), s1)"
    and q: "AnalyticsRepo_OrphanAssignees E afterID limit s1 = (Inr rows, s')"
    by (auto simp: Analytics_OrphanAssignees_def go_try_Inr ret_def)
  have "tbl s1 = tbl (ap_db a)" using read_onlyD [OF RequireAdmin_ro adm] by simp
  with q have "rows = map orphan_of (sel_orphans afterID limit (tbl (ap_db a)))"
    by (auto simp: AnalyticsRepo_OrphanAssignees_def go_try_Inr query_Inr driver_call_Inr fail_def split: if_splits)
  with inv_no_orphans [OF app_reach_db_inv [OF reach]] RequireAdmin_Inr [OF app_reach_db_inv [OF reach] adm]
  show ?thesis by simp
qed

theorem orphan_report_empty_witness:
  "\<exists>a s'. app_reach demo_env journey_deps (demo_edge 1) demo_cfg a \<and> tasks (tbl (ap_db a)) \<noteq> [] \<and>
     Analytics_OrphanAssignees demo_env 1 0 10 (ap_db a) = (Inr [], s')"
proof -
  obtain res s where g: "Auth_GrantAdmin demo_env ''a@b'' (ap_db journey_app) = (res, s)" by (metis surj_pair)
  then have s: "s = snd (Auth_GrantAdmin demo_env ''a@b'' (ap_db journey_app))" by simp
  let ?a = "set_db s journey_app"
  have reach: "app_reach demo_env journey_deps (demo_edge 1) demo_cfg ?a"
    by (rule app_reach.step [OF journey_reached app_step.grant_admin [OF g]])
  have "\<not> isl (fst (Analytics_OrphanAssignees demo_env 1 0 10 s))"
    unfolding s journey_state by code_simp
  then obtain rows s' where rep: "Analytics_OrphanAssignees demo_env 1 0 10 (ap_db ?a) = (Inr rows, s')"
    by (cases "Analytics_OrphanAssignees demo_env 1 0 10 s"; cases "fst (Analytics_OrphanAssignees demo_env 1 0 10 s)") auto
  have "length (tasks (tbl s)) = 1" unfolding s journey_state by code_simp
  then have "tasks (tbl (ap_db ?a)) \<noteq> []" by auto
  with orphan_report_empty [OF reach rep] reach rep show ?thesis by blast
qed

end
